(* ===== verification/Prelude.thy ===== *)
theory Prelude
  imports Complex_Main "HOL-Library.Signed_Division"
begin

text \<open>
  Shared vocabulary of the development: the machine-integer conventions, the bits of the Rust
  standard library the program uses (\<open>div_ceil\<close>, \<open>binary_search\<close>, \<open>dedup\<close>, \<open>position\<close>,
  \<open>i128\<close> division), and the generic list lemmas every component relies on.

  Integer conventions.  \<open>u64\<close>/\<open>usize\<close> values are natural numbers; where the program adds or
  multiplies such values the wrap-around of a release build is written out with \<open>u64\<close>,
  \<open>u128\<close> and \<open>i128\<close> below.  Array extents, indices and lengths are addressable and lie below
  \<open>2 ^ 63\<close>, so the sum of two of them cannot wrap; such sums are written plainly.  A panic (an assertion, an out-of-range index, a division by zero)
  is the value \<open>None\<close>.
\<close>

section \<open>Collections of rewrite rules\<close>

named_theorems word_simps \<open>removing the wrap-around of in-range machine arithmetic\<close>
named_theorems members_simps \<open>what a coordinate set, box or selection denotes\<close>

section \<open>Machine integers\<close>

definition u64 :: "nat \<Rightarrow> nat" where
  "u64 n = n mod 2 ^ 64"

definition u128 :: "int \<Rightarrow> nat" where
  "u128 n = nat (n mod 2 ^ 128)"

definition i128 :: "int \<Rightarrow> int" where
  "i128 n = (n + 2 ^ 127) mod 2 ^ 128 - 2 ^ 127"

text \<open>Every index the program can address lies below \<open>2 ^ 63\<close> (an allocation never exceeds
  \<open>isize::MAX\<close>).\<close>

definition index_bound :: nat where
  "index_bound = 2 ^ 63"

lemma u64_id [word_simps]: "n < 2 ^ 64 \<Longrightarrow> u64 n = n"
  by (simp add: u64_def)

lemma u64_bound: "u64 n < 2 ^ 64"
  by (simp add: u64_def)

lemma index_bound_u64: "n < index_bound \<Longrightarrow> n < 2 ^ 64"
  by (simp add: index_bound_def)

lemma u64_index [word_simps]: "n < index_bound \<Longrightarrow> u64 n = n"
  by (rule u64_id) (rule index_bound_u64)

lemma u64_index_add [word_simps]:
  "a < index_bound \<Longrightarrow> b \<le> index_bound \<Longrightarrow> u64 (a + b) = a + b"
  by (simp add: u64_def index_bound_def)

text \<open>A wrapping subtraction that does not underflow.\<close>

lemma u64_sub [word_simps]:
  assumes "b \<le> a" "a < 2 ^ 64" shows "u64 (a + 2 ^ 64 - b) = a - b"
proof -
  have "a + 2 ^ 64 - b = (a - b) + 2 ^ 64" using assms(1) by simp
  then have "u64 (a + 2 ^ 64 - b) = ((a - b) + 2 ^ 64) mod 2 ^ 64" by (simp only: u64_def)
  also have "\<dots> = a - b" using assms by (subst mod_add_self2) simp
  finally show ?thesis .
qed

lemma i128_cong: "i128 n mod 2 ^ 128 = n mod 2 ^ 128"
  by (simp add: i128_def mod_diff_left_eq)

lemma u128_cong: "a mod 2 ^ 128 = b mod 2 ^ 128 \<Longrightarrow> u128 a = u128 b"
  by (simp add: u128_def)

lemma u128_of_nat [word_simps]: "n < 2 ^ 128 \<Longrightarrow> u128 (int n) = n"
  by (simp add: u128_def)

section \<open>Integer division of the program\<close>

text \<open>\<open>uN::div_ceil\<close>.\<close>

definition div_ceil :: "nat \<Rightarrow> nat \<Rightarrow> nat" where
  "div_ceil a b = (if a mod b = 0 then a div b else a div b + 1)"

lemma div_ceil_mult_ge: "0 < b \<Longrightarrow> a \<le> div_ceil a b * b"
proof -
  assume b: "0 < b"
  have eq: "a = a div b * b + a mod b" by simp
  show ?thesis
  proof (cases "a mod b = 0")
    case True
    then show ?thesis by (auto simp: div_ceil_def)
  next
    case False
    have "a mod b < b" using b by simp
    then have "a \<le> a div b * b + b" using eq by linarith
    then show ?thesis using False by (simp add: div_ceil_def algebra_simps)
  qed
qed

lemma div_ceil_mult_less: "0 < b \<Longrightarrow> div_ceil a b * b < a + b"
proof -
  assume b: "0 < b"
  have eq: "a = a div b * b + a mod b" by simp
  show ?thesis
  proof (cases "a mod b = 0")
    case True
    then show ?thesis using b eq by (simp add: div_ceil_def)
  next
    case False
    then have "a div b * b < a" using eq by linarith
    then show ?thesis using False by (simp add: div_ceil_def algebra_simps)
  qed
qed

lemma div_ceil_le_iff: "0 < b \<Longrightarrow> div_ceil a b \<le> k \<longleftrightarrow> a \<le> k * b"
proof
  assume b: "0 < b"
  show "a \<le> k * b" if "div_ceil a b \<le> k"
    using div_ceil_mult_ge [OF b, of a] that by (meson le_trans mult_le_mono1)
  show "div_ceil a b \<le> k" if "a \<le> k * b"
  proof (rule ccontr)
    assume "\<not> div_ceil a b \<le> k"
    then have "Suc k * b \<le> div_ceil a b * b" by (intro mult_le_mono1) simp
    then show False using div_ceil_mult_less [OF b, of a] that by simp
  qed
qed

lemma div_ceil_pos_iff [simp]: "0 < b \<Longrightarrow> 0 < div_ceil a b \<longleftrightarrow> 0 < a"
  using div_ceil_le_iff [of b a 0] by auto

lemma div_ceil_zero [simp]: "div_ceil 0 b = 0"
  by (simp add: div_ceil_def)

lemma div_ceil_one [simp]: "div_ceil a 1 = a" "div_ceil a (Suc 0) = a"
  by (simp_all add: div_ceil_def)

lemma div_ceil_self_le: "0 < b \<Longrightarrow> div_ceil a b \<le> a"
  by (simp add: div_ceil_le_iff)

lemma div_ceil_pred: "0 < n \<Longrightarrow> 0 < k \<Longrightarrow> div_ceil n k = Suc ((n - 1) div k)"
proof -
  assume n: "0 < n" and k: "0 < k"
  have "n \<le> Suc ((n - 1) div k) * k"
  proof -
    have "n - 1 < Suc ((n - 1) div k) * k" using k by (simp add: dividend_less_div_times)
    then show ?thesis by linarith
  qed
  moreover have "\<not> n \<le> ((n - 1) div k) * k"
    using div_times_less_eq_dividend [of "n - 1" k] n by linarith
  ultimately show ?thesis using div_ceil_le_iff [OF k, of n] by (metis Suc_leI antisym leI)
qed

section \<open>Lists\<close>

text \<open>\<open>Iterator::position\<close>.\<close>

fun position :: "('a \<Rightarrow> bool) \<Rightarrow> 'a list \<Rightarrow> nat option" where
  "position P [] = None"
| "position P (x # xs) = (if P x then Some 0 else map_option Suc (position P xs))"

lemma position_Some:
  "position P xs = Some i \<Longrightarrow> i < length xs \<and> P (xs ! i) \<and> (\<forall>j < i. \<not> P (xs ! j))"
proof (induction xs arbitrary: i)
  case (Cons x xs)
  then show ?case by (force split: if_splits simp: nth_Cons less_Suc_eq_0_disj)
qed simp

lemma position_None: "position P xs = None \<longleftrightarrow> (\<forall>x \<in> set xs. \<not> P x)"
  by (induction xs) auto

lemma position_eqI:
  "i < length xs \<Longrightarrow> P (xs ! i) \<Longrightarrow> (\<And>j. j < i \<Longrightarrow> \<not> P (xs ! j)) \<Longrightarrow> position P xs = Some i"
proof (induction xs arbitrary: i)
  case (Cons x xs)
  show ?case
  proof (cases i)
    case 0
    with Cons.prems show ?thesis by simp
  next
    case (Suc k)
    have "\<not> P x" using Cons.prems(3) [of 0] Suc by simp
    moreover have "position P xs = Some k"
      using Cons.prems Suc by (intro Cons.IH) (force dest: Cons.prems(3) [of "Suc _"])+
    ultimately show ?thesis using Suc by simp
  qed
qed simp

text \<open>\<open>slice::binary_search\<close>, as used through \<open>is_ok\<close>.\<close>

function binary_search :: "'a::linorder list \<Rightarrow> 'a \<Rightarrow> bool" where
  "binary_search v x =
     (if v = [] then False
      else let m = length v div 2 in
        if v ! m = x then True
        else if v ! m < x then binary_search (drop (Suc m) v) x
        else binary_search (take m v) x)"
  by pat_completeness auto
termination
  by (relation "measure (\<lambda>(v, x). length v)") auto

declare binary_search.simps [simp del]

lemma sorted_split_nth:
  assumes "sorted (v :: 'a::linorder list)" "m < length v"
  shows "y \<in> set (take m v) \<Longrightarrow> y \<le> v ! m" "y \<in> set (drop (Suc m) v) \<Longrightarrow> v ! m \<le> y"
proof -
  have eq: "v = take m v @ v ! m # drop (Suc m) v" using assms(2) by (rule id_take_nth_drop)
  have "sorted (take m v @ v ! m # drop (Suc m) v)" using assms(1) eq by simp
  then show "y \<in> set (take m v) \<Longrightarrow> y \<le> v ! m" "y \<in> set (drop (Suc m) v) \<Longrightarrow> v ! m \<le> y"
    by (auto simp: sorted_append)
qed

lemma set_split_nth:
  "m < length v \<Longrightarrow> set v = set (take m v) \<union> {v ! m} \<union> set (drop (Suc m) v)"
proof -
  assume "m < length v"
  then have "set v = set (take m v @ v ! m # drop (Suc m) v)"
    by (simp add: id_take_nth_drop [symmetric])
  then show ?thesis by auto
qed

lemma binary_search_iff: "sorted v \<Longrightarrow> binary_search v x \<longleftrightarrow> x \<in> set v"
proof (induction v x rule: binary_search.induct)
  case (1 v x)
  show ?case
  proof (cases "v = []")
    case True
    then show ?thesis by (simp add: binary_search.simps)
  next
    case False
    define m where "m = length v div 2"
    have m: "m < length v" using False by (simp add: m_def)
    note sets = set_split_nth [OF m]
    note ord = sorted_split_nth [OF "1.prems" m, of x]
    have unf: "binary_search v x = (if v ! m = x then True
        else if v ! m < x then binary_search (drop (Suc m) v) x
        else binary_search (take m v) x)"
      using False by (subst binary_search.simps) (simp add: Let_def m_def)
    consider "v ! m = x" | "v ! m < x" | "x < v ! m" by fastforce
    then show ?thesis
    proof cases
      case 1
      then show ?thesis using m unf by auto
    next
      case 2
      then have "binary_search v x \<longleftrightarrow> x \<in> set (drop (Suc m) v)"
        using "1.IH"(1) [OF False m_def] "1.prems" unf by (simp add: sorted_wrt_drop)
      moreover have "x \<notin> set (take m v)" using ord(1) 2 by auto
      ultimately show ?thesis using 2 sets by auto
    next
      case 3
      then have "\<not> v ! m < x" "v ! m \<noteq> x" by auto
      then have "binary_search v x \<longleftrightarrow> x \<in> set (take m v)"
        using "1.IH"(2) [OF False m_def] "1.prems" unf by (simp add: sorted_wrt_take)
      moreover have "x \<notin> set (drop (Suc m) v)" using ord(2) 3 by auto
      ultimately show ?thesis using 3 sets by auto
    qed
  qed
qed

text \<open>\<open>Vec::sort_unstable\<close> followed by \<open>Vec::dedup\<close>.\<close>

definition sort_dedup :: "nat list \<Rightarrow> nat list" where
  "sort_dedup v = remdups_adj (sort v)"

lemma sorted_remdups_adj_distinct: "sorted (v :: 'a::linorder list) \<Longrightarrow> distinct (remdups_adj v)"
proof (induction v rule: remdups_adj.induct)
  case (3 x y xs)
  then show ?case by (auto simp: less_le)
qed simp_all

lemma sort_dedup [simp]:
  "set (sort_dedup v) = set v" "sorted (sort_dedup v)" "distinct (sort_dedup v)"
  by (simp_all add: sort_dedup_def sorted_remdups_adj sorted_remdups_adj_distinct)

lemma sort_dedup_id: "sorted v \<Longrightarrow> distinct v \<Longrightarrow> sort_dedup v = v"
  by (simp add: sort_dedup_def sorted_sort_id remdups_adj_distinct)

text \<open>Positional removal (\<open>Vec::remove\<close>) on an in-range position.\<close>

definition remove_nth :: "nat \<Rightarrow> 'a list \<Rightarrow> 'a list" where
  "remove_nth n xs = take n xs @ drop (Suc n) xs"

lemma length_remove_nth [simp]: "n < length xs \<Longrightarrow> length (remove_nth n xs) = length xs - 1"
  by (simp add: remove_nth_def)

lemma set_remove_nth: "set (remove_nth n xs) \<subseteq> set xs"
  by (auto simp: remove_nth_def dest: in_set_takeD in_set_dropD)

lemma nth_remove_nth:
  "n < length xs \<Longrightarrow> i < length xs - 1 \<Longrightarrow>
     remove_nth n xs ! i = (if i < n then xs ! i else xs ! Suc i)"
  by (auto simp: remove_nth_def nth_append min_def)

lemma remove_nth_map: "remove_nth n (map f xs) = map f (remove_nth n xs)"
  by (simp add: remove_nth_def take_map drop_map)

section \<open>Cartesian products of lists of sets\<close>

lemma listset_iff:
  "p \<in> listset As \<longleftrightarrow> length p = length As \<and> (\<forall>i < length As. p ! i \<in> As ! i)"
proof (induction As arbitrary: p)
  case (Cons A As)
  show ?case
    by (cases p) (auto simp: set_Cons_def Cons.IH nth_Cons less_Suc_eq_0_disj split: nat.splits)
qed simp

lemma finite_listset: "(\<And>A. A \<in> set As \<Longrightarrow> finite A) \<Longrightarrow> finite (listset As)"
proof (induction As)
  case (Cons A As)
  have "set_Cons A (listset As) = (\<lambda>(x, xs). x # xs) ` (A \<times> listset As)"
    by (auto simp: set_Cons_def)
  then show ?case using Cons by simp
qed simp

lemma card_listset: "(\<And>A. A \<in> set As \<Longrightarrow> finite A) \<Longrightarrow> card (listset As) = prod_list (map card As)"
proof (induction As)
  case (Cons A As)
  have eq: "set_Cons A (listset As) = (\<lambda>(x, xs). x # xs) ` (A \<times> listset As)"
    by (auto simp: set_Cons_def)
  have "inj_on (\<lambda>(x, xs). x # xs) (A \<times> listset As)" by (auto simp: inj_on_def)
  then have "card (set_Cons A (listset As)) = card (A \<times> listset As)"
    by (simp add: eq card_image)
  also have "\<dots> = card A * card (listset As)" by (rule card_cartesian_product)
  finally show ?case using Cons by simp
qed simp

lemma listset_Int:
  "length As = length Bs \<Longrightarrow> listset As \<inter> listset Bs = listset (map2 (\<inter>) As Bs)"
  by (auto simp: listset_iff)

lemma listset_empty_iff: "listset As = {} \<longleftrightarrow> {} \<in> set As"
  by (induction As) (auto simp: set_Cons_def)

text \<open>\<open>Iterator::product\<close> at type \<open>u128\<close>.\<close>

definition product_u128 :: "nat list \<Rightarrow> nat" where
  "product_u128 xs = foldl (\<lambda>acc x. u128 (int acc * int x)) 1 xs"

lemma foldl_u128_mod:
  "foldl (\<lambda>acc x. u128 (int acc * int x)) k xs mod 2 ^ 128 = (k * prod_list xs) mod 2 ^ 128"
proof (induction xs arbitrary: k)
  case (Cons x xs)
  have "u128 (int k * int x) = (k * x) mod 2 ^ 128"
    by (simp add: u128_def nat_mod_distrib flip: of_nat_mult)
  then show ?case using Cons.IH by (simp add: mod_mult_left_eq mult.assoc)
qed simp

lemma foldl_u128_bound: "k < 2 ^ 128 \<Longrightarrow> foldl (\<lambda>acc x. u128 (int acc * int x)) k xs < 2 ^ 128"
  by (induction xs arbitrary: k) (simp_all add: u128_def nat_less_iff)

lemma product_u128 [word_simps]: "prod_list xs < 2 ^ 128 \<Longrightarrow> product_u128 xs = prod_list xs"
proof -
  assume "prod_list xs < 2 ^ 128"
  moreover have "product_u128 xs < 2 ^ 128" unfolding product_u128_def by (rule foldl_u128_bound) simp
  ultimately show ?thesis using foldl_u128_mod [of 1 xs] by (simp add: product_u128_def)
qed

lemma prod_list_append_pos: "0 < prod_list ys \<Longrightarrow> prod_list xs \<le> prod_list (xs @ (ys :: nat list))"
  by simp

lemma prod_list_pos: "(\<And>x. x \<in> set xs \<Longrightarrow> 0 < x) \<Longrightarrow> 0 < prod_list (xs :: nat list)"
  by (induction xs) auto

lemma prod_list_mono2:
  "list_all2 (\<le>) xs ys \<Longrightarrow> prod_list xs \<le> prod_list (ys :: nat list)"
  by (induction rule: list_all2_induct) (auto intro: mult_mono)

section \<open>Pieces of a list\<close>

lemma distinct_concat_disjoint:
  "distinct (concat xss) \<Longrightarrow> i < j \<Longrightarrow> j < length xss \<Longrightarrow> set (xss ! i) \<inter> set (xss ! j) = {}"
proof (induction xss arbitrary: i j)
  case (Cons xs xss)
  obtain j' where j: "j = Suc j'" "j' < length xss" using Cons.prems by (cases j) auto
  show ?case
  proof (cases i)
    case 0
    have "set (xss ! j') \<subseteq> set (concat xss)" using j(2) by (auto intro!: bexI [of _ "xss ! j'"])
    then show ?thesis using Cons.prems(1) 0 j by auto
  next
    case (Suc i')
    then show ?thesis using Cons.IH [of i' j'] Cons.prems j by auto
  qed
qed simp

lemma upt_join: "i \<le> j \<Longrightarrow> j \<le> k \<Longrightarrow> [i..<j] @ [j..<k] = [i..<k]"
  using upt_add_eq_append [of i j "k - j"] by simp

lemma less_Suc_div_mult: "0 < k \<Longrightarrow> n div k < m \<Longrightarrow> n < m * (k::nat)"
  by (simp add: div_less_iff_less_mult)

section \<open>Floating point\<close>

text \<open>
  \<open>f64\<close> values are a linearly ordered type \<open>'f\<close> (no coordinate is NaN); the arithmetic the program
  does on them is a record of operations, so that rounding stays a parameter.  \<open>f_round\<close>,
  \<open>f_ceil\<close>, \<open>f_floor\<close> and \<open>f_trunc\<close> give the integer before the saturating cast, which is
  \<open>as_i64\<close> or \<open>as_usize\<close>.
\<close>

record 'f F64 =
  f_one :: 'f
  f_of_int :: "int \<Rightarrow> 'f"
  f_of_int32 :: "int \<Rightarrow> 'f"
  f_of_u128 :: "nat \<Rightarrow> 'f"
  f_add :: "'f \<Rightarrow> 'f \<Rightarrow> 'f"
  f_sub :: "'f \<Rightarrow> 'f \<Rightarrow> 'f"
  f_sub32 :: "'f \<Rightarrow> 'f \<Rightarrow> 'f"
  f_mul :: "'f \<Rightarrow> 'f \<Rightarrow> 'f"
  f_div :: "'f \<Rightarrow> 'f \<Rightarrow> 'f"
  f_neg :: "'f \<Rightarrow> 'f"
  f_abs :: "'f \<Rightarrow> 'f"
  f_to_f32 :: "'f \<Rightarrow> 'f"
  f_round :: "'f \<Rightarrow> int"
  f_ceil :: "'f \<Rightarrow> int"
  f_floor :: "'f \<Rightarrow> int"
  f_trunc :: "'f \<Rightarrow> int"
  f_eps :: 'f
  f_eps32 :: 'f
  f_tol10 :: 'f
  f_tol9 :: 'f
  f_tol5 :: 'f

text \<open>The same operations without rounding, on the rationals.\<close>

definition exact_f64 :: "rat F64" where
  "exact_f64 =
     \<lparr>f_one = 1, f_of_int = of_int, f_of_int32 = of_int, f_of_u128 = of_nat, f_add = (+), f_sub = (-), f_sub32 = (-), f_mul = (*),
      f_div = (/), f_neg = uminus, f_abs = abs, f_to_f32 = id, f_round = (\<lambda>x. if 0 \<le> x then \<lfloor>x + 1 / 2\<rfloor> else \<lceil>x - 1 / 2\<rceil>), f_ceil = ceiling,
      f_floor = floor, f_trunc = (\<lambda>x. if 0 \<le> x then \<lfloor>x\<rfloor> else \<lceil>x\<rceil>), f_eps = 1 / 2 ^ 52, f_eps32 = 1 / 2 ^ 23,
      f_tol10 = 1 / 10 ^ 10, f_tol9 = 1 / 10 ^ 9, f_tol5 = 1 / 10 ^ 5\<rparr>"

definition as_i64 :: "int \<Rightarrow> int" where
  "as_i64 n = max (- (2 ^ 63)) (min n (2 ^ 63 - 1))"

definition as_usize :: "int \<Rightarrow> nat" where
  "as_usize n = nat (max 0 (min n (2 ^ 64 - 1)))"

text \<open>Wrapping \<open>i64\<close> arithmetic.\<close>

definition i64 :: "int \<Rightarrow> int" where
  "i64 n = (n + 2 ^ 63) mod 2 ^ 64 - 2 ^ 63"

definition i64_range :: "int \<Rightarrow> bool" where
  "i64_range n \<longleftrightarrow> - (2 ^ 63) \<le> n \<and> n < 2 ^ 63"

lemma i64_id [word_simps]: "i64_range n \<Longrightarrow> i64 n = n"
  by (simp add: i64_def i64_range_def)

lemma i64_mod: "i64 n mod 2 ^ 64 = n mod 2 ^ 64"
  by (simp add: i64_def mod_diff_left_eq)

lemma i64_eqI: "a mod 2 ^ 64 = b mod 2 ^ 64 \<Longrightarrow> i64 a = i64 b"
  unfolding i64_def by (metis mod_add_left_eq)

lemma i64_bounds: "i64_range (i64 n)"
proof -
  have "0 \<le> (n + 2 ^ 63) mod 2 ^ 64" "(n + 2 ^ 63) mod 2 ^ 64 < 2 ^ 64" by simp_all
  then show ?thesis by (simp add: i64_def i64_range_def)
qed

text \<open>The truncating cast to \<open>i32\<close>.\<close>

definition i32 :: "int \<Rightarrow> int" where
  "i32 n = (n + 2 ^ 31) mod 2 ^ 32 - 2 ^ 31"

section \<open>Standard containers\<close>

text \<open>
  A \<open>HashMap\<close> is an association list with one entry per key; \<open>entry_with\<close> is
  \<open>entry(k).or_default()\<close> followed by an update of the entry.
\<close>

fun entry_with :: "'k \<Rightarrow> 'v \<Rightarrow> ('v \<Rightarrow> 'v) \<Rightarrow> ('k \<times> 'v) list \<Rightarrow> ('k \<times> 'v) list" where
  "entry_with k d f [] = [(k, f d)]"
| "entry_with k d f ((k', v) # m) = (if k' = k then (k', f v) # m else (k', v) # entry_with k d f m)"

lemma map_of_entry_with [simp]:
  "map_of (entry_with k d f m) = (map_of m)(k \<mapsto> f (case map_of m k of None \<Rightarrow> d | Some v \<Rightarrow> v))"
  by (induction m) (auto simp: fun_eq_iff)

lemma keys_entry_with [simp]: "fst ` set (entry_with k d f m) = insert k (fst ` set m)"
proof (induction m)
  case (Cons p m)
  then show ?case by (cases p) auto
qed simp

lemma distinct_entry_with [simp]: "distinct (map fst m) \<Longrightarrow> distinct (map fst (entry_with k d f m))"
proof (induction m)
  case (Cons p m)
  then show ?case by (cases p) auto
qed simp

text \<open>Collecting an iterator of results: the values, or the first error.\<close>

fun collect_results :: "('e + 'a) list \<Rightarrow> 'e + 'a list" where
  "collect_results [] = Inr []"
| "collect_results (Inl e # rs) = Inl e"
| "collect_results (Inr x # rs) = (case collect_results rs of Inl e \<Rightarrow> Inl e | Inr xs \<Rightarrow> Inr (x # xs))"

lemma collect_results_map: "(\<And>x. x \<in> set xs \<Longrightarrow> f x = Inr (g x)) \<Longrightarrow> collect_results (map f xs) = Inr (map g xs)"
  by (induction xs) auto

lemma collect_results_Inr: "collect_results rs = Inr xs \<longleftrightarrow> rs = map Inr xs"
proof (induction rs arbitrary: xs rule: collect_results.induct)
  case (3 x rs)
  show ?case
  proof (cases "collect_results rs")
    case (Inl e)
    then show ?thesis using 3 by (cases xs) force+
  next
    case (Inr ys)
    then show ?thesis using 3 [of ys] by (cases xs) force+
  qed
qed auto

text \<open>Collecting an iterator of options: all or nothing.\<close>

fun collect_options :: "'a option list \<Rightarrow> 'a list option" where
  "collect_options [] = Some []"
| "collect_options (x # xs) =
     (case x of None \<Rightarrow> None | Some v \<Rightarrow> map_option ((#) v) (collect_options xs))"

lemma collect_options_iff:
  "collect_options xs = (if None \<in> set xs then None else Some (map the xs))"
  by (induction xs) (auto split: option.splits)

lemma map_filter_cong [fundef_cong]:
  "xs = ys \<Longrightarrow> (\<And>x. x \<in> set ys \<Longrightarrow> f x = g x) \<Longrightarrow> List.map_filter f xs = List.map_filter g ys"
  by (induction ys arbitrary: xs) (auto simp: List.map_filter_simps split: option.splits)

lemma set_map_filter: "set (List.map_filter f xs) = (\<Union>x \<in> set xs. set_option (f x))"
  by (induction xs) (auto simp: List.map_filter_simps split: option.splits)

lemma length_map_filter_le: "length (List.map_filter f xs) \<le> length xs"
  by (induction xs) (auto simp: List.map_filter_simps split: option.splits)

lemma map_filter_full: "length (List.map_filter f xs) = length xs \<Longrightarrow> map f xs = map Some (List.map_filter f xs)"
proof (induction xs)
  case (Cons x xs)
  then show ?case
    using length_map_filter_le [of f xs] by (auto simp: List.map_filter_simps split: option.splits)
qed (simp add: List.map_filter_simps)

lemma map_filter_all: "list_all (\<lambda>x. f x \<noteq> None) xs \<Longrightarrow> List.map_filter f xs = map (the \<circ> f) xs"
  by (induction xs) (auto simp: List.map_filter_simps)

lemma collect_options_eq_Some: "collect_options xs = Some ys \<longleftrightarrow> xs = map Some ys"
  by (induction xs arbitrary: ys) (auto split: option.splits)

text \<open>\<open>slice::partition_point\<close>: the bisection between \<open>lo\<close> and \<open>hi\<close>.\<close>

function bisect :: "('a \<Rightarrow> bool) \<Rightarrow> 'a list \<Rightarrow> nat \<Rightarrow> nat \<Rightarrow> nat" where
  "bisect P xs lo hi =
     (if lo < hi then
        let mid = lo + (hi - lo) div 2 in
        if P (xs ! mid) then bisect P xs (mid + 1) hi else bisect P xs lo mid
      else lo)"
  by auto
termination by (relation "measure (\<lambda>(P, xs, lo, hi). hi - lo)") (auto simp: Let_def)

declare bisect.simps [simp del]

definition partition_point :: "('a \<Rightarrow> bool) \<Rightarrow> 'a list \<Rightarrow> nat" where
  "partition_point P xs = bisect P xs 0 (length xs)"

definition partitioned :: "('a \<Rightarrow> bool) \<Rightarrow> 'a list \<Rightarrow> bool" where
  "partitioned P xs \<longleftrightarrow> (\<forall>i j. i \<le> j \<longrightarrow> j < length xs \<longrightarrow> P (xs ! j) \<longrightarrow> P (xs ! i))"

lemma bisect_bounds:
  assumes "partitioned P xs" "lo \<le> hi" "hi \<le> length xs"
    "\<forall>i < lo. P (xs ! i)" "\<forall>i. hi \<le> i \<longrightarrow> i < length xs \<longrightarrow> \<not> P (xs ! i)"
  shows "bisect P xs lo hi \<le> length xs \<and> (\<forall>i < length xs. i < bisect P xs lo hi \<longleftrightarrow> P (xs ! i))"
  using assms
proof (induction P xs lo hi rule: bisect.induct)
  case (1 P xs lo hi)
  define mid where "mid = lo + (hi - lo) div 2"
  show ?case
  proof (cases "lo < hi")
    case False
    then have "bisect P xs lo hi = lo" by (simp add: bisect.simps [of P xs lo])
    moreover have "i < lo \<longleftrightarrow> P (xs ! i)" if "i < length xs" for i
      using "1.prems"(2,4,5) False that by (meson leI le_trans not_less)
    ultimately show ?thesis using "1.prems"(2,3) by simp
  next
    case True
    then have mid: "lo \<le> mid" "mid < hi" by (auto simp: mid_def)
    have step: "bisect P xs lo hi = (if P (xs ! mid) then bisect P xs (mid + 1) hi else bisect P xs lo mid)"
      using True by (simp add: bisect.simps [of P xs lo hi] Let_def flip: mid_def)
    show ?thesis
    proof (cases "P (xs ! mid)")
      case P: True
      have "\<forall>i < mid + 1. P (xs ! i)"
        using P "1.prems"(1,3) mid unfolding partitioned_def by (metis Suc_eq_plus1 less_Suc_eq_le order_less_le_trans)
      then have "bisect P xs (mid + 1) hi \<le> length xs \<and>
          (\<forall>i < length xs. i < bisect P xs (mid + 1) hi \<longleftrightarrow> P (xs ! i))"
        using "1.IH"(1) [OF True mid_def] P "1.prems" mid by simp
      then show ?thesis using True P by (simp add: step)
    next
      case nP: False
      have "\<forall>i. mid \<le> i \<longrightarrow> i < length xs \<longrightarrow> \<not> P (xs ! i)"
        using nP "1.prems"(1) unfolding partitioned_def by blast
      then have "bisect P xs lo mid \<le> length xs \<and>
          (\<forall>i < length xs. i < bisect P xs lo mid \<longleftrightarrow> P (xs ! i))"
        using "1.IH"(2) [OF True mid_def] nP "1.prems" mid by simp
      then show ?thesis using True nP by (simp add: step)
    qed
  qed
qed

lemma partition_point_le: "partitioned P xs \<Longrightarrow> partition_point P xs \<le> length xs"
  using bisect_bounds [of P xs 0 "length xs"] by (simp add: partition_point_def)

lemma less_partition_point:
  "partitioned P xs \<Longrightarrow> i < length xs \<Longrightarrow> i < partition_point P xs \<longleftrightarrow> P (xs ! i)"
  using bisect_bounds [of P xs 0 "length xs"] by (simp add: partition_point_def)

lemma partitioned_sorted:
  assumes "sorted_wrt R (map g xs)" "\<And>x y. R (g x) (g y) \<Longrightarrow> P y \<Longrightarrow> P x"
  shows "partitioned P xs"
  unfolding partitioned_def
proof (intro allI impI)
  fix i j
  assume "i \<le> j" "j < length xs" "P (xs ! j)"
  then show "P (xs ! i)"
    using assms sorted_wrt_nth_less [OF assms(1), of i j] by (cases "i = j") auto
qed

end
