(* ===== verification/Axis_Set.thy ===== *)
theory Axis_Set
  imports Prelude
begin

text \<open>
  One axis of the index space (\<open>src/optimizer/cardinality/backend/product.rs\<close>): \<open>AxisSet\<close>, an
  arithmetic progression or an explicit sorted index list, with intersection (by the Chinese
  Remainder Theorem on progressions) and the image under division by a tile size.  The lemmas
  show that every operation computes exactly the set operation it stands for, that the
  representation invariant \<open>axis_wf\<close> is kept, and where the 64-bit arithmetic stops being exact.
\<close>

section \<open>The axis set and its constructors\<close>

datatype AxisSet =
    Ap (first: nat) (stride: nat) (count: nat)
  | Indices "nat list"

definition interval :: "nat \<Rightarrow> nat \<Rightarrow> AxisSet" where
  "interval start end' = Ap start 1 (end' - start)"

definition coset :: "nat \<Rightarrow> nat \<Rightarrow> nat \<Rightarrow> AxisSet" where
  "coset f s c = Ap f (max s 1) c"

definition point :: "nat \<Rightarrow> AxisSet" where
  "point x = Ap x 1 1"

definition empty :: AxisSet where
  "empty = Ap 0 1 0"

definition indices :: "nat list \<Rightarrow> AxisSet" where
  "indices v = Indices (sort_dedup v)"

fun len :: "AxisSet \<Rightarrow> nat" where
  "len (Ap f s c) = c"
| "len (Indices v) = length v"

definition is_empty :: "AxisSet \<Rightarrow> bool" where
  "is_empty a \<longleftrightarrow> len a = 0"

fun contains :: "AxisSet \<Rightarrow> nat \<Rightarrow> bool" where
  "contains (Ap f s c) x \<longleftrightarrow> f \<le> x \<and> (x - f) mod s = 0 \<and> (x - f) div s < c"
| "contains (Indices v) x \<longleftrightarrow> binary_search v x"

text \<open>The explicit members, in order: the program's own reference enumeration.\<close>

fun members :: "AxisSet \<Rightarrow> nat list" where
  "members (Ap f s c) = map (\<lambda>i. f + s * i) [0..<c]"
| "members (Indices v) = v"

section \<open>Extended Euclid and the Chinese Remainder Theorem\<close>

text \<open>\<open>i128\<close> division truncates towards zero (\<open>sdiv\<close>, \<open>smod\<close>).  The arguments stay below
  \<open>2 ^ 64\<close> in absolute value, so no \<open>i128\<close> operation here can overflow.\<close>

lemma smod_abs_less: "b \<noteq> 0 \<Longrightarrow> \<bar>a smod b\<bar> < \<bar>b :: int\<bar>"
  by (cases "a = 0") (simp_all add: signed_modulo_int_def abs_mult)

function ext_gcd :: "int \<Rightarrow> int \<Rightarrow> int \<times> int \<times> int" where
  "ext_gcd a b =
     (if b = 0 then (a, 1, 0)
      else let (g, x, y) = ext_gcd b (a smod b) in (g, y, x - (a sdiv b) * y))"
  by pat_completeness auto
termination
  by (relation "measure (\<lambda>(a, b). nat \<bar>b\<bar>)") (simp_all add: smod_abs_less nat_less_eq_zless)

declare ext_gcd.simps [simp del]

definition imod :: "int \<Rightarrow> int \<Rightarrow> int" where
  "imod a m = ((a smod m) + m) smod m"

definition crt :: "int \<Rightarrow> int \<Rightarrow> int \<Rightarrow> int \<Rightarrow> (int \<times> int) option" where
  "crt a1 m1 a2 m2 =
     (let (g, p, _) = ext_gcd m1 m2 in
      if (a2 - a1) smod g \<noteq> 0 then None
      else let l = m1 sdiv g * m2;
               md = m2 sdiv g;
               t = imod (imod ((a2 - a1) sdiv g) md * imod p md) md;
               r = imod (a1 + m1 * t) l
           in Some (r, l))"

section \<open>Intersection and tile image\<close>

definition ap_intersect :: "nat \<Rightarrow> nat \<Rightarrow> nat \<Rightarrow> nat \<Rightarrow> nat \<Rightarrow> nat \<Rightarrow> AxisSet" where
  "ap_intersect af as' an bf bs bn =
     (if an = 0 \<or> bn = 0 then empty
      else
        let amax = u64 (af + u64 (as' * (an - 1)));
            bmax = u64 (bf + u64 (bs * (bn - 1)));
            lo = max af bf;
            hi = min amax bmax
        in if lo > hi then empty
           else case crt (int af) (int as') (int bf) (int bs) of
             None \<Rightarrow> empty
           | Some (r', l') \<Rightarrow>
               let l = u64 (nat l');
                   r = u64 (nat r');
                   offset = u64 (u64 (r + l) + 2 ^ 64 - lo mod l) mod l;
                   x0 = u64 (lo + offset)
               in if x0 > hi then empty
                  else Ap x0 l (u64 ((hi - x0) div l + 1)))"

text \<open>The two-cursor walk over two sorted index lists.\<close>

fun walk :: "nat list \<Rightarrow> nat list \<Rightarrow> nat list" where
  "walk [] b = []"
| "walk a [] = []"
| "walk (x # a) (y # b) =
     (if x < y then walk a (y # b)
      else if x > y then walk (x # a) b
      else x # walk a b)"

fun intersect :: "AxisSet \<Rightarrow> AxisSet \<Rightarrow> AxisSet" where
  "intersect (Ap af as' an) (Ap bf bs bn) = ap_intersect af as' an bf bs bn"
| "intersect (Ap f s c) (Indices v) = Indices (filter (contains (Ap f s c)) v)"
| "intersect (Indices v) (Ap f s c) = Indices (filter (contains (Ap f s c)) v)"
| "intersect (Indices a) (Indices b) = Indices (walk a b)"

definition ap_hits_interval :: "nat \<Rightarrow> nat \<Rightarrow> nat \<Rightarrow> nat \<Rightarrow> nat \<Rightarrow> bool" where
  "ap_hits_interval f s c lo hi =
     (if c = 0 \<or> f \<ge> hi then False
      else let i = (if lo \<le> f then 0 else div_ceil (lo - f) s)
           in if i \<ge> c then False else u64 (f + u64 (s * i)) < hi)"

definition push_tile :: "nat \<Rightarrow> nat list \<Rightarrow> nat \<Rightarrow> nat list" where
  "push_tile tile tiles x =
     (let t = x div tile in if tiles \<noteq> [] \<and> last tiles = t then tiles else tiles @ [t])"

definition tile_image :: "AxisSet \<Rightarrow> nat \<Rightarrow> AxisSet" where
  "tile_image a tile' =
     (let tile = max tile' 1 in
      if is_empty a then empty
      else case a of
        Ap f s c \<Rightarrow>
          if s = 1 then
            let last' = u64 (f + (c - 1)) in interval (f div tile) (u64 (last' div tile + 1))
          else
            let last' = u64 (f + u64 (s * (c - 1))) in
            Indices (filter (\<lambda>t. ap_hits_interval f s c (u64 (t * tile)) (u64 (u64 (t * tile) + tile)))
                       [f div tile ..< Suc (last' div tile)])
      | Indices v \<Rightarrow> Indices (foldl (push_tile tile) [] v))"

section \<open>The representation invariant\<close>

text \<open>
  Strides are positive and divide a common period \<open>P\<close>, every member is an addressable index, and
  index lists are strictly increasing.  The scan only builds intervals and index lists, for
  which \<open>P = 1\<close>; the common period is what keeps the \<open>as u64\<close> cast of the combined stride exact.
\<close>

fun axis_wf :: "nat \<Rightarrow> AxisSet \<Rightarrow> bool" where
  "axis_wf P (Ap f s c) \<longleftrightarrow>
     0 < s \<and> s dvd P \<and> (0 < c \<longrightarrow> f + s * (c - 1) < index_bound)"
| "axis_wf P (Indices v) \<longleftrightarrow> sorted v \<and> distinct v \<and> (\<forall>x \<in> set v. x < index_bound)"

abbreviation axis_points :: "AxisSet \<Rightarrow> nat set" where
  "axis_points a \<equiv> set (members a)"

lemma distinct_members: "axis_wf P a \<Longrightarrow> distinct (members a)"
  by (cases a) (auto simp: distinct_map inj_on_def)

lemma length_members [simp]: "length (members a) = len a"
  by (cases a) auto

lemma len_card [members_simps]: "axis_wf P a \<Longrightarrow> len a = card (axis_points a)"
  using distinct_card [OF distinct_members, of P a] by simp

lemma axis_points_Ap: "axis_points (Ap f s c) = {f + s * i | i. i < c}"
  by auto

lemma axis_points_interval [members_simps]: "axis_points (interval a b) = {a..<b}"
proof (rule set_eqI)
  fix x
  have "\<exists>i < b - a. x = a + i" if "a \<le> x" "x < b"
    using that by (intro exI [of _ "x - a"]) simp
  then show "x \<in> axis_points (interval a b) \<longleftrightarrow> x \<in> {a..<b}"
    by (auto simp: interval_def axis_points_Ap)
qed

lemma is_empty_iff [members_simps]: "is_empty a \<longleftrightarrow> axis_points a = {}"
  by (cases a) (auto simp: is_empty_def)

lemma empty_simps [simp]: "members empty = []" "axis_wf P empty"
  by (simp_all add: empty_def)

lemma axis_points_bound: "axis_wf P a \<Longrightarrow> x \<in> axis_points a \<Longrightarrow> x < index_bound"
proof (cases a)
  case (Ap f s c)
  assume "axis_wf P a" "x \<in> axis_points a"
  then obtain i where i: "i < c" "x = f + s * i" and b: "f + s * (c - 1) < index_bound"
    using Ap by auto
  have "s * i \<le> s * (c - 1)" using i(1) by (intro mult_le_mono2) simp
  then have "x \<le> f + s * (c - 1)" using i(2) by linarith
  then show ?thesis using b by (rule le_less_trans)
qed auto

lemma contains_iff [members_simps]: "axis_wf P a \<Longrightarrow> contains a x \<longleftrightarrow> x \<in> axis_points a"
proof (cases a)
  case (Ap f s c)
  assume wf: "axis_wf P a"
  have "\<exists>i<c. x = f + s * i" if "f \<le> x" "(x - f) mod s = 0" "(x - f) div s < c"
  proof (intro exI conjI)
    have "s * ((x - f) div s) = x - f" using that(2) by auto
    then show "x = f + s * ((x - f) div s)" using that(1) by simp
  qed (rule that)
  then show ?thesis using Ap wf by auto
qed (simp add: binary_search_iff)

section \<open>Correctness of the modular arithmetic\<close>

lemma smod_nonneg: "0 \<le> a \<Longrightarrow> 0 \<le> b \<Longrightarrow> a smod b = a mod (b :: int)"
  by (cases "a = 0") (auto simp: signed_modulo_int_def)

lemma sdiv_nonneg: "0 \<le> a \<Longrightarrow> 0 \<le> b \<Longrightarrow> a sdiv b = a div (b :: int)"
  by (cases "a = 0"; cases "b = 0") (auto simp: signed_divide_int_def)

lemma smod_cong: "0 < m \<Longrightarrow> a smod m mod m = a mod (m :: int)"
  by (auto simp: signed_modulo_int_def sgn_if abs_if mod_minus_eq)

lemma imod_mod: "0 < m \<Longrightarrow> imod a m = a mod m"
proof -
  assume m: "0 < m"
  then have "0 \<le> a smod m + m" using smod_abs_less [of m a] by linarith
  then have "imod a m = (a smod m + m) mod m" using m by (simp add: imod_def smod_nonneg)
  then show ?thesis using smod_cong [OF m] by simp
qed

lemma smod_zero_iff: "0 < g \<Longrightarrow> a smod g = 0 \<longleftrightarrow> (g :: int) dvd a"
  by (auto simp: signed_modulo_int_def sgn_if mod_eq_0_iff_dvd)

lemma sdiv_dvd_mult: "0 < g \<Longrightarrow> (g :: int) dvd a \<Longrightarrow> g * (a sdiv g) = a"
  by (cases a "0 :: int" rule: linorder_cases)
     (auto simp: signed_divide_int_def elim!: dvdE simp: zero_less_mult_iff mult_less_0_iff)

lemma ext_gcd_correct:
  "0 \<le> a \<Longrightarrow> 0 \<le> b \<Longrightarrow> ext_gcd a b = (g, x, y) \<Longrightarrow> g = gcd a b \<and> a * x + b * y = g"
proof (induction a b arbitrary: g x y rule: ext_gcd.induct)
  case (1 a b)
  show ?case
  proof (cases "b = 0")
    case True
    then show ?thesis using "1.prems" by (auto simp: ext_gcd.simps [of a 0])
  next
    case False
    obtain g' x' y' where rec: "ext_gcd b (a smod b) = (g', x', y')" by (cases "ext_gcd b (a smod b)")
    have eqs: "a smod b = a mod b" "a sdiv b = a div b"
      using 1 by (simp_all add: smod_nonneg sdiv_nonneg)
    have IH: "g' = gcd b (a mod b)" "b * x' + (a mod b) * y' = g'"
      using "1.IH" [OF False _ _ rec] 1(2,3) False by (auto simp: eqs)
    have out: "g = g'" "x = y'" "y = x' - (a div b) * y'"
      using "1.prems"(3) False rec by (auto simp: ext_gcd.simps [of a b] eqs)
    have "a * y' + b * (x' - a div b * y') = b * x' + (a - b * (a div b)) * y'"
      by (simp add: algebra_simps)
    also have "\<dots> = g'" using IH(2) by (simp add: minus_mult_div_eq_mod)
    finally show ?thesis using IH(1) by (simp add: out gcd_red_int [symmetric])
  qed
qed

lemma gcd_lcm_int_pos: "0 < a \<Longrightarrow> 0 < b \<Longrightarrow> a div gcd a b * b = lcm a (b :: int)"
  by (simp add: lcm_altdef_int dvd_div_mult)

lemma crt_None:
  assumes "0 < m1" "0 < m2" "crt a1 m1 a2 m2 = None"
  shows "\<not> (\<exists>x. x mod m1 = a1 mod m1 \<and> x mod m2 = a2 mod m2)"
proof
  assume "\<exists>x. x mod m1 = a1 mod m1 \<and> x mod m2 = a2 mod m2"
  then obtain x where "m1 dvd x - a1" "m2 dvd x - a2" by (auto simp: mod_eq_dvd_iff)
  then have "gcd m1 m2 dvd x - a1" "gcd m1 m2 dvd x - a2"
    by (auto intro: dvd_trans [OF gcd_dvd1] dvd_trans [OF gcd_dvd2])
  then have "gcd m1 m2 dvd (x - a1) - (x - a2)" by (rule dvd_diff)
  then have dvd: "gcd m1 m2 dvd a2 - a1" by simp
  obtain g p y where e: "ext_gcd m1 m2 = (g, p, y)" by (cases "ext_gcd m1 m2")
  then have "g = gcd m1 m2" "0 < g" using ext_gcd_correct [OF _ _ e] assms by auto
  then show False using assms(3) dvd e by (simp add: crt_def Let_def smod_zero_iff)
qed

lemma crt_Some:
  assumes m: "0 < m1" "0 < m2" and c: "crt a1 m1 a2 m2 = Some (r, l)"
  shows "l = lcm m1 m2 \<and> 0 \<le> r \<and> r < l \<and> r mod m1 = a1 mod m1 \<and> r mod m2 = a2 mod m2"
proof -
  obtain g p y where e: "ext_gcd m1 m2 = (g, p, y)" by (cases "ext_gcd m1 m2")
  have g: "g = gcd m1 m2" "m1 * p + m2 * y = g" using ext_gcd_correct [OF _ _ e] m by auto
  have g0: "0 < g" using g m by simp
  define k where "k = (a2 - a1) sdiv g"
  define md where "md = m2 div g"
  define t where "t = (k * p) mod md"
  have md: "0 < md" using m g by (simp add: md_def pos_imp_zdiv_pos_iff zdvd_imp_le)
  have gm: "g * md = m2" using g by (simp add: md_def)
  have sd: "m1 sdiv g = m1 div g" "m2 sdiv g = md"
    using m g0 by (simp_all add: sdiv_nonneg md_def)
  have dvd: "g dvd a2 - a1" using c e g0 by (auto simp: crt_def Let_def smod_zero_iff split: if_splits)
  have l: "l = m1 div g * m2" and r: "r = imod (a1 + m1 * t) l"
    using c e dvd md by (auto simp: crt_def Let_def sd imod_mod t_def k_def mod_mult_eq split: if_splits)
  have ll: "l = lcm m1 m2" using l g gcd_lcm_int_pos [OF m] by simp
  have l0: "0 < l" using m by (simp add: ll lcm_pos_int)
  have r': "r = (a1 + m1 * t) mod l" using r l0 by (simp add: imod_mod)
  have "r mod m1 = a1 mod m1" by (simp add: r' ll mod_mod_cancel)
  moreover have "r mod m2 = a2 mod m2"
  proof -
    have kg: "g * k = a2 - a1" using sdiv_dvd_mult [OF g0 dvd] by (simp add: k_def)
    have "md dvd t - k * p" by (simp add: t_def mod_eq_dvd_iff [symmetric])
    then have "g * md dvd m1 * (t - k * p)" using g by (intro mult_dvd_mono) auto
    moreover have "m1 * (k * p) = a2 - a1 - m2 * (y * k)"
    proof -
      have "k * (m1 * p + m2 * y) = a2 - a1" using kg g(2) by (simp add: mult.commute)
      then show ?thesis by (simp add: algebra_simps)
    qed
    ultimately have "m2 dvd m1 * t - (a2 - a1 - m2 * (y * k))"
      by (simp only: gm right_diff_distrib)
    moreover have "m1 * t - (a2 - a1 - m2 * (y * k)) = ((a1 + m1 * t) - a2) + m2 * (y * k)" by simp
    ultimately have "m2 dvd ((a1 + m1 * t) - a2) + m2 * (y * k)" by simp
    then have "m2 dvd (a1 + m1 * t) - a2" using dvd_add_left_iff [OF dvd_triv_left] by blast
    then show ?thesis by (simp add: r' ll mod_mod_cancel mod_eq_dvd_iff)
  qed
  ultimately show ?thesis using ll l0 by (simp add: r')
qed

section \<open>Correctness of intersection\<close>

lemma Ap_iff:
  assumes "0 < s"
  shows "x \<in> axis_points (Ap f s c) \<longleftrightarrow>
    0 < c \<and> f \<le> x \<and> x \<le> f + s * (c - 1) \<and> x mod s = f mod s"
proof
  assume "x \<in> axis_points (Ap f s c)"
  then obtain i where "i < c" "x = f + s * i" by auto
  then show "0 < c \<and> f \<le> x \<and> x \<le> f + s * (c - 1) \<and> x mod s = f mod s"
    by (auto intro: mult_le_mono2)
next
  assume *: "0 < c \<and> f \<le> x \<and> x \<le> f + s * (c - 1) \<and> x mod s = f mod s"
  then have "s dvd x - f" using mod_eq_dvd_iff_nat [of f x s] by simp
  then obtain i where i: "x - f = s * i" by (rule dvdE)
  then have "s * i \<le> s * (c - 1)" using * by linarith
  then have "i < c" using * assms by (cases c) auto
  then show "x \<in> axis_points (Ap f s c)" using i * by (auto intro!: image_eqI [of _ _ i])
qed

lemma first_residue:
  fixes l :: nat
  assumes "r < l" and x0: "x0 = lo + (r + l - lo mod l) mod l"
  shows "x0 mod l = r" "lo \<le> x0" "x0 < lo + l" "\<And>x. lo \<le> x \<Longrightarrow> x mod l = r \<Longrightarrow> x0 \<le> x"
proof -
  have l: "0 < l" "lo mod l < l" using assms(1) by (auto intro: mod_less_divisor)
  show r: "x0 mod l = r"
  proof -
    have "x0 mod l = (lo mod l + (r + l - lo mod l)) mod l" 
      unfolding x0 by (simp only: mod_add_right_eq mod_add_left_eq)
    also have "lo mod l + (r + l - lo mod l) = r + l" using l by linarith
    also have "(r + l) mod l = r" using assms(1) by simp
    finally show ?thesis .
  qed
  show lo: "lo \<le> x0" by (simp add: x0)
  show hi: "x0 < lo + l" using l by (simp add: x0)
  show "x0 \<le> x" if "lo \<le> x" "x mod l = r" for x
  proof (rule ccontr)
    assume "\<not> x0 \<le> x"
    then have "l dvd x0 - x" "0 < x0 - x" using r that mod_eq_dvd_iff_nat [of x x0 l] by simp_all
    then have "l \<le> x0 - x" by (rule dvd_imp_le)
    then show False using that hi l(1) by linarith
  qed
qed

lemma residue_window:
  fixes l :: nat
  assumes "r < l" and x0: "x0 = lo + (r + l - lo mod l) mod l"
  shows "(lo \<le> x \<and> x \<le> hi \<and> x mod l = r) \<longleftrightarrow>
    x0 \<le> hi \<and> x \<in> axis_points (Ap x0 l ((hi - x0) div l + 1))"
proof -
  note fr = first_residue [OF assms]
  have l: "0 < l" using assms(1) by simp
  have mem: "x \<in> axis_points (Ap x0 l ((hi - x0) div l + 1)) \<longleftrightarrow>
      x0 \<le> x \<and> x \<le> x0 + l * ((hi - x0) div l) \<and> x mod l = r"
    
    using Ap_iff [OF l, of x x0 "(hi - x0) div l + 1"] fr(1) by (simp del: members.simps)
  have "x \<le> x0 + l * ((hi - x0) div l)" if "x0 \<le> x" "x \<le> hi" "x mod l = r"
  proof -
    have "l dvd x - x0" using that fr(1) mod_eq_dvd_iff_nat [of x0 x l] by simp
    then obtain k where k: "x - x0 = l * k" by (rule dvdE)
    then have "k = (x - x0) div l" using l by simp
    also have "\<dots> \<le> (hi - x0) div l" using that by (intro div_le_mono) simp
    finally have "l * k \<le> l * ((hi - x0) div l)" by simp
    then show ?thesis using k that(1) by linarith
  qed
  moreover have "x0 + l * ((hi - x0) div l) \<le> hi" if "x0 \<le> hi"
    using that times_div_less_eq_dividend [of l "hi - x0"] by linarith
  ultimately show ?thesis using mem fr(2,4) by fastforce
qed

lemma nat_mod_int_eq: "x mod m = y mod m \<longleftrightarrow> int x mod int m = int y mod int m"
  by (metis of_nat_eq_iff zmod_int)

lemma cong_pair_iff:
  fixes x a b m1 m2 r :: nat
  assumes "r mod m1 = a mod m1" "r mod m2 = b mod m2"
  shows "(x mod m1 = a mod m1 \<and> x mod m2 = b mod m2) \<longleftrightarrow> x mod lcm m1 m2 = r mod lcm m1 m2"
proof -
  have "(x mod m1 = a mod m1 \<and> x mod m2 = b mod m2) \<longleftrightarrow>
      (int m1 dvd int x - int r \<and> int m2 dvd int x - int r)"
    using assms by (simp add: nat_mod_int_eq mod_eq_dvd_iff [symmetric])
  also have "\<dots> \<longleftrightarrow> int (lcm m1 m2) dvd int x - int r"
    by (simp add: lcm_least_iff flip: lcm_int_int_eq)
  also have "\<dots> \<longleftrightarrow> x mod lcm m1 m2 = r mod lcm m1 m2"
    by (simp add: nat_mod_int_eq mod_eq_dvd_iff)
  finally show ?thesis .
qed

text \<open>What \<open>crt\<close> delivers on natural operands, in the form \<open>ap_intersect\<close> consumes it.\<close>

lemma crt_nat:
  assumes "0 < m1" "0 < m2"
  shows "case crt (int a) (int m1) (int b) (int m2) of
      None \<Rightarrow> \<forall>x. \<not> (x mod m1 = a mod m1 \<and> x mod m2 = b mod m2)
    | Some (r, l) \<Rightarrow> nat l = lcm m1 m2 \<and> nat r < nat l \<and>
        (\<forall>x. (x mod m1 = a mod m1 \<and> x mod m2 = b mod m2) \<longleftrightarrow> x mod nat l = nat r)"
proof (cases "crt (int a) (int m1) (int b) (int m2)")
  case None
  have "\<not> (x mod m1 = a mod m1 \<and> x mod m2 = b mod m2)" for x
    using crt_None [OF _ _ None] assms nat_mod_int_eq by (metis of_nat_0_less_iff)
  then show ?thesis using None by simp
next
  case (Some rl)
  obtain r l where rl: "rl = (r, l)" by (cases rl)
  have *: "l = lcm (int m1) (int m2)" "0 \<le> r" "r < l"
    "r mod int m1 = int a mod int m1" "r mod int m2 = int b mod int m2"
    using crt_Some [OF _ _ Some [unfolded rl]] assms by auto
  have "nat l = lcm m1 m2" using *(1) by (simp add: lcm_int_int_eq)
  moreover have "nat r mod m1 = a mod m1" "nat r mod m2 = b mod m2"
    using * by (simp_all add: nat_mod_int_eq)
  moreover have "nat r < nat l" "0 < l" using * by (simp_all add: nat_less_eq_zless)
  ultimately show ?thesis using cong_pair_iff [of "nat r" m1 a m2 b] *(3) by (simp add: Some rl)
qed


text \<open>With in-range operands and a common period, none of the 64-bit operations wraps.\<close>

definition ap_meet :: "nat \<Rightarrow> nat \<Rightarrow> nat \<Rightarrow> nat \<Rightarrow> AxisSet" where
  "ap_meet lo hi r l =
     (let x0 = lo + (r + l - lo mod l) mod l
      in if x0 > hi then empty else Ap x0 l ((hi - x0) div l + 1))"

lemma ap_intersect_exact:
  assumes P: "0 < P" "P < index_bound" and c: "0 < an" "0 < bn"
    and wfa: "axis_wf P (Ap af as' an)" and wfb: "axis_wf P (Ap bf bs bn)"
    and lo: "lo = max af bf" and hi: "hi = min (af + as' * (an - 1)) (bf + bs * (bn - 1))"
  shows "ap_intersect af as' an bf bs bn =
    (if lo > hi then empty
     else case crt (int af) (int as') (int bf) (int bs) of
       None \<Rightarrow> empty
     | Some (r, l) \<Rightarrow> ap_meet lo hi (nat r) (nat l))"
proof -
  have pos: "0 < as'" "0 < bs" and dvd: "as' dvd P" "bs dvd P" using wfa wfb by auto
  have ends: "af + as' * (an - 1) < index_bound" "bf + bs * (bn - 1) < index_bound"
    using wfa wfb c by auto
  then have uends: "u64 (af + u64 (as' * (an - 1))) = af + as' * (an - 1)"
    "u64 (bf + u64 (bs * (bn - 1))) = bf + bs * (bn - 1)"
    by (simp_all add: u64_index)
  have step: "(let l = u64 (nat l'); r = u64 (nat r');
        offset = u64 (u64 (r + l) + 2 ^ 64 - lo mod l) mod l; x0 = u64 (lo + offset)
      in if x0 > hi then empty else Ap x0 l (u64 ((hi - x0) div l + 1))) = ap_meet lo hi (nat r') (nat l')"
    if crt: "crt (int af) (int as') (int bf) (int bs) = Some (r', l')" and lohi: "lo \<le> hi" for r' l'
  proof -
    define r where "r = nat r'"
    define l where "l = nat l'"
    have l: "l = lcm as' bs" and rl: "r < l"
      using crt_nat [OF pos, of af bf] crt by (simp_all add: r_def l_def del: zless_nat_conj)
    have "l dvd P" using dvd by (simp add: l)
    then have lb: "l < index_bound" using P dvd_imp_le le_less_trans by blast
    have hib: "hi < index_bound" using ends by (simp add: hi)
    have words: "u64 l = l" "u64 r = r" "u64 (r + l) = r + l"
      using lb rl by (simp_all add: u64_index u64_index_add)
    have "lo mod l < l" using rl by (intro mod_less_divisor) simp
    then have "lo mod l \<le> r + l" by simp
    then have off: "u64 (r + l + 2 ^ 64 - lo mod l) = r + l - lo mod l"
      using lb rl by (intro u64_sub) (simp_all add: index_bound_def)
    have "(r + l - lo mod l) mod l < l" using rl by (intro mod_less_divisor) simp
    then have x0: "u64 (lo + (r + l - lo mod l) mod l) = lo + (r + l - lo mod l) mod l"
      using hib lohi lb by (intro u64_index_add) simp_all
    have cnt: "u64 ((hi - y) div l + 1) = (hi - y) div l + 1" for y
      using hib by (intro u64_id) (simp add: index_bound_def le_less_trans [OF div_le_dividend])
    show ?thesis unfolding r_def [symmetric] l_def [symmetric]
      by (simp only: words off x0 cnt Let_def ap_meet_def)
  qed
  show ?thesis
    unfolding ap_intersect_def Let_def uends lo [symmetric] hi [symmetric]
    using c step [unfolded Let_def] by (auto simp: not_less split: option.split)
qed

lemma ap_meet_correct:
  assumes "r < l"
  shows "x \<in> axis_points (ap_meet lo hi r l) \<longleftrightarrow> lo \<le> x \<and> x \<le> hi \<and> x mod l = r"
  using residue_window [OF assms refl, of lo x hi]
  by (auto simp: ap_meet_def Let_def simp del: members.simps)

lemma ap_meet_wf:
  assumes "r < l" "l dvd P" "hi < index_bound"
  shows "axis_wf P (ap_meet lo hi r l)"
proof -
  define x0 where "x0 = lo + (r + l - lo mod l) mod l"
  have "x0 + l * ((hi - x0) div l) < index_bound" if "x0 \<le> hi"
    using that times_div_less_eq_dividend [of l "hi - x0"] assms(3) by linarith
  then show ?thesis using assms by (simp add: ap_meet_def Let_def x0_def [symmetric])
qed

lemma ap_intersect_correct:
  assumes P: "0 < P" "P < index_bound"
    and wfa: "axis_wf P (Ap af as' an)" and wfb: "axis_wf P (Ap bf bs bn)"
  shows "axis_wf P (ap_intersect af as' an bf bs bn) \<and>
    axis_points (ap_intersect af as' an bf bs bn) =
      axis_points (Ap af as' an) \<inter> axis_points (Ap bf bs bn)"
    (is "axis_wf P ?r \<and> axis_points ?r = ?A \<inter> ?B")
proof (cases "an = 0 \<or> bn = 0")
  case True
  then show ?thesis by (auto simp: ap_intersect_def)
next
  case False
  define lo where "lo = max af bf"
  define hi where "hi = min (af + as' * (an - 1)) (bf + bs * (bn - 1))"
  have pos: "0 < as'" "0 < bs" and dvd: "as' dvd P" "bs dvd P" using wfa wfb by auto
  have hib: "hi < index_bound" using wfa False by (simp add: hi_def min_less_iff_disj)
  have both: "x \<in> ?A \<inter> ?B \<longleftrightarrow>
      lo \<le> x \<and> x \<le> hi \<and> (x mod as' = af mod as' \<and> x mod bs = bf mod bs)" for x
    using False by (auto simp: Ap_iff [OF pos(1)] Ap_iff [OF pos(2)] lo_def hi_def simp del: members.simps)
  have r: "?r = (if lo > hi then empty
     else case crt (int af) (int as') (int bf) (int bs) of
       None \<Rightarrow> empty
     | Some (r, l) \<Rightarrow> ap_meet lo hi (nat r) (nat l))"
    using False by (intro ap_intersect_exact [OF P _ _ wfa wfb lo_def hi_def]) simp_all
  note c = crt_nat [OF pos, of af bf]
  show ?thesis
  proof (cases "crt (int af) (int as') (int bf) (int bs)")
    case None
    then have "?A \<inter> ?B = {}" using both c by auto
    then show ?thesis using r None by simp
  next
    case (Some rl)
    then obtain r' l' where rl: "crt (int af) (int as') (int bf) (int bs) = Some (r', l')" by (cases rl) auto
    have l: "nat l' dvd P" "nat r' < nat l'"
      and sol: "(x mod as' = af mod as' \<and> x mod bs = bf mod bs) \<longleftrightarrow> x mod nat l' = nat r'" for x
      using c dvd by (simp_all add: rl del: zless_nat_conj)
    have "x \<in> axis_points ?r \<longleftrightarrow> x \<in> ?A \<inter> ?B" for x
      using both sol ap_meet_correct [OF l(2)] by (auto simp: r rl simp del: members.simps)
    moreover have "axis_wf P ?r" using ap_meet_wf [OF l(2,1) hib] by (simp add: r rl)
    ultimately show ?thesis by blast
  qed
qed

lemma walk_correct:
  "sorted a \<Longrightarrow> distinct a \<Longrightarrow> sorted b \<Longrightarrow> distinct b \<Longrightarrow>
     sorted (walk a b) \<and> distinct (walk a b) \<and> set (walk a b) = set a \<inter> set b"
  by (induction a b rule: walk.induct) (auto simp: less_le)

lemma intersect_correct:
  assumes "0 < P" "P < index_bound" "axis_wf P a" "axis_wf P b"
  shows "axis_wf P (intersect a b) \<and> axis_points (intersect a b) = axis_points a \<inter> axis_points b"
proof (cases a; cases b)
  fix af as' an bf bs bn
  assume "a = Ap af as' an" "b = Ap bf bs bn"
  then show ?thesis using ap_intersect_correct assms by simp
next
  fix f s c v
  assume "a = Ap f s c" "b = Indices v"
  then show ?thesis using assms contains_iff [of P a] by (auto simp: sorted_wrt_filter)
next
  fix f s c v
  assume "a = Indices v" "b = Ap f s c"
  then show ?thesis using assms contains_iff [of P b] by (auto simp: sorted_wrt_filter)
next
  fix v w
  assume "a = Indices v" "b = Indices w"
  then show ?thesis using assms walk_correct [of v w] by auto
qed


section \<open>Correctness of the tile image\<close>

lemma ap_hits_interval_iff:
  assumes "0 < s" "0 < c \<longrightarrow> f + s * (c - 1) < index_bound"
  shows "ap_hits_interval f s c lo hi \<longleftrightarrow> (\<exists>x \<in> axis_points (Ap f s c). lo \<le> x \<and> x < hi)"
proof -
  define i where "i = (if lo \<le> f then 0 else div_ceil (lo - f) s)"
  have i: "i \<le> k \<longleftrightarrow> lo \<le> f + s * k" for k
    using div_ceil_le_iff [OF assms(1), of "lo - f" k] by (auto simp: i_def mult.commute)
  have u: "u64 (f + u64 (s * k)) = f + s * k" if "k < c" for k
  proof -
    have "s * k \<le> s * (c - 1)" using that by (intro mult_le_mono2) simp
    then have "f + s * k < index_bound" using assms(2) that by linarith
    then show ?thesis by (simp add: u64_index)
  qed
  have "(\<exists>x \<in> axis_points (Ap f s c). lo \<le> x \<and> x < hi) \<longleftrightarrow> (\<exists>k < c. i \<le> k \<and> f + s * k < hi)"
    using i by (auto simp: axis_points_Ap)
  also have "\<dots> \<longleftrightarrow> i < c \<and> f + s * i < hi"
  proof -
    have "f + s * i \<le> f + s * k" if "i \<le> k" for k using that by (simp add: mult_le_mono2)
    then show ?thesis by (meson le_less_trans order_refl)
  qed
  also have "\<dots> \<longleftrightarrow> ap_hits_interval f s c lo hi"
    by (auto simp: ap_hits_interval_def Let_def i_def [symmetric] u)
  finally show ?thesis by simp
qed

lemma push_tile_remdups_adj:
  "foldl (push_tile t) ts v = (if ts = [] then remdups_adj (map (\<lambda>x. x div t) v)
     else butlast ts @ remdups_adj (last ts # map (\<lambda>x. x div t) v))"
proof (induction v arbitrary: ts)
  case (Cons x v)
  then show ?case by (cases "ts = []") (auto simp: push_tile_def Let_def)
qed simp

lemma tile_cell: "0 < (t::nat) \<Longrightarrow> x div t = k \<longleftrightarrow> k * t \<le> x \<and> x < k * t + t"
  by (metis add.commute div_less_iff_less_mult div_nat_eqI le_eq_less_or_eq less_eq_div_iff_mult_less_eq
      less_Suc_eq_le mult_Suc not_less_eq_eq mult.commute)

lemma sorted_map_div: "sorted v \<Longrightarrow> sorted (map (\<lambda>x. x div (t::nat)) v)"
  by (auto simp: sorted_wrt_map intro: sorted_wrt_mono_rel [rotated] div_le_mono)

lemma tile_image_interval:
  assumes "0 < t" "0 < c" "f + (c - 1) < index_bound"
  shows "axis_points (interval (f div t) (u64 (u64 (f + (c - 1)) div t + 1))) =
    (\<lambda>x. x div t) ` axis_points (Ap f 1 c)"
proof -
  have "(f + (c - 1)) div t < index_bound" using assms(3) div_le_dividend le_less_trans by blast
  then have u: "u64 (u64 (f + (c - 1)) div t + 1) = (f + (c - 1)) div t + 1"
    unfolding u64_index [OF assms(3)] by (intro u64_index_add) (simp_all add: index_bound_def)
  have pts: "axis_points (Ap f 1 c) = {f ..< f + c}"
    using axis_points_interval [of f "f + c"] by (simp add: interval_def)
  have "k \<in> (\<lambda>x. x div t) ` {f ..< f + c}" if "f div t \<le> k" "k \<le> (f + (c - 1)) div t" for k
  proof (cases "k = f div t")
    case True
    then show ?thesis using assms(2) by auto
  next
    case False
    then have "f div t < k" using that(1) by simp
    then have "f < k * t" using assms(1) by (simp add: div_less_iff_less_mult)
    moreover have "k * t \<le> f + (c - 1)"
      using that(2) assms(1) by (simp add: less_eq_div_iff_mult_less_eq)
    ultimately show ?thesis using assms by (intro image_eqI [of _ _ "k * t"]) auto
  qed
  moreover have "f div t \<le> x div t" "x div t \<le> (f + (c - 1)) div t" if "x \<in> {f ..< f + c}" for x
    using that by (auto intro!: div_le_mono)
  ultimately show ?thesis unfolding u pts axis_points_interval by fastforce
qed


lemma tile_image_strided:
  assumes "0 < t" "t \<le> index_bound" "0 < c" "0 < s" "f + s * (c - 1) < index_bound"
  shows "set (filter (\<lambda>k. ap_hits_interval f s c (u64 (k * t)) (u64 (u64 (k * t) + t)))
      [f div t ..< Suc (u64 (f + u64 (s * (c - 1))) div t)]) = (\<lambda>x. x div t) ` axis_points (Ap f s c)"
    (is "?L = ?R")
proof -
  define e where "e = f + s * (c - 1)"
  have u: "u64 (f + u64 (s * (c - 1))) = e" using assms(5) by (simp add: u64_index e_def)
  have word: "u64 (k * t) = k * t" "u64 (k * t + t) = k * t + t" if "k \<le> e div t" for k
  proof -
    have "k * t \<le> e" using that assms(1) by (simp add: less_eq_div_iff_mult_less_eq)
    then have "k * t < index_bound" using assms(5) by (simp add: e_def)
    then show "u64 (k * t) = k * t" "u64 (k * t + t) = k * t + t"
      using assms(2) by (simp_all add: u64_index u64_index_add)
  qed
  have range: "f \<le> x" "x \<le> e" if "x \<in> axis_points (Ap f s c)" for x
    using that Ap_iff [OF assms(4), of x f c] by (simp_all add: e_def del: members.simps)
  have hits: "ap_hits_interval f s c (u64 (k * t)) (u64 (u64 (k * t) + t)) \<longleftrightarrow>
      (\<exists>x \<in> axis_points (Ap f s c). u64 (k * t) \<le> x \<and> x < u64 (u64 (k * t) + t))" for k
    using assms(4,5) by (intro ap_hits_interval_iff) auto
  have "k \<in> ?L \<longleftrightarrow> f div t \<le> k \<and> k \<le> e div t \<and>
      (\<exists>x \<in> axis_points (Ap f s c). k * t \<le> x \<and> x < k * t + t)" for k
  proof (cases "k \<le> e div t")
    case True
    then show ?thesis using hits [of k] word [of k] unfolding u
      by (auto simp: less_Suc_eq_le simp del: members.simps)
  next
    case False
    then show ?thesis unfolding u by auto
  qed
  moreover have "(f div t \<le> k \<and> k \<le> e div t \<and> (\<exists>x \<in> axis_points (Ap f s c). k * t \<le> x \<and> x < k * t + t))
      \<longleftrightarrow> k \<in> ?R" for k
    unfolding image_iff tile_cell [OF assms(1), of _ k, symmetric] using range div_le_mono by metis
  ultimately show ?thesis by blast
qed

lemma tile_image_correct:
  assumes wf: "axis_wf P a" and t: "t \<le> index_bound" and P: "0 < P"
  shows "axis_wf P (tile_image a t) \<and> axis_points (tile_image a t) = (\<lambda>x. x div max t 1) ` axis_points a"
proof (cases "is_empty a")
  case True
  then show ?thesis by (simp add: tile_image_def is_empty_iff [of a, THEN iffD1])
next
  case ne: False
  define u where "u = max t 1"
  have u: "0 < u" "u \<le> index_bound" using t by (simp_all add: u_def index_bound_def)
  show ?thesis
  proof (cases a)
    case (Ap f s c)
    then have c: "0 < c" and s: "0 < s" and b: "f + s * (c - 1) < index_bound"
      using ne wf by (auto simp: is_empty_def)
    show ?thesis
    proof (cases "s = 1")
      case True
      have b1: "f + (c - 1) < index_bound" using b True by simp
      have eq: "tile_image a t = interval (f div u) (u64 (u64 (f + (c - 1)) div u + 1))"
        using ne Ap True by (simp add: tile_image_def u_def Let_def)
      have "x < index_bound" if x: "x \<in> axis_points (tile_image a t)" for x
      proof -
        obtain y where "y \<in> axis_points (Ap f 1 c)" "x = y div u"
          using x unfolding eq tile_image_interval [OF u(1) c b1] by blast
        then show ?thesis using axis_points_bound [OF wf, of y] Ap True
          by (simp add: le_less_trans [OF div_le_dividend])
      qed
      then have "axis_wf P (tile_image a t)"
        unfolding eq by (force simp: interval_def)
      then show ?thesis using tile_image_interval [OF u(1) c b1] Ap True eq by (simp add: u_def)
    next
      case False
      let ?L = "filter (\<lambda>k. ap_hits_interval f s c (u64 (k * u)) (u64 (u64 (k * u) + u)))
        [f div u ..< Suc (u64 (f + u64 (s * (c - 1))) div u)]"
      have eq: "tile_image a t = Indices ?L" using ne Ap False by (simp add: tile_image_def u_def Let_def)
      note img = tile_image_strided [OF u c s b]
      have "k < index_bound" if "k \<in> set ?L" for k
        using that axis_points_bound [OF wf] unfolding img Ap by (auto intro: le_less_trans [OF div_le_dividend])
      then have "axis_wf P (tile_image a t)" unfolding eq by (simp add: sorted_wrt_filter del: upt_Suc)
      then show ?thesis using img Ap eq by (simp add: u_def del: upt_Suc)
    qed
  next
    case (Indices v)
    have eq: "tile_image a t = Indices (remdups_adj (map (\<lambda>x. x div u) v))"
      using ne Indices by (simp add: tile_image_def u_def Let_def push_tile_remdups_adj)
    have v: "sorted v" "\<forall>x \<in> set v. x < index_bound" using wf Indices by auto
    then have "axis_wf P (tile_image a t)"
      using sorted_map_div [OF v(1), of u] unfolding eq
      by (auto simp: sorted_remdups_adj sorted_remdups_adj_distinct intro: le_less_trans [OF div_le_dividend])
    then show ?thesis using Indices eq by (simp add: u_def)
  qed
qed

section \<open>Properties\<close>

text \<open>C16: intersecting two axis sets is exact.  For sets whose strides divide a common period, the
  result keeps the representation invariant and denotes the set intersection.\<close>

theorem intersect_exact:
  assumes "0 < P" "P < index_bound" "axis_wf P a" "axis_wf P b"
  shows "axis_wf P (intersect a b) \<and> axis_points (intersect a b) = axis_points a \<inter> axis_points b"
  using intersect_correct [OF assms] by simp

theorem intersect_exact_witness:
  "axis_points (intersect (Ap 0 3 5) (Ap 0 4 4)) = {0, 12}"
proof -
  have "axis_points (intersect (Ap 0 3 5) (Ap 0 4 4)) = axis_points (Ap 0 3 5) \<inter> axis_points (Ap 0 4 4)"
    using intersect_exact [of 12 "Ap 0 3 5" "Ap 0 4 4"] by (simp add: index_bound_def)
  then show ?thesis by (simp add: upt_rec)
qed

lemma crt_large_lcm: "crt 0 274177 0 67280421310721 = Some (0, 2 ^ 64 + 1)"
proof -
  have "ext_gcd 274177 67280421310721 = (1, -10745648428557, 43790)"
    by (simp add: ext_gcd.simps signed_modulo_int_def signed_divide_int_def)
  then show ?thesis
    by (simp add: crt_def imod_def signed_modulo_int_def signed_divide_int_def)
qed

text \<open>Without the common period the intersection is not exact: the combined stride of these two
  progressions is \<open>2 ^ 64 + 1\<close>, which the cast \<open>l as u64\<close> truncates to 1, so an intersection
  with the single member 0 is reported as an interval of more than \<open>10 ^ 13\<close> members.\<close>

lemma intersect_truncates:
  "axis_points (Ap 0 274177 245390466) \<inter> axis_points (Ap 0 67280421310721 2) = {0} \<and>
   len (intersect (Ap 0 274177 245390466) (Ap 0 67280421310721 2)) = 67280421310722"
proof
  have "67280421310721 \<notin> axis_points (Ap 0 274177 245390466)"
    by (subst Ap_iff) simp_all
  then show "axis_points (Ap 0 274177 245390466) \<inter> axis_points (Ap 0 67280421310721 2) = {0}"
    by (auto simp: upt_rec [of _ "2 :: nat"] numeral_2_eq_2 less_Suc_eq Ap_iff)
  show "len (intersect (Ap 0 274177 245390466) (Ap 0 67280421310721 2)) = 67280421310722"
    using crt_large_lcm by (simp add: ap_intersect_def Let_def u64_def)
qed

text \<open>C17: the tile image is exact: it denotes the tiles that hold at least one member.\<close>

theorem tile_image_exact:
  assumes "axis_wf P a" "t \<le> index_bound" "0 < P"
  shows "axis_wf P (tile_image a t) \<and> axis_points (tile_image a t) = (\<lambda>x. x div max t 1) ` axis_points a"
  using tile_image_correct [OF assms] by simp

theorem tile_image_exact_witness:
  "axis_points (tile_image (Ap 1 5 3) 4) = {0, 1, 2}"
proof -
  have "axis_points (tile_image (Ap 1 5 3) 4) = (\<lambda>x. x div max 4 1) ` axis_points (Ap 1 5 3)"
    using tile_image_exact [of 5 "Ap 1 5 3" 4] by (simp add: index_bound_def)
  then show ?thesis by (simp add: upt_rec)
qed

end
