(* ===== verification/Product_Set.thy ===== *)
theory Product_Set
  imports Axis_Set
begin

text \<open>
  The index-set interface and its separable backend (\<open>src/optimizer/cardinality/index_set.rs\<close>,
  \<open>axis.rs\<close>, \<open>backend/product.rs\<close>): cube shapes, affine maps, and \<open>ProductSet\<close>, a union of boxes,
  with intersection, union, projection, separable affine images, exact cardinality and exact
  touched-tile counts by inclusion-exclusion.  The locale \<open>index_set\<close> states what the trait
  \<open>IndexSet\<close> promises its clients; \<open>ProductSet\<close> is shown to implement it.
\<close>

section \<open>Cube shapes\<close>

record Axis =
  axis_name :: string
  extent :: nat
  chunk :: nat

definition Axis_new :: "string \<Rightarrow> nat \<Rightarrow> nat \<Rightarrow> Axis" where
  "Axis_new n e c = \<lparr>axis_name = n, extent = e, chunk = max c 1\<rparr>"

definition n_chunks :: "Axis \<Rightarrow> nat" where
  "n_chunks a = div_ceil (extent a) (chunk a)"

record CubeShape =
  axes :: "Axis list"

definition extents :: "CubeShape \<Rightarrow> nat list" where
  "extents sh = map extent (axes sh)"

definition chunk_shape :: "CubeShape \<Rightarrow> nat list" where
  "chunk_shape sh = map chunk (axes sh)"

definition full_cardinality :: "CubeShape \<Rightarrow> nat" where
  "full_cardinality sh = foldl (\<lambda>acc a. u128 (int acc * int (extent a))) 1 (axes sh)"

section \<open>Affine maps\<close>

record AffineMap =
  matrix :: "int list list"
  offset :: "int list"

definition identity :: "nat \<Rightarrow> AffineMap" where
  "identity n =
     \<lparr>matrix = map (\<lambda>r. map (\<lambda>c. if r = c then 1 else 0) [0..<n]) [0..<n],
      offset = replicate n 0\<rparr>"

definition in_dim :: "AffineMap \<Rightarrow> nat" where
  "in_dim m = (case matrix m of [] \<Rightarrow> 0 | row # _ \<Rightarrow> length row)"

definition out_dim :: "AffineMap \<Rightarrow> nat" where
  "out_dim m = length (matrix m)"

definition is_identity :: "AffineMap \<Rightarrow> bool" where
  "is_identity m \<longleftrightarrow>
     out_dim m = in_dim m \<and> (\<forall>b \<in> set (offset m). b = 0) \<and>
     (\<forall>(r, row) \<in> set (enumerate 0 (matrix m)).
        \<forall>(c, v) \<in> set (enumerate 0 row). v = (if r = c then 1 else 0))"

text \<open>One row of a permutation matrix: the single column holding a 1.\<close>

fun row_source :: "nat option \<Rightarrow> (nat \<times> int) list \<Rightarrow> nat option option" where
  "row_source src [] = Some src"
| "row_source src ((c, v) # rest) =
     (if v = 0 then row_source src rest
      else if v = 1 \<and> src = None then row_source (Some c) rest
      else None)"

text \<open>The outer \<open>None\<close> is the out-of-range access \<open>seen[src]\<close> on a ragged matrix.\<close>

fun perm_rows :: "bool list \<Rightarrow> nat list \<Rightarrow> int list list \<Rightarrow> nat list option option" where
  "perm_rows seen perm [] = Some (Some perm)"
| "perm_rows seen perm (row # rows) =
     (case row_source None (enumerate 0 row) of
        None \<Rightarrow> Some None
      | Some None \<Rightarrow> Some None
      | Some (Some src) \<Rightarrow>
          if src \<ge> length seen then None
          else if seen ! src then Some None
          else perm_rows (seen[src := True]) (perm @ [src]) rows)"

definition as_permutation :: "AffineMap \<Rightarrow> nat list option option" where
  "as_permutation m =
     (let n = in_dim m in
      if out_dim m \<noteq> n \<or> (\<exists>b \<in> set (offset m). b \<noteq> 0) then Some None
      else perm_rows (replicate n False) [] (matrix m))"

section \<open>Product sets\<close>

record ProductSet =
  ndim :: nat
  boxes :: "AxisSet list list"

definition ps_empty :: "nat \<Rightarrow> ProductSet" where
  "ps_empty n = \<lparr>ndim = n, boxes = []\<rparr>"

definition from_boxes :: "nat \<Rightarrow> AxisSet list list \<Rightarrow> ProductSet" where
  "from_boxes n bs = \<lparr>ndim = n, boxes = filter (\<lambda>b. \<not> (\<exists>a \<in> set b. is_empty a)) bs\<rparr>"

definition single :: "AxisSet list \<Rightarrow> ProductSet" where
  "single as = from_boxes (length as) [as]"

definition universe :: "CubeShape \<Rightarrow> ProductSet" where
  "universe sh = single (map (\<lambda>a. interval 0 (extent a)) (axes sh))"

definition ps_is_empty :: "ProductSet \<Rightarrow> bool" where
  "ps_is_empty s \<longleftrightarrow> boxes s = []"

definition box_intersect :: "AxisSet list \<Rightarrow> AxisSet list \<Rightarrow> AxisSet list" where
  "box_intersect a b = map2 intersect a b"

definition box_card :: "AxisSet list \<Rightarrow> nat" where
  "box_card b = foldl (\<lambda>acc s. u128 (int acc * int (len s))) 1 b"

fun count_ones :: "nat \<Rightarrow> nat" where
  "count_ones n = (if n = 0 then 0 else n mod 2 + count_ones (n div 2))"

declare count_ones.simps [simp del]

text \<open>The intersection of the boxes a bit mask selects.\<close>

definition mask_box :: "nat \<Rightarrow> AxisSet list list \<Rightarrow> AxisSet list option" where
  "mask_box m bs =
     fold (\<lambda>(i, b) acc.
         if \<not> bit m i then acc
         else Some (case acc of None \<Rightarrow> b | Some cur \<Rightarrow> box_intersect cur b))
       (enumerate 0 bs) None"

definition ie_step :: "AxisSet list list \<Rightarrow> nat \<Rightarrow> int \<Rightarrow> int" where
  "ie_step bs m tot =
     (let card' = i128 (int (box_card (case mask_box m bs of None \<Rightarrow> [] | Some b \<Rightarrow> b)))
      in if card' = 0 then tot
         else if count_ones m mod 2 = 1 then i128 (tot + card')
         else i128 (tot - card'))"

definition inclusion_exclusion :: "AxisSet list list \<Rightarrow> nat option" where
  "inclusion_exclusion bs =
     (let n = length bs in
      if n = 0 then Some 0
      else if \<not> n < 32 then None
      else Some (u128 (fold (ie_step bs) [1 ..< 2 ^ n] 0)))"

definition ps_cardinality :: "ProductSet \<Rightarrow> nat option" where
  "ps_cardinality s = inclusion_exclusion (boxes s)"

definition ps_intersect :: "ProductSet \<Rightarrow> ProductSet \<Rightarrow> ProductSet option" where
  "ps_intersect s t =
     (if ndim s \<noteq> ndim t then None
      else Some (from_boxes (ndim s)
        (concat (map (\<lambda>a. map (box_intersect a) (boxes t)) (boxes s)))))"

definition ps_union :: "ProductSet \<Rightarrow> ProductSet \<Rightarrow> ProductSet option" where
  "ps_union s t =
     (if ndim s \<noteq> ndim t then None else Some (from_boxes (ndim s) (boxes s @ boxes t)))"

definition ps_project_out :: "ProductSet \<Rightarrow> nat \<Rightarrow> ProductSet option" where
  "ps_project_out s d =
     (if \<not> d < ndim s then None
      else Some (from_boxes (ndim s - 1) (map (remove_nth d) (boxes s))))"

definition ps_apply :: "ProductSet \<Rightarrow> AffineMap \<Rightarrow> ProductSet option option" where
  "ps_apply s m =
     (if in_dim m \<noteq> ndim s then Some None
      else if is_identity m then Some (Some s)
      else case as_permutation m of
        None \<Rightarrow> None
      | Some None \<Rightarrow> Some None
      | Some (Some perm) \<Rightarrow>
          Some (Some (from_boxes (out_dim m) (map (\<lambda>b. map (\<lambda>src. b ! src) perm) (boxes s)))))"

definition ps_touched_tiles :: "ProductSet \<Rightarrow> nat list \<Rightarrow> nat option" where
  "ps_touched_tiles s tile =
     (if length tile \<noteq> ndim s then None
      else inclusion_exclusion (map (\<lambda>b. map2 tile_image b tile) (boxes s)))"

section \<open>What a product set denotes\<close>

definition box_points :: "AxisSet list \<Rightarrow> nat list set" where
  "box_points b = listset (map axis_points b)"

definition ps_points :: "ProductSet \<Rightarrow> nat list set" where
  "ps_points s = \<Union> (box_points ` set (boxes s))"

definition box_wf :: "nat \<Rightarrow> nat \<Rightarrow> AxisSet list \<Rightarrow> bool" where
  "box_wf P n b \<longleftrightarrow> length b = n \<and> (\<forall>a \<in> set b. axis_wf P a)"

text \<open>The representation invariant: positive common period, boxes of the declared arity, no box
  with an empty axis.\<close>

definition ps_wf :: "nat \<Rightarrow> ProductSet \<Rightarrow> bool" where
  "ps_wf P s \<longleftrightarrow> 0 < P \<and> P < index_bound \<and>
     (\<forall>b \<in> set (boxes s). box_wf P (ndim s) b \<and> (\<forall>a \<in> set b. \<not> is_empty a))"

text \<open>What the counters can report: fewer than 32 disjuncts and a count that fits \<open>u128\<close>.\<close>

definition countable_set :: "nat \<Rightarrow> 'a set \<Rightarrow> bool" where
  "countable_set k S \<longleftrightarrow> k < 32 \<and> card S < 2 ^ 128"

section \<open>The index-set contract\<close>

locale index_set =
  fixes invar :: "'s \<Rightarrow> bool"
    and dim :: "'s \<Rightarrow> nat"
    and points :: "'s \<Rightarrow> nat list set"
    and disjuncts :: "'s \<Rightarrow> nat"
    and emp :: "'s \<Rightarrow> bool"
    and cardinality :: "'s \<Rightarrow> nat option"
    and inter :: "'s \<Rightarrow> 's \<Rightarrow> 's option"
    and uni :: "'s \<Rightarrow> 's \<Rightarrow> 's option"
    and project :: "'s \<Rightarrow> nat \<Rightarrow> 's option"
    and tiles :: "'s \<Rightarrow> nat list \<Rightarrow> nat option"
  assumes point_length: "invar s \<Longrightarrow> p \<in> points s \<Longrightarrow> length p = dim s"
    and points_finite: "invar s \<Longrightarrow> finite (points s)"
    and emp_iff: "invar s \<Longrightarrow> emp s \<longleftrightarrow> points s = {}"
    and cardinality_exact:
      "invar s \<Longrightarrow> countable_set (disjuncts s) (points s) \<Longrightarrow> cardinality s = Some (card (points s))"
    and inter_exact: "invar s \<Longrightarrow> invar t \<Longrightarrow> dim s = dim t \<Longrightarrow>
      \<exists>u. inter s t = Some u \<and> invar u \<and> dim u = dim s \<and> points u = points s \<inter> points t"
    and uni_exact: "invar s \<Longrightarrow> invar t \<Longrightarrow> dim s = dim t \<Longrightarrow>
      \<exists>u. uni s t = Some u \<and> invar u \<and> dim u = dim s \<and> points u = points s \<union> points t"
    and project_exact: "invar s \<Longrightarrow> d < dim s \<Longrightarrow>
      \<exists>u. project s d = Some u \<and> invar u \<and> dim u = dim s - 1 \<and> disjuncts u = disjuncts s \<and>
        points u = remove_nth d ` points s"
    and tiles_exact: "invar s \<Longrightarrow> length ts = dim s \<Longrightarrow> (\<forall>x \<in> set ts. x \<le> index_bound) \<Longrightarrow>
      countable_set (disjuncts s) (map2 (\<lambda>u x. x div max u 1) ts ` points s) \<Longrightarrow>
      tiles s ts = Some (card (map2 (\<lambda>u x. x div max u 1) ts ` points s))"
begin

text \<open>Keeping a set of axes is dropping the others from the highest down.\<close>

lemma nths_drop_axis:
  assumes "k < length p" "k \<notin> K"
  shows "remove_nth k (nths p ({..<Suc k} \<union> K)) = nths p ({..<k} \<union> K)"
proof -
  have split: "nths p A = nths (take k p) A @ nths (p ! k # drop (Suc k) p) {j. j + k \<in> A}" for A
    using nths_append [of "take k p" "drop k p" A] assms(1) by (simp add: Cons_nth_drop_Suc)
  have whole: "nths (take k p) ({..<k} \<union> K) = take k p" "nths (take k p) ({..<Suc k} \<union> K) = take k p"
    by (rule nths_all; auto)+
  have "nths p ({..<Suc k} \<union> K) = take k p @ p ! k # nths (drop (Suc k) p) {j. Suc (j + k) \<in> K}"
    using split [of "{..<Suc k} \<union> K"] unfolding whole by (simp add: nths_Cons)
  moreover have "nths p ({..<k} \<union> K) = take k p @ nths (drop (Suc k) p) {j. Suc (j + k) \<in> K}"
    using split [of "{..<k} \<union> K"] assms(2) unfolding whole by (simp add: nths_Cons)
  ultimately show ?thesis using assms(1) by (simp add: remove_nth_def)
qed

lemma project_keep:
  assumes inv: "invar s" and n: "n \<le> dim s"
  shows "\<exists>u. fold (\<lambda>axis cur. if axis \<in> K then cur else Option.bind cur (\<lambda>c. project c axis))
        (rev [n..<dim s]) (Some s) = Some u \<and>
      invar u \<and> n \<le> dim u \<and> disjuncts u = disjuncts s \<and> points u = (\<lambda>p. nths p ({..<n} \<union> K)) ` points s"
  using n
proof (induction "dim s - n" arbitrary: n)
  case 0
  then have "n = dim s" by simp
  moreover have "nths p ({..<n} \<union> K) = p" if "p \<in> points s" for p
    using point_length [OF inv that] \<open>n = dim s\<close> by (intro nths_all) auto
  ultimately show ?case using inv by simp
next
  case (Suc m)
  let ?f = "\<lambda>axis cur. if axis \<in> K then cur else Option.bind cur (\<lambda>c. project c axis)"
  have n: "n < dim s" using Suc.hyps(2) by simp
  then obtain u where u: "fold ?f (rev [Suc n..<dim s]) (Some s) = Some u" "invar u" "Suc n \<le> dim u"
      "disjuncts u = disjuncts s" "points u = (\<lambda>p. nths p ({..<Suc n} \<union> K)) ` points s"
    using Suc.hyps(1) [of "Suc n"] Suc.hyps(2) by fastforce
  have split: "fold ?f (rev [n..<dim s]) (Some s) = ?f n (Some u)"
    using n u(1) by (simp add: upt_conv_Cons)
  show ?case
  proof (cases "n \<in> K")
    case True
    then have "{..<n} \<union> K = {..<Suc n} \<union> K" by (auto simp: less_Suc_eq)
    then show ?thesis using True u split by simp
  next
    case False
    obtain v where v: "project u n = Some v" "invar v" "dim v = dim u - 1" "disjuncts v = disjuncts u"
        "points v = remove_nth n ` points u"
      using project_exact [OF u(2), of n] u(3) by auto
    have "remove_nth n (nths p ({..<Suc n} \<union> K)) = nths p ({..<n} \<union> K)" if "p \<in> points s" for p
      using nths_drop_axis [OF _ False, of p] point_length [OF inv that] n by simp
    then have "points v = (\<lambda>p. nths p ({..<n} \<union> K)) ` points s"
      using v(5) u(5) by (simp add: image_image cong: image_cong)
    then show ?thesis using v u(3,4) split False by auto
  qed
qed

end


section \<open>Counting a union by bit masks\<close>

definition mask_meet :: "nat \<Rightarrow> 'a set list \<Rightarrow> 'a set \<Rightarrow> 'a set" where
  "mask_meet m Bs Z = {x \<in> Z. \<forall>i < length Bs. bit m i \<longrightarrow> x \<in> Bs ! i}"

lemma bit_low: "m < 2 ^ n \<Longrightarrow> \<not> bit (m::nat) n"
  by (simp add: bit_iff_odd)

lemma bit_top: "m < 2 ^ n \<Longrightarrow> bit (m + 2 ^ n :: nat) n"
  by (simp add: bit_iff_odd div_add_self2)

lemma bit_below: "i < n \<Longrightarrow> bit (m + 2 ^ n :: nat) i = bit m i"
proof -
  assume "i < n"
  then have "(2::nat) ^ n = 2 ^ (n - i) * 2 ^ i" by (simp add: power_add [symmetric])
  then have "(m + 2 ^ n) div 2 ^ i = m div 2 ^ i + 2 ^ (n - i)" by (simp add: div_mult_self3)
  then show ?thesis using \<open>i < n\<close> by (simp add: bit_iff_odd)
qed

lemma count_ones_top: "m < 2 ^ n \<Longrightarrow> count_ones (m + 2 ^ n) = Suc (count_ones m)"
proof (induction n arbitrary: m)
  case 0
  then show ?case by (simp add: count_ones.simps)
next
  case (Suc n)
  have "count_ones (m div 2 + 2 ^ n) = Suc (count_ones (m div 2))" using Suc by (intro Suc.IH) simp
  moreover have "count_ones m = m mod 2 + count_ones (m div 2)"
    by (subst count_ones.simps) (simp add: count_ones.simps [of 0])
  ultimately show ?case by (subst count_ones.simps) (simp add: add.commute)
qed

lemma sum_masks_split:
  "(\<Sum>m<2 ^ Suc n. f m) = (\<Sum>m<2 ^ n. f m) + (\<Sum>m<2 ^ n. f (m + 2 ^ n))" for f :: "nat \<Rightarrow> int"
proof -
  have "{..<2 ^ Suc n} = {..<2 ^ n} \<union> {2 ^ n..<2 ^ n + 2 ^ n :: nat}" by auto
  then have "(\<Sum>m<2 ^ Suc n. f m) = (\<Sum>m<2 ^ n. f m) + (\<Sum>m = 2 ^ n..<2 ^ n + 2 ^ n. f m)"
    by (simp add: sum.union_disjoint ivl_disj_int)
  also have "(\<Sum>m = 2 ^ n..<2 ^ n + 2 ^ n. f m) = (\<Sum>m<2 ^ n. f (m + 2 ^ n))"
    using sum.shift_bounds_nat_ivl [of f 0 "2 ^ n" "2 ^ n"] by (simp add: lessThan_atLeast0)
  finally show ?thesis .
qed

lemma mask_meet_snoc:
  assumes "m < 2 ^ length Bs"
  shows "mask_meet m (Bs @ [B]) Z = mask_meet m Bs Z"
    "mask_meet (m + 2 ^ length Bs) (Bs @ [B]) Z = mask_meet m Bs (Z \<inter> B)"
  using bit_low [OF assms] bit_top [OF assms]
  by (auto simp: mask_meet_def nth_append less_Suc_eq bit_below)

lemma inclusion_exclusion_masks:
  assumes "finite Z"
  shows "(\<Sum>m<2 ^ length Bs. (- 1) ^ count_ones m * int (card (mask_meet m Bs Z))) =
    int (card (Z - \<Union> (set Bs)))"
  using assms
proof (induction Bs arbitrary: Z rule: rev_induct)
  case Nil
  then show ?case by (simp add: mask_meet_def count_ones.simps)
next
  case (snoc B Bs)
  let ?t = "\<lambda>m Bs Z. (- 1) ^ count_ones m * int (card (mask_meet m Bs Z))"
  have "(\<Sum>m<2 ^ length (Bs @ [B]). ?t m (Bs @ [B]) Z) =
      (\<Sum>m<2 ^ length Bs. ?t m Bs Z) - (\<Sum>m<2 ^ length Bs. ?t m Bs (Z \<inter> B))"
    by (simp add: sum_masks_split [simplified] mask_meet_snoc count_ones_top sum_negf)
  also have "\<dots> = int (card (Z - \<Union> (set Bs))) - int (card (Z \<inter> B - \<Union> (set Bs)))"
    using snoc.IH [of Z] snoc.IH [of "Z \<inter> B"] snoc.prems by simp
  also have "\<dots> = int (card (Z - \<Union> (set (Bs @ [B]))))"
  proof -
    have "Z - \<Union> (set Bs) = (Z \<inter> B - \<Union> (set Bs)) \<union> (Z - \<Union> (set (Bs @ [B])))" by auto
    moreover have "(Z \<inter> B - \<Union> (set Bs)) \<inter> (Z - \<Union> (set (Bs @ [B]))) = {}" by auto
    ultimately have "card (Z - \<Union> (set Bs)) =
        card (Z \<inter> B - \<Union> (set Bs)) + card (Z - \<Union> (set (Bs @ [B])))"
      using snoc.prems by (metis card_Un_disjoint finite_Diff finite_Int)
    then show ?thesis by simp
  qed
  finally show ?case .
qed


section \<open>Boxes\<close>

lemma box_points_iff:
  "p \<in> box_points b \<longleftrightarrow> length p = length b \<and> (\<forall>i < length b. p ! i \<in> axis_points (b ! i))"
  by (auto simp: box_points_def listset_iff)

lemma finite_box_points [simp]: "finite (box_points b)"
  by (auto simp: box_points_def intro!: finite_listset)

lemma box_points_empty: "box_points b = {} \<longleftrightarrow> (\<exists>a \<in> set b. is_empty a)"
  by (auto simp: box_points_def listset_empty_iff is_empty_iff)

lemma box_intersect_correct:
  assumes P: "0 < P" "P < index_bound" and wf: "box_wf P n a" "box_wf P n b"
  shows "box_wf P n (box_intersect a b)" "box_points (box_intersect a b) = box_points a \<inter> box_points b"
proof -
  have pt: "axis_wf P (intersect (a ! i) (b ! i)) \<and>
      axis_points (intersect (a ! i) (b ! i)) = axis_points (a ! i) \<inter> axis_points (b ! i)" if "i < n" for i
    using intersect_correct [OF P, of "a ! i" "b ! i"] wf that by (auto simp: box_wf_def)
  show "box_wf P n (box_intersect a b)"
    using wf pt by (auto simp: box_wf_def box_intersect_def in_set_conv_nth)
  show "box_points (box_intersect a b) = box_points a \<inter> box_points b"
    using wf pt by (auto simp: box_points_iff box_wf_def box_intersect_def)
qed

lemma box_card_mod:
  assumes "box_wf P n b"
  shows "int (box_card b) mod 2 ^ 128 = int (card (box_points b)) mod 2 ^ 128"
proof -
  have "int (foldl (\<lambda>acc s. u128 (int acc * int (len s))) k b) mod 2 ^ 128 =
      (int k * int (prod_list (map len b))) mod 2 ^ 128" for k
    by (induction b arbitrary: k) (simp_all add: u128_def mod_mult_left_eq mult.assoc)
  from this [of 1] have "int (box_card b) mod 2 ^ 128 = int (prod_list (map len b)) mod 2 ^ 128"
    by (simp add: box_card_def)
  also have "prod_list (map len b) = card (box_points b)"
    unfolding box_points_def using assms
    by (subst card_listset) (auto simp: comp_def box_wf_def intro!: arg_cong [where f = prod_list] len_card)
  finally show ?thesis .
qed

section \<open>Exactness of the counters\<close>

lemma mask_box_snoc:
  "mask_box m (bs @ [b]) =
     (if bit m (length bs)
      then Some (case mask_box m bs of None \<Rightarrow> b | Some cur \<Rightarrow> box_intersect cur b)
      else mask_box m bs)"
  by (simp add: mask_box_def enumerate_append_eq)

lemma mask_box_correct:
  assumes P: "0 < P" "P < index_bound" and wf: "\<forall>b \<in> set bs. box_wf P n b"
  shows "case mask_box m bs of
      None \<Rightarrow> \<forall>i < length bs. \<not> bit m i
    | Some c \<Rightarrow> box_wf P n c \<and> (\<exists>i < length bs. bit m i) \<and> box_points c = mask_meet m (map box_points bs) UNIV"
  using wf
proof (induction bs rule: rev_induct)
  case Nil
  then show ?case by (simp add: mask_box_def)
next
  case (snoc b bs)
  then have IH: "case mask_box m bs of None \<Rightarrow> \<forall>i < length bs. \<not> bit m i
      | Some c \<Rightarrow> box_wf P n c \<and> (\<exists>i < length bs. bit m i) \<and> box_points c = mask_meet m (map box_points bs) UNIV"
    and b: "box_wf P n b" by auto
  show ?case
  proof (cases "mask_box m bs")
    case None
    then show ?thesis using IH b
      by (auto simp: mask_box_snoc mask_meet_def nth_append less_Suc_eq)
  next
    case (Some c)
    then show ?thesis using IH b box_intersect_correct [OF P, of n c b]
      by (auto simp: mask_box_snoc mask_meet_def nth_append less_Suc_eq)
  qed
qed

lemma low_bit_exists:
  assumes "0 < m" "m < 2 ^ n" shows "\<exists>i < n. bit (m::nat) i"
proof (rule ccontr)
  assume none: "\<not> (\<exists>i<n. bit m i)"
  have "m = take_bit n m" using assms(2) by (simp add: take_bit_nat_eq_self)
  also have "\<dots> = 0" using none by (intro bit_eqI) (auto simp: bit_take_bit_iff)
  finally show False using assms(1) by simp
qed

lemma ie_step_mod:
  assumes P: "0 < P" "P < index_bound" and wf: "\<forall>b \<in> set bs. box_wf P n b"
    and m: "0 < m" "m < 2 ^ length bs"
  shows "ie_step bs m t mod 2 ^ 128 =
    (t - (- 1) ^ count_ones m * int (card (mask_meet m (map box_points bs) (\<Union> (box_points ` set bs))))) mod 2 ^ 128"
proof -
  obtain i where i: "i < length bs" "bit m i" using low_bit_exists [OF m] by blast
  then obtain c where c: "mask_box m bs = Some c" "box_wf P n c"
      "box_points c = mask_meet m (map box_points bs) UNIV"
    using mask_box_correct [OF P wf, of m] by (auto split: option.splits)
  let ?Z = "\<Union> (box_points ` set bs)"
  have "box_points c = mask_meet m (map box_points bs) ?Z"
    using i c(3) by (auto simp: mask_meet_def)
  moreover define k where "k = i128 (int (box_card c))"
  ultimately have k: "k mod 2 ^ 128 = int (card (mask_meet m (map box_points bs) ?Z)) mod 2 ^ 128"
    using box_card_mod [OF c(2)] by (simp only: i128_cong)
  have "ie_step bs m t = (if k = 0 then t else i128 (t - (- 1) ^ count_ones m * k))"
    using c(1) by (simp add: ie_step_def Let_def k_def [symmetric] minus_one_power_iff odd_iff_mod_2_eq_one)
  then have "ie_step bs m t mod 2 ^ 128 = (t - (- 1) ^ count_ones m * k) mod 2 ^ 128"
    by (cases "k = 0") (simp, simp only: i128_cong if_False)
  also have "\<dots> = (t - (- 1) ^ count_ones m * (k mod 2 ^ 128)) mod 2 ^ 128"
    by (metis mod_diff_right_eq mod_mult_right_eq)
  also have "\<dots> = (t - (- 1) ^ count_ones m * int (card (mask_meet m (map box_points bs) ?Z))) mod 2 ^ 128"
    unfolding k by (metis mod_diff_right_eq mod_mult_right_eq)
  finally show ?thesis .
qed

lemma fold_ie_step_mod:
  assumes "\<And>m t. m \<in> set ms \<Longrightarrow> f m t mod M = (t - g m) mod (M :: int)"
  shows "fold f ms t mod M = (t - sum_list (map g ms)) mod M"
  using assms
proof (induction ms arbitrary: t)
  case (Cons m ms)
  have "fold f (m # ms) t mod M = (f m t - sum_list (map g ms)) mod M" using Cons by simp
  also have "\<dots> = (t - g m - sum_list (map g ms)) mod M"
    using Cons.prems [of m t] by (metis list.set_intros(1) mod_diff_left_eq)
  finally show ?case by (simp add: algebra_simps)
qed simp

lemma inclusion_exclusion_correct:
  assumes P: "0 < P" "P < index_bound" and wf: "\<forall>b \<in> set bs. box_wf P n b"
    and c: "countable_set (length bs) (\<Union> (box_points ` set bs))"
  shows "inclusion_exclusion bs = Some (card (\<Union> (box_points ` set bs)))"
proof (cases "bs = []")
  case False
  let ?Z = "\<Union> (box_points ` set bs)"
  let ?g = "\<lambda>m. (- 1) ^ count_ones m * int (card (mask_meet m (map box_points bs) ?Z))"
  have "(\<Sum>m<2 ^ length bs. ?g m) = 0"
    using inclusion_exclusion_masks [of ?Z "map box_points bs"] by simp
  moreover have "{..<2 ^ length bs} = insert 0 {1..<2 ^ length bs :: nat}" by auto
  moreover have "mask_meet 0 (map box_points bs) ?Z = ?Z" by (auto simp: mask_meet_def)
  then have "?g 0 = int (card ?Z)" by (simp add: count_ones.simps)
  ultimately have sum: "(\<Sum>m = 1..<2 ^ length bs. ?g m) = - int (card ?Z)" by simp
  have "fold (ie_step bs) [1..<2 ^ length bs] 0 mod 2 ^ 128 =
      (0 - sum_list (map ?g [1..<2 ^ length bs])) mod 2 ^ 128"
    by (rule fold_ie_step_mod) (rule ie_step_mod [OF P wf]; simp)
  also have "sum_list (map ?g [1..<2 ^ length bs]) = - int (card ?Z)"
    using sum by (simp add: interv_sum_list_conv_sum_set_nat)
  finally have "u128 (fold (ie_step bs) [1..<2 ^ length bs] 0) = u128 (int (card ?Z))"
    by (intro u128_cong) simp
  also have "\<dots> = card ?Z" using c by (intro u128_of_nat) (simp add: countable_set_def)
  finally show ?thesis using False c by (simp add: inclusion_exclusion_def countable_set_def)
qed (simp add: inclusion_exclusion_def)

section \<open>The set operations are exact\<close>

lemma from_boxes_points [members_simps]: "ps_points (from_boxes n bs) = \<Union> (box_points ` set bs)"
  using box_points_empty by (auto simp: ps_points_def from_boxes_def)

lemma from_boxes_wf:
  "0 < P \<Longrightarrow> P < index_bound \<Longrightarrow> \<forall>b \<in> set bs. box_wf P n b \<Longrightarrow> ps_wf P (from_boxes n bs)"
  by (auto simp: ps_wf_def from_boxes_def)

lemma ndim_from_boxes [simp]: "ndim (from_boxes n bs) = n"
  by (simp add: from_boxes_def)

lemma ps_points_length: "ps_wf P s \<Longrightarrow> p \<in> ps_points s \<Longrightarrow> length p = ndim s"
  by (auto simp: ps_wf_def ps_points_def box_wf_def box_points_iff)

lemma finite_ps_points [simp]: "finite (ps_points s)"
  by (simp add: ps_points_def)

lemma ps_is_empty_iff: "ps_wf P s \<Longrightarrow> ps_is_empty s \<longleftrightarrow> ps_points s = {}"
  by (cases "boxes s") (auto simp: ps_wf_def ps_is_empty_def ps_points_def box_points_empty)

lemma ps_intersect_exact:
  assumes "ps_wf P s" "ps_wf P t" "ndim s = ndim t"
  shows "\<exists>u. ps_intersect s t = Some u \<and> ps_wf P u \<and> ndim u = ndim s \<and> ps_points u = ps_points s \<inter> ps_points t"
proof -
  have b: "box_wf P (ndim s) (box_intersect a b) \<and> box_points (box_intersect a b) = box_points a \<inter> box_points b"
    if "a \<in> set (boxes s)" "b \<in> set (boxes t)" for a b
    using box_intersect_correct [of P "ndim s" a b] assms that by (auto simp: ps_wf_def)
  let ?bs = "concat (map (\<lambda>a. map (box_intersect a) (boxes t)) (boxes s))"
  have "ps_wf P (from_boxes (ndim s) ?bs)" using assms(1) b by (intro from_boxes_wf) (auto simp: ps_wf_def)
  moreover have "\<Union> (box_points ` set ?bs) = ps_points s \<inter> ps_points t"
    using b by (auto simp: ps_points_def)
  ultimately show ?thesis using assms(3) by (simp add: ps_intersect_def from_boxes_points)
qed

lemma ps_union_exact:
  assumes "ps_wf P s" "ps_wf P t" "ndim s = ndim t"
  shows "\<exists>u. ps_union s t = Some u \<and> ps_wf P u \<and> ndim u = ndim s \<and> ps_points u = ps_points s \<union> ps_points t"
proof -
  have "ps_wf P (from_boxes (ndim s) (boxes s @ boxes t))"
    using assms by (intro from_boxes_wf) (auto simp: ps_wf_def)
  moreover have "ps_points (from_boxes (ndim s) (boxes s @ boxes t)) = ps_points s \<union> ps_points t"
    unfolding from_boxes_points by (auto simp: ps_points_def)
  ultimately show ?thesis using assms(3) by (simp add: ps_union_def)
qed

lemma box_points_remove:
  assumes "box_wf P n b" "d < n" "\<forall>a \<in> set b. \<not> is_empty a"
  shows "box_points (remove_nth d b) = remove_nth d ` box_points b"
proof
  have len: "length b = n" using assms(1) by (simp add: box_wf_def)
  show "remove_nth d ` box_points b \<subseteq> box_points (remove_nth d b)"
  proof (rule image_subsetI)
    fix p assume p: "p \<in> box_points b"
    then have "length (remove_nth d p) = length (remove_nth d b)" using assms(2) len by (simp add: box_points_iff)
    moreover have "remove_nth d p ! i \<in> axis_points (remove_nth d b ! i)" if "i < n - 1" for i
      using p that assms(2) len by (simp add: box_points_iff nth_remove_nth)
    ultimately show "remove_nth d p \<in> box_points (remove_nth d b)"
      using assms(2) len by (simp add: box_points_iff)
  qed
  show "box_points (remove_nth d b) \<subseteq> remove_nth d ` box_points b"
  proof
    fix q assume q: "q \<in> box_points (remove_nth d b)"
    have "b ! d \<in> set b" using assms(2) len by simp
    then have "\<not> is_empty (b ! d)" using assms(3) by simp
    then obtain x where x: "x \<in> axis_points (b ! d)" using is_empty_iff [of "b ! d"] by (meson equals0I)
    let ?p = "take d q @ x # drop d q"
    have lq: "length q = n - 1" using q assms(2) len by (simp add: box_points_iff)
    have "q ! j \<in> axis_points (remove_nth d b ! j)" if "j < n - 1" for j
      using q that assms(2) len by (simp add: box_points_iff)
    then have q': "q ! j \<in> axis_points (if j < d then b ! j else b ! Suc j)" if "j < n - 1" for j
      using that assms(2) len by (simp add: nth_remove_nth)
    have "?p ! i \<in> axis_points (b ! i)" if "i < n" for i
    proof -
      consider "i < d" | "i = d" | j where "i = Suc j" "d \<le> j"
        by (metis linorder_neqE_nat less_eq_Suc_le Suc_le_D Suc_le_mono)
      then show ?thesis
      proof cases
        case 1
        then show ?thesis using q' [of i] that lq assms(2) by (simp add: nth_append)
      next
        case 2
        then show ?thesis using x lq assms(2) by (simp add: nth_append)
      next
        case 3
        then show ?thesis using q' [of j] that lq assms(2) by (simp add: nth_append)
      qed
    qed
    then have "?p \<in> box_points b" using lq assms(2) len by (auto simp: box_points_iff)
    moreover have "remove_nth d ?p = q" using lq assms(2) by (simp add: remove_nth_def min_def)
    ultimately show "q \<in> remove_nth d ` box_points b" by (metis imageI)
  qed
qed

lemma ps_project_out_exact:
  assumes "ps_wf P s" "d < ndim s"
  shows "\<exists>u. ps_project_out s d = Some u \<and> ps_wf P u \<and> ndim u = ndim s - 1 \<and>
    length (boxes u) = length (boxes s) \<and> ps_points u = remove_nth d ` ps_points s"
proof -
  have b: "box_wf P (ndim s - 1) (remove_nth d b) \<and> (\<forall>a \<in> set (remove_nth d b). \<not> is_empty a) \<and>
      box_points (remove_nth d b) = remove_nth d ` box_points b" if "b \<in> set (boxes s)" for b
    using that assms box_points_remove [of P "ndim s" b d] set_remove_nth [of d b]
    by (auto simp: ps_wf_def box_wf_def)
  let ?u = "from_boxes (ndim s - 1) (map (remove_nth d) (boxes s))"
  have "ps_wf P ?u" using assms b by (intro from_boxes_wf) (auto simp: ps_wf_def)
  moreover have "boxes ?u = map (remove_nth d) (boxes s)" using b by (auto simp: from_boxes_def filter_id_conv)
  moreover have "ps_points ?u = remove_nth d ` ps_points s"
    unfolding from_boxes_points using b by (simp add: ps_points_def image_UN image_image)
  ultimately show ?thesis using assms(2) by (simp add: ps_project_out_def)
qed


section \<open>Touched tiles\<close>

lemma listset_map2_image:
  assumes "length fs = length As"
  shows "listset (map2 (\<lambda>f A. f ` A) fs As) = map2 (\<lambda>f x. f x) fs ` listset As"
  using assms
proof (induction fs As rule: list_induct2)
  case (Cons f fs A As)
  show ?case unfolding zip_Cons_Cons list.map prod.case listset.simps Cons.IH
    by (force simp: set_Cons_def image_iff)
qed simp

abbreviation tile_of :: "nat \<Rightarrow> nat \<Rightarrow> nat" where
  "tile_of t x \<equiv> x div max t 1"

lemma tile_box_correct:
  assumes P: "0 < P" "P < index_bound" and wf: "box_wf P n b" and t: "length ts = n" "\<forall>t \<in> set ts. t \<le> index_bound"
  shows "box_wf P n (map2 tile_image b ts)"
    "box_points (map2 tile_image b ts) = map2 tile_of ts ` box_points b"
proof -
  have pt: "axis_wf P (tile_image (b ! i) (ts ! i)) \<and>
      axis_points (tile_image (b ! i) (ts ! i)) = tile_of (ts ! i) ` axis_points (b ! i)" if "i < n" for i
    using tile_image_correct [of P "b ! i" "ts ! i"] P wf t that by (auto simp: box_wf_def)
  then show "box_wf P n (map2 tile_image b ts)"
    using wf t by (auto simp: box_wf_def in_set_conv_nth)
  have "map axis_points (map2 tile_image b ts) = map2 (\<lambda>f A. f ` A) (map tile_of ts) (map axis_points b)"
    using pt wf t by (intro nth_equalityI) (auto simp: box_wf_def)
  then show "box_points (map2 tile_image b ts) = map2 tile_of ts ` box_points b"
    using listset_map2_image [of "map tile_of ts" "map axis_points b"] wf t
    by (simp add: box_points_def box_wf_def map2_map_map zip_map1 case_prod_unfold comp_def)
qed

lemma ps_touched_tiles_exact:
  assumes wf: "ps_wf P s" and t: "length ts = ndim s" "\<forall>t \<in> set ts. t \<le> index_bound"
    and c: "countable_set (length (boxes s)) (map2 tile_of ts ` ps_points s)"
  shows "ps_touched_tiles s ts = Some (card (map2 tile_of ts ` ps_points s))"
proof -
  let ?bs = "map (\<lambda>b. map2 tile_image b ts) (boxes s)"
  have b: "box_wf P (ndim s) (map2 tile_image b ts) \<and>
      box_points (map2 tile_image b ts) = map2 tile_of ts ` box_points b" if "b \<in> set (boxes s)" for b
    using tile_box_correct [OF _ _ _ t, of P b] wf that by (auto simp: ps_wf_def)
  then have U: "\<Union> (box_points ` set ?bs) = map2 tile_of ts ` ps_points s"
    by (simp add: ps_points_def image_UN image_image)
  have "inclusion_exclusion ?bs = Some (card (\<Union> (box_points ` set ?bs)))"
    using wf b c unfolding U [symmetric]
    by (intro inclusion_exclusion_correct [of P _ "ndim s"]) (auto simp: ps_wf_def)
  then show ?thesis using t unfolding U by (simp add: ps_touched_tiles_def)
qed

lemma ps_cardinality_exact:
  assumes "ps_wf P s" "countable_set (length (boxes s)) (ps_points s)"
  shows "ps_cardinality s = Some (card (ps_points s))"
  using inclusion_exclusion_correct [of P "boxes s" "ndim s"] assms
  by (simp add: ps_cardinality_def ps_points_def ps_wf_def)

section \<open>The product backend implements the contract\<close>

interpretation ps: index_set "ps_wf P" ndim ps_points "\<lambda>s. length (boxes s)" ps_is_empty
  ps_cardinality ps_intersect ps_union ps_project_out ps_touched_tiles for P
proof (unfold_locales, goal_cases)
  case (1 s p)
  then show ?case by (rule ps_points_length)
next
  case (2 s)
  show ?case by simp
next
  case (3 s)
  then show ?case by (rule ps_is_empty_iff)
next
  case (4 s)
  then show ?case by (rule ps_cardinality_exact)
next
  case (5 s t)
  then show ?case by (rule ps_intersect_exact)
next
  case (6 s t)
  then show ?case by (rule ps_union_exact)
next
  case (7 s d)
  then show ?case by (rule ps_project_out_exact)
next
  case (8 s ts)
  then show ?case by (rule ps_touched_tiles_exact)
qed

section \<open>Affine images\<close>

text \<open>The affine map as a function on index tuples.\<close>

definition affine_eval :: "AffineMap \<Rightarrow> nat list \<Rightarrow> int list" where
  "affine_eval m p = map2 (\<lambda>row b. sum_list (map2 (\<lambda>c x. c * int x) row p) + b) (matrix m) (offset m)"

definition affine_wf :: "AffineMap \<Rightarrow> bool" where
  "affine_wf m \<longleftrightarrow> length (offset m) = out_dim m \<and> (\<forall>row \<in> set (matrix m). length row = in_dim m)"

definition unit_row :: "nat \<Rightarrow> nat \<Rightarrow> int list" where
  "unit_row n k = map (\<lambda>c. if c = k then 1 else 0) [0..<n]"

lemma unit_row_dot: "k < length p \<Longrightarrow> sum_list (map2 (\<lambda>c x. c * int x) (unit_row (length p) k) p) = int (p ! k)"
proof -
  assume k: "k < length p"
  have "map2 (\<lambda>c x. c * int x) (unit_row (length p) k) p =
      map (\<lambda>i. if i = k then int (p ! i) else 0) [0..<length p]"
    by (intro nth_equalityI) (auto simp: unit_row_def)
  then show ?thesis using k by (simp add: interv_sum_list_conv_sum_set_nat atLeast0LessThan)
qed

lemma row_source_unit:
  "row_source src (enumerate k row) = Some (Some j) \<Longrightarrow>
     (src = Some j \<and> (\<forall>v \<in> set row. v = 0)) \<or>
     (src = None \<and> k \<le> j \<and> j < k + length row \<and> (\<forall>i < length row. row ! i = (if k + i = j then 1 else 0)))"
proof (induction row arbitrary: src k)
  case (Cons v row)
  show ?case
  proof (cases "v = 0")
    case True
    then show ?thesis using Cons.IH [of src "Suc k"] Cons.prems
      by (auto simp: nth_Cons split: nat.splits)
  next
    case False
    then have "v = 1" "src = None" "row_source (Some k) (enumerate (Suc k) row) = Some (Some j)"
      using Cons.prems by (auto split: if_splits)
    then show ?thesis using Cons.IH [of "Some k" "Suc k"] by (auto simp: nth_Cons split: nat.splits)
  qed
qed simp

lemma perm_rows_correct:
  assumes "perm_rows seen perm rows = Some (Some out)" "\<forall>row \<in> set rows. length row = length seen"
  shows "\<exists>srcs. out = perm @ srcs \<and> length srcs = length rows \<and> distinct srcs \<and>
    (\<forall>k \<in> set srcs. k < length seen \<and> \<not> seen ! k) \<and>
    (\<forall>i < length rows. rows ! i = unit_row (length seen) (srcs ! i))"
  using assms
proof (induction seen perm rows rule: perm_rows.induct)
  case (2 seen perm row rows)
  then obtain src where src: "row_source None (enumerate 0 row) = Some (Some src)" "src < length seen"
      "\<not> seen ! src" "perm_rows (seen[src := True]) (perm @ [src]) rows = Some (Some out)"
    by (auto split: option.splits if_splits simp: not_le)
  then obtain srcs where *: "out = perm @ src # srcs" "length srcs = length rows" "distinct srcs"
      "\<forall>k \<in> set srcs. k < length seen \<and> \<not> seen[src := True] ! k"
      "\<forall>i < length rows. rows ! i = unit_row (length seen) (srcs ! i)"
    using "2.IH" [OF src(1)] "2.prems"(2) by auto
  have "row = unit_row (length seen) src"
    using row_source_unit [OF src(1)] "2.prems"(2) by (intro nth_equalityI) (auto simp: unit_row_def)
  moreover have "src \<notin> set srcs" using *(4) src(2) by auto
  moreover have "\<forall>k \<in> set srcs. k < length seen \<and> \<not> seen ! k"
    using *(4) \<open>src \<notin> set srcs\<close> by (metis nth_list_update_neq)
  ultimately show ?case using * src(2,3)
    by (intro exI [of _ "src # srcs"]) (auto simp: nth_Cons split: nat.splits)
qed simp

lemma as_permutation_correct:
  assumes "as_permutation m = Some (Some perm)" "affine_wf m"
  shows "distinct perm" "set perm = {..<in_dim m}" "length perm = in_dim m" "out_dim m = in_dim m"
    "\<And>p. length p = in_dim m \<Longrightarrow> affine_eval m p = map (\<lambda>k. int (p ! k)) perm"
proof -
  have o: "out_dim m = in_dim m" "\<forall>b \<in> set (offset m). b = 0"
    and r: "perm_rows (replicate (in_dim m) False) [] (matrix m) = Some (Some perm)"
    using assms(1) by (auto simp: as_permutation_def Let_def split: if_splits)
  have p: "length perm = in_dim m" "distinct perm" "\<forall>k \<in> set perm. k < in_dim m"
    "\<forall>i < in_dim m. matrix m ! i = unit_row (in_dim m) (perm ! i)"
    using perm_rows_correct [OF r] assms(2) o(1) by (auto simp: affine_wf_def out_dim_def)
  show "distinct perm" "length perm = in_dim m" "out_dim m = in_dim m" using p o by auto
  show "set perm = {..<in_dim m}"
    using p by (intro card_subset_eq) (auto simp: distinct_card)
  show "affine_eval m p = map (\<lambda>k. int (p ! k)) perm" if "length p = in_dim m" for p
  proof (rule nth_equalityI)
    show "length (affine_eval m p) = length (map (\<lambda>k. int (p ! k)) perm)"
      using p o assms(2) by (simp add: affine_eval_def affine_wf_def out_dim_def)
    show "affine_eval m p ! i = map (\<lambda>k. int (p ! k)) perm ! i" if "i < length (affine_eval m p)" for i
    proof -
      have i: "i < length (matrix m)" "i < length (offset m)" using that by (auto simp: affine_eval_def)
      then have i': "i < in_dim m" using o by (simp add: out_dim_def)
      have "offset m ! i = 0" using o(2) i(2) by (metis nth_mem)
      then show ?thesis
        using i i' p unit_row_dot [of "perm ! i" p] \<open>length p = in_dim m\<close> by (simp add: affine_eval_def)
    qed
  qed
qed

lemma box_points_permute:
  assumes "distinct perm" "set perm = {..<n}" "length b = n"
  shows "box_points (map ((!) b) perm) = (\<lambda>p. map ((!) p) perm) ` box_points b"
proof
  have lp: "length perm = n" using assms by (metis card_lessThan distinct_card)
  have lt: "perm ! i < n" if "i < n" for i using assms that lp by (metis lessThan_iff nth_mem)
  show "(\<lambda>p. map ((!) p) perm) ` box_points b \<subseteq> box_points (map ((!) b) perm)"
    using lt lp assms(3) by (auto simp: box_points_iff)
  show "box_points (map ((!) b) perm) \<subseteq> (\<lambda>p. map ((!) p) perm) ` box_points b"
  proof
    fix q assume q: "q \<in> box_points (map ((!) b) perm)"
    define inv where "inv j = the_inv_into {..<n} ((!) perm) j" for j
    have inj: "inj_on ((!) perm) {..<n}" using assms(1) lp by (simp add: inj_on_nth)
    have img: "(!) perm ` {..<n} = {..<n}" using assms(2) lp nth_image [of n perm] by (simp add: lessThan_atLeast0)
    have inv: "inv j < n" "perm ! inv j = j" if "j < n" for j
      using the_inv_into_into [OF inj, of j "{..<n}"] f_the_inv_into_f [OF inj, of j] that img
      by (auto simp: inv_def)
    have inv2: "inv (perm ! i) = i" if "i < n" for i
      using the_inv_into_f_f [OF inj] that by (simp add: inv_def)
    let ?p = "map (\<lambda>j. q ! inv j) [0..<n]"
    have "?p \<in> box_points b"
      using q inv lp assms(3) by (force simp: box_points_iff)
    moreover have "map ((!) ?p) perm = q"
      using q inv2 lt lp by (intro nth_equalityI) (auto simp: box_points_iff)
    ultimately show "q \<in> (\<lambda>p. map ((!) p) perm) ` box_points b" by (metis imageI)
  qed
qed

lemma is_identity_eval:
  assumes "is_identity m" "affine_wf m" "length p = in_dim m"
  shows "affine_eval m p = map int p"
proof -
  have rows: "matrix m ! i = unit_row (in_dim m) i" if "i < in_dim m" for i
  proof (rule nth_equalityI)
    have len: "length (matrix m ! i) = in_dim m" if "i < in_dim m" for i
      using assms that by (auto simp: is_identity_def affine_wf_def out_dim_def)
    show "length (matrix m ! i) = length (unit_row (in_dim m) i)" using len that by (simp add: unit_row_def)
    show "matrix m ! i ! c = unit_row (in_dim m) i ! c" if "c < length (matrix m ! i)" for c
    proof -
      have "(i, matrix m ! i) \<in> set (enumerate 0 (matrix m))" "(c, matrix m ! i ! c) \<in> set (enumerate 0 (matrix m ! i))"
        using assms(1) that \<open>i < in_dim m\<close> by (auto simp: is_identity_def out_dim_def in_set_enumerate_eq)
      then have "matrix m ! i ! c = (if i = c then 1 else 0)" using assms(1) unfolding is_identity_def by fast
      then show ?thesis using that len [OF \<open>i < in_dim m\<close>] by (auto simp: unit_row_def)
    qed
  qed
  have "\<forall>b \<in> set (offset m). b = 0" "length (offset m) = in_dim m" "length (matrix m) = in_dim m"
    using assms by (auto simp: is_identity_def affine_wf_def out_dim_def)
  then show ?thesis
    using rows unit_row_dot [of _ p] assms(3) by (intro nth_equalityI) (auto simp: affine_eval_def)
qed

lemma ps_apply_exact:
  assumes wf: "ps_wf P s" and m: "affine_wf m" and r: "ps_apply s m = Some (Some u)"
  shows "ps_wf P u \<and> ndim u = out_dim m \<and> map int ` ps_points u = affine_eval m ` ps_points s"
proof (cases "is_identity m")
  case True
  then have "affine_eval m p = map int p" if "p \<in> ps_points s" for p
    using is_identity_eval [OF True m] ps_points_length [OF wf that] r by (auto simp: ps_apply_def split: if_splits)
  then have "map int ` ps_points s = affine_eval m ` ps_points s" by (simp cong: image_cong)
  then show ?thesis using wf r True by (auto simp: ps_apply_def is_identity_def split: if_splits)
next
  case False
  obtain perm where d: "in_dim m = ndim s" and perm: "as_permutation m = Some (Some perm)"
    and u: "u = from_boxes (out_dim m) (map (\<lambda>b. map (\<lambda>src. b ! src) perm) (boxes s))"
    using r False by (auto simp: ps_apply_def split: if_splits option.splits)
  note p = as_permutation_correct [OF perm m]
  have b: "box_wf P (out_dim m) (map ((!) b) perm)" "box_points (map ((!) b) perm) = (\<lambda>p. map ((!) p) perm) ` box_points b"
    if "b \<in> set (boxes s)" for b
    using that wf p box_points_permute [OF p(1,2), of b] d by (auto simp: ps_wf_def box_wf_def)
  have "ps_wf P u" unfolding u using wf b(1) by (intro from_boxes_wf) (auto simp: ps_wf_def)
  moreover have "ps_points u = (\<lambda>p. map ((!) p) perm) ` ps_points s"
    unfolding u from_boxes_points using b by (simp add: ps_points_def image_UN image_image)
  moreover have "map int (map ((!) p) perm) = affine_eval m p" if "p \<in> ps_points s" for p
    using p(5) [of p] ps_points_length [OF wf that] d by (simp add: comp_def)
  ultimately show ?thesis using u by (simp add: image_image cong: image_cong)
qed

section \<open>Properties\<close>

text \<open>Two concrete sets: a slab of a \<open>4 \<times> 3\<close> grid, and a union of a strided box with an index list.\<close>

definition demo_slab :: ProductSet where
  "demo_slab = \<lparr>ndim = 2, boxes = [[Ap 0 1 4, Ap 1 1 2]]\<rparr>"

definition demo_union :: ProductSet where
  "demo_union = \<lparr>ndim = 2, boxes = [[Ap 0 2 2, Ap 0 1 3], [Indices [1, 3], Indices [0, 2]]]\<rparr>"

lemma demo_wf: "ps_wf 2 demo_slab" "ps_wf 2 demo_union" "ndim demo_slab = 2" "ndim demo_union = 2"
  by (auto simp: ps_wf_def box_wf_def is_empty_def index_bound_def demo_slab_def demo_union_def)

lemma demo_points: "ps_points demo_slab = listset [{0, 1, 2, 3}, {1, 2}]"
  "ps_points demo_union = listset [{0, 2}, {0, 1, 2}] \<union> listset [{1, 3}, {0, 2}]"
proof -
  have sets: "axis_points (Ap 0 1 4) = {0, 1, 2, 3}" "axis_points (Ap 1 1 2) = {1, 2}"
    "axis_points (Ap 0 2 2) = {0, 2}" "axis_points (Ap 0 1 3) = {0, 1, 2}"
    by (auto simp: upt_rec)
  have "ps_points demo_slab = listset (map axis_points [Ap 0 1 4, Ap 1 1 2])"
    by (simp add: demo_slab_def ps_points_def box_points_def)
  then show "ps_points demo_slab = listset [{0, 1, 2, 3}, {1, 2}]" unfolding list.map sets .
  have "ps_points demo_union = listset (map axis_points [Ap 0 2 2, Ap 0 1 3]) \<union>
      listset (map axis_points [Indices [1, 3], Indices [0, 2]])"
    by (simp add: demo_union_def ps_points_def box_points_def Un_commute)
  then show "ps_points demo_union = listset [{0, 2}, {0, 1, 2}] \<union> listset [{1, 3}, {0, 2}]"
    unfolding list.map sets members.simps(2) list.set .
qed

lemma demo_card: "card (ps_points demo_slab) = 8"
  unfolding demo_points by (subst card_listset) auto

lemma demo_countable: "countable_set (length (boxes demo_slab)) (ps_points demo_slab)"
  unfolding countable_set_def demo_card by (simp add: demo_slab_def)

text \<open>C18: the set operations of a product set are exact: intersection, union and projection return
  a set that keeps the invariant and denotes the set intersection, the set union, and the
  index tuples with one axis dropped.\<close>

theorem product_set_algebra:
  assumes "ps_wf P s" "ps_wf P t" "ndim s = ndim t" "d < ndim s"
  shows "(\<exists>u. ps_intersect s t = Some u \<and> ps_wf P u \<and> ndim u = ndim s \<and> ps_points u = ps_points s \<inter> ps_points t) \<and>
    (\<exists>u. ps_union s t = Some u \<and> ps_wf P u \<and> ndim u = ndim s \<and> ps_points u = ps_points s \<union> ps_points t) \<and>
    (\<exists>u. ps_project_out s d = Some u \<and> ps_wf P u \<and> ndim u = ndim s - 1 \<and> ps_points u = remove_nth d ` ps_points s)"
  using ps.inter_exact [OF assms(1-3)] ps.uni_exact [OF assms(1-3)] ps.project_exact [OF assms(1,4)] by blast

theorem product_set_algebra_witness:
  "\<exists>u. ps_intersect demo_slab demo_union = Some u \<and>
     ps_points u = listset [{0, 1, 2, 3}, {1, 2}] \<inter> (listset [{0, 2}, {0, 1, 2}] \<union> listset [{1, 3}, {0, 2}])"
  using product_set_algebra [OF demo_wf(1,2), of 0] unfolding demo_wf(3,4) demo_points by auto

text \<open>C14: the cardinality of a union of boxes is the exact number of distinct points, for fewer than 32
  boxes and a count that fits \<open>u128\<close>.\<close>

theorem cardinality_counts_points:
  assumes "ps_wf P s" "length (boxes s) < 32" "card (ps_points s) < 2 ^ 128"
  shows "ps_cardinality s = Some (card (ps_points s))"
  using ps.cardinality_exact [OF assms(1)] assms(2,3) by (simp add: countable_set_def)

theorem cardinality_counts_points_witness: "ps_cardinality demo_slab = Some 8"
  using cardinality_counts_points [OF demo_wf(1)] unfolding demo_card by (simp add: demo_slab_def)

text \<open>C15: the touched-tile count is the exact number of distinct chunks that hold a selected point.\<close>

theorem touched_tiles_exact:
  assumes "ps_wf P s" "length ts = ndim s" "\<forall>t \<in> set ts. t \<le> index_bound"
    "length (boxes s) < 32" "card (map2 tile_of ts ` ps_points s) < 2 ^ 128"
  shows "ps_touched_tiles s ts = Some (card (map2 tile_of ts ` ps_points s))"
  using ps.tiles_exact [OF assms(1-3)] assms(4,5) by (simp add: countable_set_def)

theorem touched_tiles_exact_witness:
  "ps_touched_tiles demo_slab [2, 2] = Some (card (map2 tile_of [2, 2] ` ps_points demo_slab))"
proof (rule touched_tiles_exact [OF demo_wf(1)])
  have "card (map2 tile_of [2, 2] ` ps_points demo_slab) \<le> card (ps_points demo_slab)"
    by (rule card_image_le) simp
  then show "card (map2 tile_of [2, 2] ` ps_points demo_slab) < 2 ^ 128"
    using demo_countable by (simp add: countable_set_def)
qed (simp_all add: demo_slab_def index_bound_def)

text \<open>applying an affine map either is declined or gives exactly the image of the set under the map.\<close>

theorem apply_is_image:
  assumes "ps_wf P s" "affine_wf m" "ps_apply s m = Some (Some u)"
  shows "ps_wf P u \<and> ndim u = out_dim m \<and> map int ` ps_points u = affine_eval m ` ps_points s"
  using ps_apply_exact [OF assms] .

theorem apply_is_image_witness:
  "\<exists>u. ps_apply demo_slab \<lparr>matrix = [[0, 1], [1, 0]], offset = [0, 0]\<rparr> = Some (Some u) \<and>
     map int ` ps_points u = affine_eval \<lparr>matrix = [[0, 1], [1, 0]], offset = [0, 0]\<rparr> ` ps_points demo_slab"
proof -
  let ?m = "\<lparr>matrix = [[0, 1], [1, 0]], offset = [0, 0]\<rparr>"
  obtain u where "ps_apply demo_slab ?m = Some (Some u)"
    by (auto simp: ps_apply_def demo_slab_def in_dim_def is_identity_def as_permutation_def out_dim_def Let_def
        numeral_2_eq_2)
  then show ?thesis using apply_is_image [OF demo_wf(1), of ?m u] by (simp add: affine_wf_def out_dim_def in_dim_def)
qed

end
