(* ===== verification/Group_Card.thy ===== *)
theory Group_Card
  imports Product_Set
begin

text \<open>
  Exact group cardinality (\<open>src/optimizer/cardinality/group.rs\<close>): the number of output groups a
  selection produces under \<open>GROUP BY\<close> keys.  The lemmas show it equal to the number of distinct
  key tuples when every key is an axis, and an upper bound when some key is periodic.
\<close>

section \<open>Definitions\<close>

datatype GroupKey =
    Axis nat
  | Periodic nat nat

fun GroupKey_axis :: "GroupKey \<Rightarrow> nat" where
  "GroupKey_axis (Axis a) = a"
| "GroupKey_axis (Periodic a p) = a"

fun is_Axis :: "GroupKey \<Rightarrow> bool" where
  "is_Axis (Axis a) = True"
| "is_Axis (Periodic a p) = False"

definition project_onto :: "ProductSet \<Rightarrow> nat list \<Rightarrow> ProductSet option" where
  "project_onto sel keep_axes =
     fold (\<lambda>axis cur. if axis \<in> set keep_axes then cur else Option.bind cur (\<lambda>c. ps_project_out c axis))
       (rev [0..<ndim sel]) (Some sel)"

definition axis_selected_count :: "ProductSet \<Rightarrow> nat \<Rightarrow> nat option" where
  "axis_selected_count sel axis = Option.bind (project_onto sel [axis]) ps_cardinality"

fun key_count :: "ProductSet \<Rightarrow> GroupKey \<Rightarrow> nat option" where
  "key_count sel (Axis a) = axis_selected_count sel a"
| "key_count sel (Periodic a p) = map_option (\<lambda>n. min n p) (axis_selected_count sel a)"

definition group_cardinality :: "ProductSet \<Rightarrow> GroupKey list \<Rightarrow> nat option" where
  "group_cardinality sel keys =
     (if keys = [] then Some 1
      else if ps_is_empty sel then Some 0
      else if list_all is_Axis keys then
        Option.bind (project_onto sel (map GroupKey_axis keys)) ps_cardinality
      else foldl (\<lambda>acc k. Option.bind acc (\<lambda>n. map_option (\<lambda>c. u128 (int n * int c)) (key_count sel k)))
             (Some 1) keys)"

section \<open>Projection onto a set of axes\<close>

lemma nths_as_map: "nths p A = map ((!) p) (filter (\<lambda>i. i \<in> A) [0..<length p])"
proof -
  have "zip p [0..<length p] = map (\<lambda>i. (p ! i, i)) [0..<length p]"
    by (intro nth_equalityI) auto
  then show ?thesis by (simp add: nths_def filter_map comp_def)
qed

lemma nths_eq_iff:
  assumes "length p = n" "length q = n" "K \<subseteq> {..<n}"
  shows "nths p K = nths q K \<longleftrightarrow> (\<forall>k \<in> K. p ! k = q ! k)"
  using assms by (auto simp: nths_as_map)

text \<open>Two views of the same points that identify the same pairs have the same number of values.\<close>

lemma card_image_same_kernel:
  assumes "\<And>x y. x \<in> S \<Longrightarrow> y \<in> S \<Longrightarrow> f x = f y \<longleftrightarrow> g x = g y"
  shows "card (f ` S) = card (g ` S)"
proof -
  let ?h = "(\<lambda>x. (f x, g x)) ` S"
  have "inj_on fst ?h" "inj_on snd ?h" using assms by (auto simp: inj_on_def)
  then have "card (fst ` ?h) = card (snd ` ?h)" by (simp add: card_image)
  then show ?thesis by (simp add: image_image)
qed

lemma project_onto_exact:
  assumes "ps_wf P s"
  shows "\<exists>u. project_onto s ks = Some u \<and> ps_wf P u \<and> length (boxes u) = length (boxes s) \<and>
    ps_points u = (\<lambda>p. nths p (set ks)) ` ps_points s"
  using ps.project_keep [OF assms, of 0 "set ks"] by (simp add: project_onto_def)

text \<open>The key tuple of a cell, when every key is an axis.\<close>

abbreviation axis_tuple :: "nat list \<Rightarrow> nat list \<Rightarrow> nat list" where
  "axis_tuple ks p \<equiv> map ((!) p) ks"

lemma card_project_tuple:
  assumes "ps_wf P s" "\<forall>k \<in> set ks. k < ndim s"
  shows "card ((\<lambda>p. nths p (set ks)) ` ps_points s) = card (axis_tuple ks ` ps_points s)"
proof (rule card_image_same_kernel)
  fix p q assume "p \<in> ps_points s" "q \<in> ps_points s"
  then show "nths p (set ks) = nths q (set ks) \<longleftrightarrow> axis_tuple ks p = axis_tuple ks q"
    using nths_eq_iff [of p "ndim s" q "set ks"] ps_points_length [OF assms(1)] assms(2) by auto
qed

lemma project_onto_card:
  assumes wf: "ps_wf P s" and ks: "\<forall>k \<in> set ks. k < ndim s"
    and c: "countable_set (length (boxes s)) (axis_tuple ks ` ps_points s)"
  shows "Option.bind (project_onto s ks) ps_cardinality = Some (card (axis_tuple ks ` ps_points s))"
proof -
  obtain u where u: "project_onto s ks = Some u" "ps_wf P u" "length (boxes u) = length (boxes s)"
      "ps_points u = (\<lambda>p. nths p (set ks)) ` ps_points s"
    using project_onto_exact [OF wf] by blast
  then show ?thesis
    using ps.cardinality_exact [OF u(2)] c card_project_tuple [OF wf ks] by (simp add: countable_set_def)
qed

lemma axis_selected_count_exact:
  assumes "ps_wf P s" "a < ndim s" "countable_set (length (boxes s)) ((\<lambda>p. p ! a) ` ps_points s)"
  shows "axis_selected_count s a = Some (card ((\<lambda>p. p ! a) ` ps_points s))"
proof -
  have "card (axis_tuple [a] ` ps_points s) = card ((\<lambda>p. p ! a) ` ps_points s)"
    by (rule card_image_same_kernel) auto
  then show ?thesis using project_onto_card [of P s "[a]"] assms
    by (simp add: axis_selected_count_def countable_set_def)
qed

section \<open>The group count\<close>

lemma group_cardinality_axes:
  assumes wf: "ps_wf P s" and ks: "\<forall>k \<in> set ks. k < ndim s"
    and c: "countable_set (length (boxes s)) (axis_tuple ks ` ps_points s)"
    and ne: "ks \<noteq> []"
  shows "group_cardinality s (map Axis ks) = Some (card (axis_tuple ks ` ps_points s))"
proof (cases "ps_is_empty s")
  case True
  then have "ps_points s = {}" using ps_is_empty_iff [OF wf] by simp
  then show ?thesis using True ne by (simp add: group_cardinality_def)
next
  case False
  have "list_all is_Axis (map Axis ks)" by (simp add: list_all_iff)
  moreover have "map GroupKey_axis (map Axis ks) = ks" by (simp add: comp_def)
  ultimately show ?thesis using False ne project_onto_card [OF wf ks c]
    by (simp add: group_cardinality_def)
qed

text \<open>What a key is worth on one cell: an arbitrary function of the index for an axis key, a
  function with at most \<open>period\<close> values for a periodic one.\<close>

fun key_fun_ok :: "(GroupKey \<Rightarrow> nat \<Rightarrow> 'g) \<Rightarrow> GroupKey \<Rightarrow> bool" where
  "key_fun_ok h (Axis a) = True"
| "key_fun_ok h (Periodic a p) \<longleftrightarrow> finite (range (h (Periodic a p))) \<and> card (range (h (Periodic a p))) \<le> p"

definition group_tuple :: "(GroupKey \<Rightarrow> nat \<Rightarrow> 'g) \<Rightarrow> GroupKey list \<Rightarrow> nat list \<Rightarrow> 'g list" where
  "group_tuple h keys p = map (\<lambda>k. h k (p ! GroupKey_axis k)) keys"

abbreviation key_bound :: "nat list set \<Rightarrow> GroupKey \<Rightarrow> nat" where
  "key_bound S k \<equiv> (let n = card ((\<lambda>p. p ! GroupKey_axis k) ` S) in
     case k of Axis a \<Rightarrow> n | Periodic a p \<Rightarrow> min n p)"

lemma key_values_bound:
  assumes "finite S" "key_fun_ok h k"
  shows "card ((\<lambda>p. h k (p ! GroupKey_axis k)) ` S) \<le> key_bound S k"
proof -
  have n: "card ((\<lambda>p. h k (p ! GroupKey_axis k)) ` S) \<le> card ((\<lambda>p. p ! GroupKey_axis k) ` S)"
    using card_image_le [of "(\<lambda>p. p ! GroupKey_axis k) ` S" "h k"] assms(1) by (simp add: image_image)
  show ?thesis
  proof (cases k)
    case (Periodic a p)
    have "card ((\<lambda>q. h k (q ! GroupKey_axis k)) ` S) \<le> card (range (h k))"
      using assms(2) Periodic by (intro card_mono) auto
    then show ?thesis using n assms(2) Periodic by simp
  qed (use n in simp)
qed

lemma prod_list_mono_nat: "(\<And>x. x \<in> set xs \<Longrightarrow> f x \<le> g x) \<Longrightarrow> prod_list (map f xs) \<le> (prod_list (map g xs) :: nat)"
  by (induction xs) (auto intro: mult_mono)

lemma group_tuples_bound:
  assumes "finite S" "\<forall>k \<in> set keys. key_fun_ok h k"
  shows "card (group_tuple h keys ` S) \<le> prod_list (map (key_bound S) keys)"
proof -
  let ?A = "map (\<lambda>k. (\<lambda>p. h k (p ! GroupKey_axis k)) ` S) keys"
  have "group_tuple h keys ` S \<subseteq> listset ?A" by (auto simp: listset_iff group_tuple_def)
  moreover have fin: "finite (listset ?A)" using assms(1) by (intro finite_listset) auto
  ultimately have "card (group_tuple h keys ` S) \<le> card (listset ?A)" by (simp add: card_mono)
  also have "\<dots> = prod_list (map (\<lambda>k. card ((\<lambda>p. h k (p ! GroupKey_axis k)) ` S)) keys)"
    using assms(1) by (subst card_listset) (auto simp: comp_def)
  also have "\<dots> \<le> prod_list (map (key_bound S) keys)"
    using key_values_bound [OF assms(1)] assms(2) by (intro prod_list_mono_nat) blast
  finally show ?thesis .
qed

lemma foldl_product:
  assumes "\<And>k. k \<in> set keys \<Longrightarrow> f k = Some (c k)" "n * prod_list (map c keys) < 2 ^ 128"
    "\<And>k. k \<in> set keys \<Longrightarrow> 0 < c k"
  shows "foldl (\<lambda>acc k. Option.bind acc (\<lambda>n. map_option (\<lambda>c. u128 (int n * int c)) (f k))) (Some n) keys =
    Some (n * prod_list (map c keys))"
  using assms
proof (induction keys arbitrary: n)
  case (Cons k keys)
  have pos: "0 < prod_list (map c keys)" using Cons.prems(3) by (induction keys) auto
  then have "n * c k \<le> n * c k * prod_list (map c keys)" by simp
  also have "\<dots> < 2 ^ 128" using Cons.prems(2) by (simp add: mult.assoc)
  finally have lt: "n * c k < 2 ^ 128" .
  then have "u128 (int n * int (c k)) = n * c k" using u128_of_nat [of "n * c k"] by simp
  then show ?case using Cons.IH [of "n * c k"] Cons.prems by (simp add: mult.assoc)
qed simp

lemma countable_axis:
  assumes "finite S" "countable_set d S" shows "countable_set d (f ` S)"
  using card_image_le [OF assms(1), of f] assms(2) by (simp add: countable_set_def)

lemma key_count_exact:
  assumes "ps_wf P s" "GroupKey_axis k < ndim s" "countable_set (length (boxes s)) (ps_points s)"
  shows "key_count s k = Some (key_bound (ps_points s) k)"
  using axis_selected_count_exact [OF assms(1,2) countable_axis [OF _ assms(3)]]
  by (cases k) simp_all

lemma group_cardinality_periodic:
  assumes wf: "ps_wf P s" and ks: "\<forall>k \<in> set keys. GroupKey_axis k < ndim s" and per: "\<not> list_all is_Axis keys"
    and c: "countable_set (length (boxes s)) (ps_points s)" and pos: "\<forall>k \<in> set keys. 0 < key_bound (ps_points s) k"
    and fits: "prod_list (map (key_bound (ps_points s)) keys) < 2 ^ 128"
  shows "group_cardinality s keys = Some (prod_list (map (key_bound (ps_points s)) keys))"
proof -
  obtain k where k: "k \<in> set keys" using per by (cases keys) auto
  then have "0 < key_bound (ps_points s) k" using pos by blast
  then have "ps_points s \<noteq> {}" by (cases k) auto
  then have "\<not> ps_is_empty s" using ps_is_empty_iff [OF wf] by simp
  moreover have "keys \<noteq> []" using k by auto
  ultimately show ?thesis
    using foldl_product [of keys "key_count s" "key_bound (ps_points s)" 1] key_count_exact [OF wf _ c] ks pos fits per
    by (simp add: group_cardinality_def)
qed

section \<open>Properties\<close>

text \<open>C19: grouping by coordinate axes, the group count is exact: the number of distinct key tuples among
  the selected cells.\<close>

theorem group_count_exact:
  assumes "ps_wf P s" "\<forall>k \<in> set ks. k < ndim s" "ks \<noteq> []"
    "length (boxes s) < 32" "card (axis_tuple ks ` ps_points s) < 2 ^ 128"
  shows "group_cardinality s (map Axis ks) = Some (card (axis_tuple ks ` ps_points s))"
  using group_cardinality_axes [OF assms(1,2) _ assms(3)] assms(4,5) by (simp add: countable_set_def)

theorem group_count_exact_witness:
  "group_cardinality demo_slab [Axis 0] = Some (card (axis_tuple [0] ` ps_points demo_slab))"
proof -
  have "card (axis_tuple [0] ` ps_points demo_slab) \<le> card (ps_points demo_slab)"
    by (rule card_image_le) simp
  then show ?thesis using group_count_exact [OF demo_wf(1), of "[0]"] demo_countable demo_wf(3)
    by (simp add: countable_set_def)
qed

text \<open>with periodic keys the count is an upper bound on the number of groups, for every way of
  deriving the keys from the coordinates in which a periodic key has at most \<open>period\<close> values.\<close>

theorem group_count_bounds_periodic:
  assumes "ps_wf P s" "\<forall>k \<in> set keys. GroupKey_axis k < ndim s" "\<not> list_all is_Axis keys"
    "length (boxes s) < 32" "card (ps_points s) < 2 ^ 128" "\<forall>k \<in> set keys. key_fun_ok h k"
    "\<forall>k \<in> set keys. 0 < key_bound (ps_points s) k" "prod_list (map (key_bound (ps_points s)) keys) < 2 ^ 128"
  shows "\<exists>n. group_cardinality s keys = Some n \<and> card (group_tuple h keys ` ps_points s) \<le> n"
  using group_cardinality_periodic [OF assms(1-3) _ assms(7,8)] group_tuples_bound [OF _ assms(6)] assms(4,5)
  by (simp add: countable_set_def)

theorem group_count_bounds_periodic_witness:
  "\<exists>n. group_cardinality demo_slab [Periodic 0 2] = Some n \<and>
     card (group_tuple (\<lambda>k x. x mod 2) [Periodic 0 2] ` ps_points demo_slab) \<le> n"
proof (rule group_count_bounds_periodic [OF demo_wf(1)])
  have r: "range (\<lambda>x::nat. x mod 2) \<subseteq> {0, 1}" by auto
  then have "finite (range (\<lambda>x::nat. x mod 2))" by (rule finite_subset) simp
  moreover have "card (range (\<lambda>x::nat. x mod 2)) \<le> card {0, 1 :: nat}" using r by (intro card_mono) auto
  ultimately show "\<forall>k \<in> set [Periodic 0 2]. key_fun_ok (\<lambda>k x. x mod 2) k" by simp
  have "ps_points demo_slab \<noteq> {}" using demo_card by auto
  then have pos: "0 < card ((\<lambda>p. p ! 0) ` ps_points demo_slab)" by (simp add: card_gt_0_iff)
  then show "\<forall>k \<in> set [Periodic 0 2]. 0 < key_bound (ps_points demo_slab) k" by simp
  show "prod_list (map (key_bound (ps_points demo_slab)) [Periodic 0 2]) < 2 ^ 128"
    by (simp add: Let_def min_def)
qed (use demo_countable demo_wf in \<open>simp_all add: countable_set_def\<close>)

end
