(* ===== verification/Budget.thy ===== *)
theory Budget
  imports Product_Set
begin

text \<open>
  The deterministic cost model and the memory budget (\<open>src/optimizer/cardinality/cost.rs\<close> and
  \<open>budget.rs\<close>): bytes read and resident, admission, and the streaming tile schedule with its
  chunk alignment.  The lemmas show that a schedule covers the selection within the row target,
  that alignment only shrinks batches, and that aligned tiles read every chunk exactly once.
\<close>

section \<open>Scan cost\<close>

text \<open>The Arrow types the width table tells apart; every other type is \<open>OtherType\<close>.\<close>

datatype DataType =
    BooleanT | Int8 | UInt8 | Int16 | UInt16 | Float16 | Int32 | UInt32 | Float32 | Date32 | Time32
  | Int64 | UInt64 | Float64 | Date64 | Time64 | Timestamp | Duration
  | Dictionary DataType DataType
  | OtherType string

fun dtype_width :: "DataType \<Rightarrow> nat" where
  "dtype_width (Dictionary key v) = dtype_width key"
| "dtype_width dt =
     (if dt \<in> {BooleanT, Int8, UInt8} then 1
      else if dt \<in> {Int16, UInt16, Float16} then 2
      else if dt \<in> {Int32, UInt32, Float32, Date32, Time32} then 4
      else 8)"

definition row_width :: "DataType list \<Rightarrow> nat" where
  "row_width schema = sum_list (map dtype_width schema)"

definition chunk_bytes :: "nat list \<Rightarrow> nat \<Rightarrow> nat" where
  "chunk_bytes cshape elem_width = u128 (int (product_u128 cshape) * int elem_width)"

definition bytes_read :: "nat \<Rightarrow> nat \<Rightarrow> nat" where
  "bytes_read touched_chunks cbytes = u128 (int touched_chunks * int cbytes)"

record ScanCost =
  sc_rows :: nat
  sc_touched_chunks :: nat
  sc_bytes_read :: nat
  sc_peak_bytes :: nat

definition peak_bytes :: "nat \<Rightarrow> nat \<Rightarrow> nat \<Rightarrow> bool \<Rightarrow> nat \<Rightarrow> nat" where
  "peak_bytes rows inner_rows batch_size single_batch_fallback rwidth =
     (let max_batch_rows = (if single_batch_fallback then rows else max batch_size inner_rows)
      in u128 (int max_batch_rows * int rwidth))"

definition estimate_scan_cost ::
  "ProductSet \<Rightarrow> nat list \<Rightarrow> nat \<Rightarrow> nat \<Rightarrow> nat \<Rightarrow> nat \<Rightarrow> bool \<Rightarrow> ScanCost option" where
  "estimate_scan_cost sel cshape elem_width rwidth inner_rows batch_size single_batch_fallback =
     Option.bind (ps_cardinality sel) (\<lambda>rows.
     Option.bind (ps_touched_tiles sel cshape) (\<lambda>touched.
     Some \<lparr>sc_rows = rows,
           sc_touched_chunks = touched,
           sc_bytes_read = bytes_read touched (chunk_bytes cshape elem_width),
           sc_peak_bytes = peak_bytes rows inner_rows batch_size single_batch_fallback rwidth\<rparr>))"

section \<open>Budget and admission\<close>

record MemoryBudget =
  budget_bytes :: nat

definition DEFAULT_SCAN_MEMORY_LIMIT :: nat where
  "DEFAULT_SCAN_MEMORY_LIMIT = 256 * 1024 * 1024"

definition resolve_scan_ceiling :: "nat option \<Rightarrow> nat \<Rightarrow> nat" where
  "resolve_scan_ceiling explicit partitions =
     (let tot = (case explicit of Some b \<Rightarrow> b | None \<Rightarrow> DEFAULT_SCAN_MEMORY_LIMIT)
      in max (tot div max partitions 1) 1)"

text \<open>\<open>slice::get(i).copied().unwrap_or(1)\<close>.\<close>

definition get_or_one :: "nat list \<Rightarrow> nat \<Rightarrow> nat" where
  "get_or_one xs i = (if i < length xs then xs ! i else 1)"

definition chunk_row_bytes :: "nat list \<Rightarrow> nat list \<Rightarrow> nat \<Rightarrow> nat" where
  "chunk_row_bytes sizes align rwidth =
     (case sizes of
        [] \<Rightarrow> 0
      | s0 # rest \<Rightarrow>
          let outer = min (max (get_or_one align 0) 1) s0;
              inner = product_u128 (map (\<lambda>s. max s 1) rest)
          in u128 (int (u128 (int outer * int inner)) * int (max rwidth 1)))"

record Infeasible =
  inf_peak_bytes :: nat
  inf_budget_bytes :: nat

definition admit :: "ScanCost \<Rightarrow> MemoryBudget \<Rightarrow> Infeasible + unit" where
  "admit cost budget =
     (if sc_peak_bytes cost \<le> budget_bytes budget then Inr ()
      else Inl \<lparr>inf_peak_bytes = sc_peak_bytes cost, inf_budget_bytes = budget_bytes budget\<rparr>)"

definition decide_single_batch :: "bool \<Rightarrow> MemoryBudget option \<Rightarrow> nat \<Rightarrow> nat \<Rightarrow> Infeasible + unit" where
  "decide_single_batch enforce budget final_rows rwidth =
     (if \<not> enforce then Inr ()
      else case budget of
        Some b \<Rightarrow>
          let peak = u128 (int final_rows * int rwidth) in
          if peak \<le> budget_bytes b then Inr ()
          else Inl \<lparr>inf_peak_bytes = peak, inf_budget_bytes = budget_bytes b\<rparr>
      | None \<Rightarrow> Inr ())"

section \<open>The streaming tile schedule\<close>

record BatchPlan =
  tiles :: "nat list"

definition rows_per_batch :: "BatchPlan \<Rightarrow> nat" where
  "rows_per_batch p = product_u128 (tiles p)"

definition n_batches :: "BatchPlan \<Rightarrow> nat list \<Rightarrow> nat" where
  "n_batches p sizes = product_u128 (map2 (\<lambda>s t. div_ceil s (max t 1)) sizes (tiles p))"

text \<open>The search for the pivot axis.  \<open>None\<close> is a panic: the division by a zero inner product, or
  the end of the loop.\<close>

fun pivot_loop :: "nat list \<Rightarrow> nat \<Rightarrow> nat list \<Rightarrow> BatchPlan option" where
  "pivot_loop sizes target [] = None"
| "pivot_loop sizes target (i # is) =
     (let inner = product_u128 (drop (Suc i) sizes) in
      if inner \<le> target then
        if inner = 0 then None
        else
          let steps = min (max (target div inner) 1) (sizes ! i);
              ts = sizes[i := u64 steps]
          in Some \<lparr>tiles = replicate i 1 @ drop i ts\<rparr>
      else pivot_loop sizes target is)"

definition plan_streaming :: "nat list \<Rightarrow> nat \<Rightarrow> BatchPlan option" where
  "plan_streaming sizes target_rows =
     (let target = max target_rows 1;
          d = length sizes
      in if d = 0 then Some \<lparr>tiles = []\<rparr> else pivot_loop sizes target [0..<d])"

definition align_tile :: "nat list \<Rightarrow> nat list \<Rightarrow> nat \<Rightarrow> nat list \<Rightarrow> nat list" where
  "align_tile sizes chunks i ts =
     (let size = sizes ! i; tile = ts ! i in
      if tile \<ge> size \<or> tile \<le> 1 then ts
      else let chunk = max (get_or_one chunks i) 1 in
        if chunk \<le> 1 \<or> tile < chunk then ts
        else let aligned = tile div chunk * chunk in
          if aligned \<ge> 1 then ts[i := min aligned size] else ts)"

definition plan_streaming_chunked :: "nat list \<Rightarrow> nat \<Rightarrow> nat list \<Rightarrow> BatchPlan option" where
  "plan_streaming_chunked sizes target_rows chunks =
     map_option (\<lambda>plan.
         if length sizes = 0 then plan
         else \<lparr>tiles = fold (align_tile sizes chunks) [0..<length sizes] (tiles plan)\<rparr>)
       (plan_streaming sizes target_rows)"

text \<open>The overlapping (tile, chunk) pairs along one axis.\<close>

function count_pairs :: "nat \<Rightarrow> nat \<Rightarrow> nat \<Rightarrow> nat \<Rightarrow> nat" where
  "count_pairs sz tile ck start =
     (if start < sz \<and> 0 < tile then
        let last' = min (start + tile) sz - 1
        in (last' div ck - start div ck + 1) + count_pairs sz tile ck (start + tile)
      else 0)"
  by pat_completeness auto
termination
  by (relation "measure (\<lambda>(sz, tile, ck, start). sz - start)") auto

declare count_pairs.simps [simp del]

definition chunk_amplification :: "'f F64 \<Rightarrow> BatchPlan \<Rightarrow> nat list \<Rightarrow> nat list \<Rightarrow> 'f" where
  "chunk_amplification fl p sizes chunks =
     foldl (\<lambda>factor (i, t).
         let size = max (get_or_one sizes i) 1;
             chunk = max (get_or_one chunks i) 1;
             tile = max t 1;
             pairs = count_pairs size tile chunk 0;
             n = max (div_ceil size chunk) 1
         in f_mul fl factor (f_div fl (f_of_u128 fl pairs) (f_of_u128 fl n)))
       (f_one fl) (enumerate 0 (tiles p))"

section \<open>Alignment across variables\<close>

fun gcd_u64 :: "nat \<Rightarrow> nat \<Rightarrow> nat" where
  "gcd_u64 a b = (if b = 0 then a else gcd_u64 b (a mod b))"

declare gcd_u64.simps [simp del]

definition saturating_mul :: "nat \<Rightarrow> nat \<Rightarrow> nat" where
  "saturating_mul a b = min (a * b) (2 ^ 64 - 1)"

fun align_axis :: "nat \<Rightarrow> nat \<Rightarrow> nat list list \<Rightarrow> nat \<Rightarrow> nat" where
  "align_axis sz axis [] acc = min acc (max sz 1)"
| "align_axis sz axis (chunks # rest) acc =
     (let c = max (get_or_one chunks axis) 1;
          acc' = saturating_mul (acc div gcd_u64 acc c) c
      in if acc' \<ge> sz then max sz 1 else align_axis sz axis rest acc')"

definition chunk_alignment :: "nat list list \<Rightarrow> nat list \<Rightarrow> nat list" where
  "chunk_alignment per_var sizes =
     map (\<lambda>axis. align_axis (sizes ! axis) axis per_var 1) [0..<length sizes]"

section \<open>The schedule covers the selection within the target\<close>

text \<open>Extents the schedule is computed for: positive, addressable, with a \<open>u128\<close> product.\<close>

definition sizes_ok :: "nat list \<Rightarrow> bool" where
  "sizes_ok sizes \<longleftrightarrow> (\<forall>s \<in> set sizes. 0 < s \<and> s < index_bound) \<and> prod_list sizes < 2 ^ 128"

lemma prod_list_drop_le: "sizes_ok sizes \<Longrightarrow> prod_list (drop k sizes) \<le> prod_list sizes"
proof -
  assume ok: "sizes_ok sizes"
  have "prod_list sizes = prod_list (take k sizes) * prod_list (drop k sizes)"
    by (simp flip: prod_list.append)
  moreover have "0 < prod_list (take k sizes)"
    using ok by (intro prod_list_pos) (auto simp: sizes_ok_def dest: in_set_takeD)
  ultimately show ?thesis by simp
qed

lemma inner_product:
  assumes "sizes_ok sizes"
  shows "product_u128 (drop k sizes) = prod_list (drop k sizes)" "0 < prod_list (drop k sizes)"
proof -
  show "product_u128 (drop k sizes) = prod_list (drop k sizes)"
    using prod_list_drop_le [OF assms, of k] assms by (intro product_u128) (simp add: sizes_ok_def)
  show "0 < prod_list (drop k sizes)"
    using assms by (intro prod_list_pos) (auto simp: sizes_ok_def dest: in_set_dropD)
qed

lemma pivot_loop_shape:
  assumes ok: "sizes_ok sizes" and t: "0 < target" and k: "k < length sizes"
  shows "\<exists>i s. k \<le> i \<and> i < length sizes \<and>
    pivot_loop sizes target [k..<length sizes] = Some \<lparr>tiles = replicate i 1 @ s # drop (Suc i) sizes\<rparr> \<and>
    prod_list (drop (Suc i) sizes) \<le> target \<and>
    s = min (target div prod_list (drop (Suc i) sizes)) (sizes ! i) \<and>
    (\<forall>j. k \<le> j \<and> j < i \<longrightarrow> target < prod_list (drop (Suc j) sizes))"
  using k
proof (induction "length sizes - k" arbitrary: k)
  case (Suc m)
  let ?inner = "prod_list (drop (Suc k) sizes)"
  have upt: "[k..<length sizes] = k # [Suc k..<length sizes]" using Suc.prems by (simp add: upt_conv_Cons)
  have inner: "product_u128 (drop (Suc k) sizes) = ?inner" "0 < ?inner" by (rule inner_product [OF ok])+
  show ?case
  proof (cases "?inner \<le> target")
    case True
    have "sizes ! k < index_bound" using ok Suc.prems by (simp add: sizes_ok_def)
    then have "u64 (min (max (target div ?inner) 1) (sizes ! k)) = min (target div ?inner) (sizes ! k)"
      using True inner(2) div_greater_zero_iff [of target ?inner] by (subst u64_index) (auto simp: max_def)
    moreover have "drop k (sizes[k := v]) = v # drop (Suc k) sizes" for v
      using Suc.prems by (simp add: drop_update_swap Cons_nth_drop_Suc [symmetric])
    ultimately show ?thesis using True inner Suc.prems
      by (intro exI [of _ k] exI [of _ "min (target div ?inner) (sizes ! k)"]) (simp add: upt Let_def)
  next
    case False
    have "Suc k < length sizes"
    proof (rule ccontr)
      assume "\<not> Suc k < length sizes"
      then have "?inner = 1" by simp
      then show False using False t by simp
    qed
    then obtain i s where *: "Suc k \<le> i" "i < length sizes"
      "pivot_loop sizes target [Suc k..<length sizes] = Some \<lparr>tiles = replicate i 1 @ s # drop (Suc i) sizes\<rparr>"
      "prod_list (drop (Suc i) sizes) \<le> target" "s = min (target div prod_list (drop (Suc i) sizes)) (sizes ! i)"
      "\<forall>j. Suc k \<le> j \<and> j < i \<longrightarrow> target < prod_list (drop (Suc j) sizes)"
      using Suc.hyps(1) [of "Suc k"] Suc.hyps(2) by fastforce
    have "pivot_loop sizes target [k..<length sizes] = pivot_loop sizes target [Suc k..<length sizes]"
      using False inner by (simp add: upt Let_def)
    moreover have "target < prod_list (drop (Suc j) sizes)" if "k \<le> j" "j < i" for j
      using that False *(6) by (cases "j = k") auto
    ultimately show ?thesis using * Suc_leD [OF *(1)] by metis
  qed
qed simp

lemma plan_streaming_shape:
  assumes ok: "sizes_ok sizes" and ne: "sizes \<noteq> []"
  obtains i s where "i < length sizes"
    "plan_streaming sizes target = Some \<lparr>tiles = replicate i 1 @ s # drop (Suc i) sizes\<rparr>"
    "prod_list (drop (Suc i) sizes) \<le> max target 1"
    "s = min (max target 1 div prod_list (drop (Suc i) sizes)) (sizes ! i)" "0 < s"
    "\<forall>j < i. max target 1 < prod_list (drop (Suc j) sizes)"
proof -
  obtain i s where *: "i < length sizes"
      "pivot_loop sizes (max target 1) [0..<length sizes] = Some \<lparr>tiles = replicate i 1 @ s # drop (Suc i) sizes\<rparr>"
      "prod_list (drop (Suc i) sizes) \<le> max target 1"
      "s = min (max target 1 div prod_list (drop (Suc i) sizes)) (sizes ! i)"
      "\<forall>j. 0 \<le> j \<and> j < i \<longrightarrow> max target 1 < prod_list (drop (Suc j) sizes)"
    using pivot_loop_shape [OF ok, of "max target 1" 0] ne by fastforce
  have "0 < s" using *(1,3,4) inner_product(2) [OF ok, of "Suc i"] ok
    by (simp add: sizes_ok_def div_greater_zero_iff)
  then show ?thesis using that * ne by (simp add: plan_streaming_def)
qed

text \<open>The whole contract of a schedule: one tile per axis, within the extent, within the target.\<close>

definition plan_within :: "nat list \<Rightarrow> nat \<Rightarrow> BatchPlan \<Rightarrow> bool" where
  "plan_within sizes target p \<longleftrightarrow>
     length (tiles p) = length sizes \<and>
     (\<forall>i < length sizes. 1 \<le> tiles p ! i \<and> tiles p ! i \<le> sizes ! i) \<and>
     rows_per_batch p \<le> max target 1"

lemma plan_streaming_within:
  assumes ok: "sizes_ok sizes"
  shows "\<exists>p. plan_streaming sizes target = Some p \<and> plan_within sizes target p"
proof (cases "sizes = []")
  case True
  then show ?thesis by (simp add: plan_streaming_def plan_within_def rows_per_batch_def product_u128_def)
next
  case False
  obtain i s where p: "i < length sizes"
    "plan_streaming sizes target = Some \<lparr>tiles = replicate i 1 @ s # drop (Suc i) sizes\<rparr>"
    and inner: "prod_list (drop (Suc i) sizes) \<le> max target 1"
    and s: "s = min (max target 1 div prod_list (drop (Suc i) sizes)) (sizes ! i)" "0 < s"
    using plan_streaming_shape [OF ok False] by metis
  let ?ts = "replicate i 1 @ s # drop (Suc i) sizes"
  have b: "1 \<le> ?ts ! j \<and> ?ts ! j \<le> sizes ! j" if "j < length sizes" for j
  proof -
    have "0 < sizes ! j" using ok that by (simp add: sizes_ok_def)
    moreover have "?ts ! j = (if j < i then 1 else if j = i then s else sizes ! j)"
    proof (cases "i < j")
      case True
      then obtain k where "j = Suc (i + k)" using less_iff_Suc_add by auto
      then show ?thesis using that by (simp add: nth_append)
    qed (use that in \<open>auto simp: nth_append\<close>)
    ultimately show ?thesis using s by auto
  qed
  have "prod_list ?ts = s * prod_list (drop (Suc i) sizes)" by simp
  also have "\<dots> \<le> (max target 1 div prod_list (drop (Suc i) sizes)) * prod_list (drop (Suc i) sizes)"
    using s(1) by (intro mult_le_mono1) simp
  also have "\<dots> \<le> max target 1" by simp
  finally have le: "prod_list ?ts \<le> max target 1" .
  have "prod_list ?ts \<le> prod_list sizes"
    using b p(1) by (intro prod_list_mono2) (simp add: list_all2_conv_all_nth)
  then have "rows_per_batch \<lparr>tiles = ?ts\<rparr> = prod_list ?ts"
    unfolding rows_per_batch_def using ok by (simp add: product_u128 sizes_ok_def)
  then show ?thesis using p b le by (simp add: plan_within_def)
qed

section \<open>Chunk alignment\<close>

text \<open>The alignment of one axis on its own.\<close>

definition aligned_tile :: "nat \<Rightarrow> nat \<Rightarrow> nat \<Rightarrow> nat" where
  "aligned_tile sz ck t =
     (if t \<ge> sz \<or> t \<le> 1 \<or> ck \<le> 1 \<or> t < ck then t else t div ck * ck)"

lemma align_tile_nth:
  "i < length ts \<Longrightarrow>
   align_tile sizes chunks i ts = ts[i := aligned_tile (sizes ! i) (max (get_or_one chunks i) 1) (ts ! i)]"
proof -
  assume "i < length ts"
  define ck where "ck = max (get_or_one chunks i) 1"
  have "min (ts ! i div ck * ck) (sizes ! i) = ts ! i div ck * ck" if "ts ! i < sizes ! i"
    using that div_times_less_eq_dividend [of "ts ! i" ck] by linarith
  moreover have "1 \<le> ts ! i div ck * ck" if "ck \<le> ts ! i" "1 < ck"
    using that by (simp add: Suc_le_eq div_greater_zero_iff)
  ultimately show ?thesis
    unfolding align_tile_def aligned_tile_def Let_def ck_def [symmetric] by (auto simp: not_le not_less)
qed

lemma fold_align_tile:
  assumes "length ts = length sizes" "k \<le> length sizes"
  shows "length (fold (align_tile sizes chunks) [0..<k] ts) = length sizes \<and>
    (\<forall>i < length sizes. fold (align_tile sizes chunks) [0..<k] ts ! i =
       (if i < k then aligned_tile (sizes ! i) (max (get_or_one chunks i) 1) (ts ! i) else ts ! i))"
  using assms(2)
proof (induction k)
  case 0
  then show ?case using assms(1) by simp
next
  case (Suc k)
  then show ?case by (auto simp: align_tile_nth nth_list_update less_Suc_eq)
qed

lemma aligned_tile_bounds: "1 \<le> t \<Longrightarrow> 1 \<le> aligned_tile sz ck t \<and> aligned_tile sz ck t \<le> t"
  by (auto simp: aligned_tile_def not_le not_less Suc_le_eq div_greater_zero_iff)

lemma aligned_tile_dvd:
  "ck \<le> t \<Longrightarrow> 0 < ck \<Longrightarrow> aligned_tile sz ck t \<ge> sz \<or> ck dvd aligned_tile sz ck t"
proof -
  assume "ck \<le> t" "0 < ck"
  then have "ck dvd t" if "t \<le> 1 \<or> ck \<le> 1" using that by (cases "ck = 1") auto
  then show ?thesis using \<open>ck \<le> t\<close> by (auto simp: aligned_tile_def)
qed

lemma plan_streaming_chunked_tiles:
  assumes "sizes_ok sizes" "plan_streaming sizes target = Some p"
  shows "\<exists>q. plan_streaming_chunked sizes target chunks = Some q \<and> length (tiles q) = length sizes \<and>
    (\<forall>i < length sizes. tiles q ! i = aligned_tile (sizes ! i) (max (get_or_one chunks i) 1) (tiles p ! i))"
proof -
  have "length (tiles p) = length sizes"
    using plan_streaming_within [OF assms(1), of target] assms(2) by (auto simp: plan_within_def)
  then show ?thesis using fold_align_tile [of "tiles p" sizes "length sizes" chunks] assms(2)
    by (auto simp: plan_streaming_chunked_def)
qed

lemma plan_streaming_chunked_within:
  assumes ok: "sizes_ok sizes"
  shows "\<exists>q. plan_streaming_chunked sizes target chunks = Some q \<and> plan_within sizes target q"
proof -
  obtain p where p: "plan_streaming sizes target = Some p" "plan_within sizes target p"
    using plan_streaming_within [OF ok] by blast
  obtain q where q: "plan_streaming_chunked sizes target chunks = Some q" "length (tiles q) = length sizes"
      "\<forall>i < length sizes. tiles q ! i = aligned_tile (sizes ! i) (max (get_or_one chunks i) 1) (tiles p ! i)"
    using plan_streaming_chunked_tiles [OF ok p(1)] by blast
  have b: "1 \<le> tiles q ! i" "tiles q ! i \<le> tiles p ! i" "tiles p ! i \<le> sizes ! i" if "i < length sizes" for i
    using q(3) p(2) that aligned_tile_bounds [of "tiles p ! i"] by (auto simp: plan_within_def)
  have "prod_list (tiles q) \<le> prod_list (tiles p)" "prod_list (tiles p) \<le> prod_list sizes"
    using b p(2) q(2) by (auto intro!: prod_list_mono2 simp: list_all2_conv_all_nth plan_within_def)
  moreover from this have "rows_per_batch q = prod_list (tiles q)" "rows_per_batch p = prod_list (tiles p)"
    using ok by (auto simp: rows_per_batch_def sizes_ok_def product_u128)
  ultimately have "rows_per_batch q \<le> max target 1" using p(2) by (simp add: plan_within_def)
  then show ?thesis using q(1,2) b by (auto simp: plan_within_def intro: order_trans)
qed

section \<open>Redundant reads\<close>

lemma div_pred_ge: "0 < k \<Longrightarrow> 0 < n \<Longrightarrow> n div k \<le> Suc ((n - 1) div k)"
  using div_Suc [of "n - 1" k] by (simp split: if_splits)

lemma count_pairs_ge:
  "0 < t \<Longrightarrow> 0 < ck \<Longrightarrow> start < sz \<Longrightarrow> div_ceil sz ck - start div ck \<le> count_pairs sz t ck start"
proof (induction sz t ck start rule: count_pairs.induct)
  case (1 sz t ck start)
  have unf: "count_pairs sz t ck start =
      ((min (start + t) sz - 1) div ck - start div ck + 1) + count_pairs sz t ck (start + t)"
    using "1.prems" by (subst count_pairs.simps) (simp add: Let_def)
  show ?case
  proof (cases "start + t < sz")
    case True
    then have "div_ceil sz ck - (start + t) div ck \<le> count_pairs sz t ck (start + t)"
      using 1 by (simp add: Let_def)
    moreover have "(start + t) div ck \<le> Suc ((start + t - 1) div ck)"
      using "1.prems" by (intro div_pred_ge) auto
    moreover have "start div ck \<le> (start + t - 1) div ck" using "1.prems" by (intro div_le_mono) auto
    ultimately show ?thesis using unf True by simp
  next
    case False
    then have "min (start + t) sz = sz" by simp
    then show ?thesis using unf "1.prems" div_ceil_pred [of sz ck] by (simp only:)
  qed
qed

lemma count_pairs_aligned:
  "0 < t \<Longrightarrow> 0 < ck \<Longrightarrow> start < sz \<Longrightarrow> ck dvd start \<Longrightarrow> ck dvd t \<or> sz \<le> start + t \<Longrightarrow>
     count_pairs sz t ck start = div_ceil sz ck - start div ck"
proof (induction sz t ck start rule: count_pairs.induct)
  case (1 sz t ck start)
  have unf: "count_pairs sz t ck start =
      ((min (start + t) sz - 1) div ck - start div ck + 1) + count_pairs sz t ck (start + t)"
    using "1.prems" by (subst count_pairs.simps) (simp add: Let_def)
  show ?case
  proof (cases "start + t < sz")
    case True
    then have dvd: "ck dvd t" using "1.prems"(5) by simp
    have IH: "count_pairs sz t ck (start + t) = div_ceil sz ck - (start + t) div ck"
      using 1 True dvd by (simp add: Let_def)
    have "0 < start + t" using "1.prems" by simp
    then have "div_ceil (start + t) ck = Suc ((start + t - 1) div ck)" using "1.prems"(2) by (rule div_ceil_pred)
    moreover have "div_ceil (start + t) ck = (start + t) div ck" using dvd "1.prems"(4) by (simp add: div_ceil_def)
    moreover have "(start + t) div ck \<le> div_ceil sz ck"
      using True "1.prems"(2) by (simp add: div_ceil_pred div_le_mono le_SucI)
    moreover have "start div ck \<le> (start + t - 1) div ck" using "1.prems" by (intro div_le_mono) auto
    ultimately show ?thesis using unf True IH by simp
  next
    case False
    moreover have "count_pairs sz t ck (start + t) = 0" using False by (subst count_pairs.simps) simp
    moreover have "start div ck \<le> (sz - 1) div ck" using "1.prems" by (intro div_le_mono) auto
    ultimately show ?thesis using unf "1.prems" by (simp add: div_ceil_pred min_def)
  qed
qed

text \<open>Each axis whose tile is whole or a multiple of the chunk extent.\<close>

definition plan_aligned :: "BatchPlan \<Rightarrow> nat list \<Rightarrow> nat list \<Rightarrow> bool" where
  "plan_aligned p sizes chunks \<longleftrightarrow>
     (\<forall>i < length (tiles p). tiles p ! i \<ge> max (get_or_one sizes i) 1 \<or>
        (0 < tiles p ! i \<and> max (get_or_one chunks i) 1 dvd tiles p ! i))"

lemma chunk_amplification_one:
  assumes al: "plan_aligned p sizes chunks"
    and self: "\<And>n. 0 < n \<Longrightarrow> f_div fl (f_of_u128 fl n) (f_of_u128 fl n) = f_one fl"
    and unit: "f_mul fl (f_one fl) (f_one fl) = f_one fl"
  shows "chunk_amplification fl p sizes chunks = f_one fl"
proof -
  let ?s = "\<lambda>i. max (get_or_one sizes i) 1" and ?c = "\<lambda>i. max (get_or_one chunks i) 1"
  have ax: "count_pairs (?s i) (max t 1) (?c i) 0 = max (div_ceil (?s i) (?c i)) 1"
    if "(i, t) \<in> set (enumerate 0 (tiles p))" for i t
  proof -
    have t: "i < length (tiles p)" "t = tiles p ! i" using that by (auto simp: in_set_enumerate_eq)
    have "1 \<le> ?s i" by simp
    then have "max t 1 = t" "?c i dvd t \<or> ?s i \<le> t" using al t unfolding plan_aligned_def by force+
    then have "?c i dvd max t 1 \<or> ?s i \<le> 0 + max t 1" by simp
    then have "count_pairs (?s i) (max t 1) (?c i) 0 = div_ceil (?s i) (?c i)"
      using count_pairs_aligned [of "max t 1" "?c i" 0 "?s i"] by simp
    then show ?thesis by (simp add: div_ceil_pred)
  qed
  have "foldl (\<lambda>factor (i, t). let sz = ?s i; ck = ?c i; tl = max t 1; pairs = count_pairs sz tl ck 0;
          n = max (div_ceil sz ck) 1 in f_mul fl factor (f_div fl (f_of_u128 fl pairs) (f_of_u128 fl n)))
        (f_one fl) es = f_one fl" if "set es \<subseteq> set (enumerate 0 (tiles p))" for es
    using that
  proof (induction es)
    case (Cons e es)
    obtain i t where e: "e = (i, t)" by (cases e)
    then show ?case using Cons ax [of i t] self unit by (simp add: Let_def)
  qed simp
  then show ?thesis by (simp add: chunk_amplification_def Let_def)
qed

section \<open>Alignment across variables is the least common multiple\<close>

lemma gcd_u64_gcd: "gcd_u64 a b = gcd a b"
  by (induction a b rule: gcd_u64.induct) (metis gcd.commute gcd_0_nat gcd_red_nat gcd_u64.simps)

definition var_lcm :: "nat \<Rightarrow> nat list list \<Rightarrow> nat \<Rightarrow> nat" where
  "var_lcm axis vars acc = foldl (\<lambda>a ch. lcm a (max (get_or_one ch axis) 1)) acc vars"

lemma var_lcm_ge: "0 < acc \<Longrightarrow> acc \<le> var_lcm axis vars acc"
proof (induction vars arbitrary: acc)
  case (Cons ch vars)
  have "acc \<le> lcm acc (max (get_or_one ch axis) 1)" using Cons.prems by (intro dvd_imp_le) (auto simp: lcm_pos_nat)
  moreover have "lcm acc (max (get_or_one ch axis) 1) \<le> var_lcm axis (ch # vars) acc"
    using Cons.IH [of "lcm acc (max (get_or_one ch axis) 1)"] Cons.prems by (simp add: var_lcm_def lcm_pos_nat)
  ultimately show ?case by linarith
qed (simp add: var_lcm_def)

lemma align_axis_lcm:
  assumes "0 < acc" "acc < sz \<or> acc = 1" "sz < index_bound"
  shows "align_axis sz axis vars acc =
    (if sz \<le> var_lcm axis vars acc then max sz 1 else var_lcm axis vars acc)"
  using assms
proof (induction vars arbitrary: acc)
  case Nil
  then show ?case by (auto simp: var_lcm_def)
next
  case (Cons ch vars)
  define c where "c = max (get_or_one ch axis) 1"
  define l where "l = lcm acc c"
  have l: "acc div gcd_u64 acc c * c = l" by (simp add: gcd_u64_gcd l_def lcm_nat_def dvd_div_mult)
  have l0: "0 < l" using Cons.prems by (simp add: l_def c_def lcm_pos_nat)
  have sat: "saturating_mul (acc div gcd_u64 acc c) c \<ge> sz \<longleftrightarrow> l \<ge> sz"
    using Cons.prems(3) l by (simp add: saturating_mul_def index_bound_def)
  show ?case
  proof (cases "l \<ge> sz")
    case True
    then have "sz \<le> var_lcm axis (ch # vars) acc"
      using var_lcm_ge [OF l0, of axis vars] by (simp add: var_lcm_def l_def c_def)
    then show ?thesis using sat True by (simp add: Let_def c_def)
  next
    case False
    then have "saturating_mul (acc div gcd_u64 acc c) c = l"
      using Cons.prems(3) l by (simp add: saturating_mul_def index_bound_def)
    then show ?thesis using sat False Cons.IH [OF l0] Cons.prems(3)
      by (simp add: Let_def c_def l_def var_lcm_def)
  qed
qed

section \<open>Properties\<close>

text \<open>C20: for positive extents the streaming plan always exists, before and after chunk alignment; every
  tile lies between 1 and its extent, and one batch never exceeds the row target.\<close>

theorem streaming_plan_within_budget:
  assumes "sizes_ok sizes"
  shows "(\<exists>p. plan_streaming sizes target = Some p \<and> plan_within sizes target p) \<and>
    (\<exists>q. plan_streaming_chunked sizes target ck = Some q \<and> plan_within sizes target q)"
  using plan_streaming_within [OF assms] plan_streaming_chunked_within [OF assms] by blast

theorem streaming_plan_within_budget_witness:
  "plan_streaming_chunked [1000, 5, 10] 8192 [40, 5, 10] = Some \<lparr>tiles = [160, 5, 10]\<rparr> \<and>
   plan_within [1000, 5, 10] 8192 \<lparr>tiles = [160, 5, 10]\<rparr>"
proof -
  have "sizes_ok [1000, 5, 10]" by (simp add: sizes_ok_def index_bound_def)
  from streaming_plan_within_budget [OF this, of 8192 "[40, 5, 10]"]
  have "\<exists>q. plan_streaming_chunked [1000, 5, 10] 8192 [40, 5, 10] = Some q \<and> plan_within [1000, 5, 10] 8192 q" by blast
  moreover have "plan_streaming_chunked [1000, 5, 10] 8192 [40, 5, 10] = Some \<lparr>tiles = [160, 5, 10]\<rparr>"
    by (simp add: plan_streaming_chunked_def plan_streaming_def upt_rec product_u128_def u128_def u64_def
        align_tile_def get_or_one_def Let_def)
  ultimately show ?thesis by simp
qed

text \<open>an extent of zero on an inner axis makes the planner divide by zero: the loop takes the first
  axis as the pivot and computes \<open>target / inner\<close> with \<open>inner = 0\<close>.\<close>

theorem streaming_plan_panics_on_empty_axis:
  "plan_streaming [3, 0] target = None"
  by (simp add: plan_streaming_def upt_rec product_u128_def u128_def Let_def)

text \<open>C21: Chunk alignment reads no chunk twice: on every axis whose tile holds a whole chunk or the whole axis, two
  positions of one chunk are always in the same tile of the aligned plan, so that the axis costs one read per chunk, the
  least any tile can; the tile shrinks by less than one chunk.  A tile that cannot hold a chunk is left as it is.\<close>

theorem aligned_plan_reads_chunks_once:
  assumes "sizes_ok sizes" "plan_streaming sizes target = Some p" "i < length sizes"
    "c = max (get_or_one chunks i) 1" "t = tiles p ! i"
  shows "\<exists>q. plan_streaming_chunked sizes target chunks = Some q \<and> tiles q ! i \<le> t \<and> t < tiles q ! i + c \<and>
    (if c \<le> t \<or> sizes ! i \<le> t
     then (\<forall>x < sizes ! i. \<forall>y < sizes ! i. x div c = y div c \<longrightarrow> x div tiles q ! i = y div tiles q ! i) \<and>
       count_pairs (sizes ! i) (tiles q ! i) c 0 = div_ceil (sizes ! i) c \<and>
       div_ceil (sizes ! i) c \<le> count_pairs (sizes ! i) t c 0
     else tiles q ! i = t)"
proof -
  have within: "plan_within sizes target p" using plan_streaming_within [OF assms(1), of target] assms(2) by simp
  then have t: "1 \<le> t" "t \<le> sizes ! i" using assms(3,5) by (auto simp: plan_within_def)
  have sz: "0 < sizes ! i" using t by simp
  have c: "0 < c" using assms(4) by simp
  obtain q where q: "plan_streaming_chunked sizes target chunks = Some q" "tiles q ! i = aligned_tile (sizes ! i) c t"
    using plan_streaming_chunked_tiles [OF assms(1,2), of chunks] assms(3-5) by blast
  let ?a = "aligned_tile (sizes ! i) c t"
  have a: "1 \<le> ?a" "?a \<le> t" using aligned_tile_bounds [OF t(1)] by blast+
  have "t - t div c * c < c" using c by (simp add: minus_div_mult_eq_mod)
  then have near: "t < ?a + c" using c by (auto simp: aligned_tile_def)
  show ?thesis
  proof (cases "c \<le> t \<or> sizes ! i \<le> t")
    case True
    then have al: "?a \<ge> sizes ! i \<or> c dvd ?a"
      using aligned_tile_dvd [of c t "sizes ! i"] c by (auto simp: aligned_tile_def)
    have same: "x div ?a = y div ?a" if "x < sizes ! i" "y < sizes ! i" "x div c = y div c" for x y
    proof (cases "sizes ! i \<le> ?a")
      case True
      then show ?thesis using that by simp
    next
      case False
      then obtain k where k: "?a = c * k" using al by (auto elim: dvdE)
      show ?thesis unfolding k div_mult2_eq by (simp add: that(3))
    qed
    have S: "\<forall>x < sizes ! i. \<forall>y < sizes ! i. x div c = y div c \<longrightarrow> x div ?a = y div ?a" using same by blast
    have "count_pairs (sizes ! i) ?a c 0 = div_ceil (sizes ! i) c"
      using count_pairs_aligned [of ?a c 0 "sizes ! i"] al a(1) c sz by auto
    moreover have "div_ceil (sizes ! i) c \<le> count_pairs (sizes ! i) t c 0"
      using count_pairs_ge [of t c 0 "sizes ! i"] t(1) c sz by simp
    ultimately show ?thesis unfolding if_P [OF True] using q(1) a(2) near S unfolding q(2) [symmetric] by blast
  next
    case False
    then have "?a = t" by (auto simp: aligned_tile_def)
    then show ?thesis using q c False by auto
  qed
qed

theorem aligned_plan_reads_chunks_once_witness:
  "\<exists>q. plan_streaming_chunked [1000, 5, 10] 8192 [40, 5, 10] = Some q \<and> tiles q ! 0 \<le> 163 \<and> 163 < tiles q ! 0 + 40 \<and>
    (\<forall>x < 1000. \<forall>y < 1000. x div 40 = y div 40 \<longrightarrow> x div tiles q ! 0 = y div tiles q ! 0)"
proof -
  have ok: "sizes_ok [1000, 5, 10]" by (simp add: sizes_ok_def index_bound_def)
  have p: "plan_streaming [1000, 5, 10] 8192 = Some \<lparr>tiles = [163, 5, 10]\<rparr>"
    by (simp add: plan_streaming_def upt_rec product_u128_def u128_def u64_def Let_def)
  have c: "0 < length [1000, 5, 10 :: nat]" "40 = max (get_or_one [40, 5, 10] 0) 1"
      "163 = tiles \<lparr>tiles = [163, 5, 10]\<rparr> ! 0" "[1000, 5, 10 :: nat] ! 0 = 1000" "40 \<le> (163::nat)"
    by (simp_all add: get_or_one_def)
  show ?thesis using aligned_plan_reads_chunks_once [OF ok p c(1-3)] c(5) unfolding c(4) by (simp only: simp_thms if_True) blast
qed

text \<open>a plan whose tiles are whole axes or whole chunk rows has amplification exactly one, for any
  arithmetic in which \<open>x / x\<close> and \<open>1 * 1\<close> are one.\<close>

theorem aligned_plan_amplification_one:
  assumes "plan_aligned p sizes chunks" "\<And>n. 0 < n \<Longrightarrow> f_div fl (f_of_u128 fl n) (f_of_u128 fl n) = f_one fl"
    "f_mul fl (f_one fl) (f_one fl) = f_one fl"
  shows "chunk_amplification fl p sizes chunks = f_one fl"
  using chunk_amplification_one [OF assms] .

theorem aligned_plan_amplification_one_witness:
  "chunk_amplification exact_f64 \<lparr>tiles = [160, 5, 10]\<rparr> [1000, 5, 10] [40, 5, 10] = 1"
  using aligned_plan_amplification_one [of "\<lparr>tiles = [160, 5, 10]\<rparr>" "[1000, 5, 10]" "[40, 5, 10]" exact_f64]
  by (simp add: exact_f64_def) (simp add: plan_aligned_def get_or_one_def less_Suc_eq_0_disj nth_Cons split: nat.splits)

text \<open>the alignment across variables is, on every axis, the least common multiple of the variables'
  chunk extents, capped at the axis.\<close>

theorem chunk_alignment_is_lcm:
  assumes "i < length sizes" "sizes ! i < index_bound"
  shows "chunk_alignment per_var sizes ! i =
    (if sizes ! i \<le> var_lcm i per_var 1 then max (sizes ! i) 1 else var_lcm i per_var 1)"
  using align_axis_lcm [of 1 "sizes ! i" i per_var] assms by (simp add: chunk_alignment_def)

theorem chunk_alignment_is_lcm_witness: "chunk_alignment [[100, 4], [150, 4]] [1000, 4] ! 0 = 300"
proof -
  have "lcm (Suc 0) 100 = (100 :: nat)" "lcm 100 150 = (300 :: nat)"
    by (simp_all add: lcm_nat_def gcd_non_0_nat)
  then show ?thesis using chunk_alignment_is_lcm [of 0 "[1000, 4]" "[[100, 4], [150, 4]]"]
    by (simp add: index_bound_def var_lcm_def get_or_one_def)
qed

end
