(* ===== verification/Selection.thy ===== *)
theory Selection
  imports Product_Set
begin

text \<open>
  Resolved coordinate selections (\<open>CoordSelection\<close> of \<open>src/reader/filter.rs\<close>), array metadata
  (\<open>src/reader/schema_inference.rs\<close>) and the bridge from selections to index sets
  (\<open>src/optimizer/cardinality/predicate.rs\<close>).  The lemmas show that intersection is set
  intersection on positions, that the bridge denotes the selected cells, and that the
  plan-time statistics are exact.
\<close>

section \<open>Array metadata\<close>

record CFTimeAttrs =
  units :: string
  calendar :: "string option"

text \<open>\<open>'f\<close> is the type of the \<open>f64\<close> bounds.\<close>

record 'f ZarrArrayMeta =
  meta_name :: string
  data_type :: string
  shape :: "nat list"
  chunks :: "nat list option"
  coord_min_max :: "('f \<times> 'f) option"
  cf_time_attrs :: "CFTimeAttrs option"
  dimensions :: "string list option"

record 'f ZarrStoreMeta =
  coords :: "'f ZarrArrayMeta list"
  data_vars :: "'f ZarrArrayMeta list"
  total_rows :: nat

definition is_coordinate :: "'f ZarrArrayMeta \<Rightarrow> bool" where
  "is_coordinate m \<longleftrightarrow> length (shape m) = 1"

definition is_scalar :: "'f ZarrArrayMeta \<Rightarrow> bool" where
  "is_scalar m \<longleftrightarrow> shape m = []"

text \<open>\<open>slice::first().copied()\<close>.\<close>

definition first_opt :: "'a list \<Rightarrow> 'a option" where
  "first_opt xs = (case xs of [] \<Rightarrow> None | x # _ \<Rightarrow> Some x)"

definition unwrap_or :: "'a option \<Rightarrow> 'a \<Rightarrow> 'a" where
  "unwrap_or opt d = (case opt of None \<Rightarrow> d | Some x \<Rightarrow> x)"

definition from_coord_metas :: "'f ZarrArrayMeta list \<Rightarrow> CubeShape" where
  "from_coord_metas cs =
     \<lparr>axes = map (\<lambda>c.
        let ext = unwrap_or (first_opt (shape c)) 0;
            ck = unwrap_or (Option.bind (chunks c) first_opt) ext
        in Axis_new (meta_name c) ext ck) cs\<rparr>"

section \<open>Coordinate selections\<close>

datatype CoordSelection =
    SelRange nat nat
  | SelIndices "nat list"

fun sel_len :: "CoordSelection \<Rightarrow> nat" where
  "sel_len (SelRange s e) = u64 (e + 2 ^ 64 - s)"
| "sel_len (SelIndices v) = length v"

definition sel_is_empty :: "CoordSelection \<Rightarrow> bool" where
  "sel_is_empty s \<longleftrightarrow> sel_len s = 0"

fun as_range :: "CoordSelection \<Rightarrow> (nat \<times> nat) option" where
  "as_range (SelRange s e) = Some (s, e)"
| "as_range (SelIndices v) = None"

fun sel_intersect :: "CoordSelection \<Rightarrow> CoordSelection \<Rightarrow> CoordSelection" where
  "sel_intersect (SelRange s1 e1) (SelRange s2 e2) =
     (let start = max s1 s2; end' = max (min e1 e2) start in SelRange start end')"
| "sel_intersect (SelRange s e) (SelIndices v) = SelIndices (filter (\<lambda>i. i \<ge> s \<and> i < e) v)"
| "sel_intersect (SelIndices v) (SelRange s e) = SelIndices (filter (\<lambda>i. i \<ge> s \<and> i < e) v)"
| "sel_intersect (SelIndices a) (SelIndices b) = SelIndices (filter (\<lambda>i. i \<in> set a) b)"

text \<open>The selected positions, in order.\<close>

fun positions :: "CoordSelection \<Rightarrow> nat list" where
  "positions (SelRange s e) = [s..<e]"
| "positions (SelIndices v) = v"

fun sel_wf :: "CoordSelection \<Rightarrow> bool" where
  "sel_wf (SelRange s e) \<longleftrightarrow> s \<le> e \<and> e < index_bound"
| "sel_wf (SelIndices v) \<longleftrightarrow> sorted v \<and> distinct v \<and> (\<forall>x \<in> set v. x < index_bound)"

lemma sel_len_positions [members_simps]: "sel_wf s \<Longrightarrow> sel_len s = length (positions s)"
proof (cases s)
  case (SelRange a b)
  assume "sel_wf s"
  then have "u64 (b + 2 ^ 64 - a) = b - a" using SelRange by (intro u64_sub) (auto simp: index_bound_def)
  then show ?thesis using SelRange by simp
qed simp

lemma sel_is_empty_iff: "sel_wf s \<Longrightarrow> sel_is_empty s \<longleftrightarrow> positions s = []"
  by (simp add: sel_is_empty_def sel_len_positions)

lemma distinct_positions: "sel_wf s \<Longrightarrow> distinct (positions s)" "sel_wf s \<Longrightarrow> sorted (positions s)"
  by (cases s; simp)+

lemma sel_intersect_correct:
  assumes "sel_wf a" "sel_wf b"
  shows "sel_wf (sel_intersect a b)"
    "set (positions (sel_intersect a b)) = set (positions a) \<inter> set (positions b)"
  using assms by (cases a; cases b; auto simp: Let_def sorted_filter [where f = id, simplified] index_bound_def)+

section \<open>From selections to index sets\<close>

fun axis_from_selection :: "CoordSelection \<Rightarrow> AxisSet" where
  "axis_from_selection (SelRange s e) = interval s e"
| "axis_from_selection (SelIndices v) = indices v"

definition product_from_selections :: "CoordSelection list \<Rightarrow> ProductSet" where
  "product_from_selections selections = single (map axis_from_selection selections)"

definition calculate_filtered_rows :: "CoordSelection list \<Rightarrow> nat" where
  "calculate_filtered_rows selections = foldl (\<lambda>acc s. u64 (acc * sel_len s)) 1 selections"

record SelectionStats =
  rows :: nat
  inner_rows :: nat
  touched_chunks :: nat

definition selection_stats :: "CubeShape \<Rightarrow> CoordSelection list \<Rightarrow> SelectionStats option" where
  "selection_stats sh selections =
     (let st = product_from_selections selections in
      Option.bind (ps_cardinality st) (\<lambda>r.
      Option.bind (ps_touched_tiles st (chunk_shape sh)) (\<lambda>t.
      Some \<lparr>rows = r, inner_rows = product_u128 (map sel_len (drop 1 selections)), touched_chunks = t\<rparr>)))"

definition hits_single_batch_fallback ::
  "string list \<Rightarrow> string list \<Rightarrow> (string \<rightharpoonup> nat) \<Rightarrow> nat \<Rightarrow> bool" where
  "hits_single_batch_fallback projected coord_names data_var_ndims effective_ndim \<longleftrightarrow>
     \<not> (\<forall>name \<in> set projected. name \<in> set coord_names \<or> data_var_ndims name = Some effective_ndim)"

record ScanDiagnostics =
  stats :: SelectionStats
  diag_ndim :: nat
  single_batch_fallback :: bool

text \<open>Collecting pairs into a \<open>HashMap\<close>: the last pair of a key wins.\<close>

definition collect_map :: "('k \<times> 'v) list \<Rightarrow> 'k \<rightharpoonup> 'v" where
  "collect_map kvs = map_of (rev kvs)"

text \<open>\<open>None\<close>: an index out of range, or a panic of the counters.\<close>

definition scan_diagnostics ::
  "'f ZarrArrayMeta list \<Rightarrow> nat list \<Rightarrow> CoordSelection list option \<Rightarrow> nat list \<Rightarrow>
   string list \<Rightarrow> string list \<Rightarrow> 'f ZarrArrayMeta list \<Rightarrow> ScanDiagnostics option" where
  "scan_diagnostics cs effective coord_ranges coord_sizes projected coord_names dvs =
     (if \<not> (\<forall>i \<in> set effective. i < length cs \<and>
             (case coord_ranges of Some sels \<Rightarrow> i < length sels | None \<Rightarrow> i < length coord_sizes))
      then None
      else
        let sh = from_coord_metas (map (\<lambda>i. cs ! i) effective);
            eff = map (\<lambda>i. case coord_ranges of Some sels \<Rightarrow> sels ! i | None \<Rightarrow> SelRange 0 (coord_sizes ! i)) effective;
            ndims = collect_map (map (\<lambda>v. (meta_name v, length (shape v))) dvs)
        in map_option (\<lambda>st. \<lparr>stats = st, diag_ndim = length effective,
              single_batch_fallback = hits_single_batch_fallback projected coord_names ndims (length effective)\<rparr>)
             (selection_stats sh eff))"

section \<open>The bridge is exact\<close>

lemma axis_from_selection_correct:
  assumes "sel_wf s"
  shows "axis_wf 1 (axis_from_selection s)" "axis_points (axis_from_selection s) = set (positions s)"
proof -
  show "axis_wf 1 (axis_from_selection s)"
    using assms by (cases s) (auto simp: interval_def indices_def)
  show "axis_points (axis_from_selection s) = set (positions s)"
    by (cases s) (auto simp: axis_points_interval indices_def simp del: members.simps(1))
qed

text \<open>The cells a list of per-axis selections spans.\<close>

abbreviation cells :: "CoordSelection list \<Rightarrow> nat list set" where
  "cells sels \<equiv> listset (map (\<lambda>s. set (positions s)) sels)"

lemma product_from_selections_correct:
  assumes "\<forall>s \<in> set sels. sel_wf s"
  shows "ps_wf 1 (product_from_selections sels)" "ndim (product_from_selections sels) = length sels"
    "ps_points (product_from_selections sels) = cells sels" "length (boxes (product_from_selections sels)) < 32"
proof -
  let ?b = "map axis_from_selection sels"
  have b: "box_wf 1 (length sels) ?b"
    using assms axis_from_selection_correct(1) by (auto simp: box_wf_def)
  have "map axis_points ?b = map (\<lambda>s. set (positions s)) sels"
    using assms axis_from_selection_correct(2) by simp
  then have "box_points ?b = cells sels" by (simp only: box_points_def)
  then show "ps_points (product_from_selections sels) = cells sels"
    unfolding product_from_selections_def single_def from_boxes_points by simp
  show "ps_wf 1 (product_from_selections sels)"
    unfolding product_from_selections_def single_def using b
    by (intro from_boxes_wf) (simp_all add: index_bound_def)
  show "ndim (product_from_selections sels) = length sels"
    by (simp add: product_from_selections_def single_def)
  show "length (boxes (product_from_selections sels)) < 32"
    by (simp add: product_from_selections_def single_def from_boxes_def)
qed

lemma card_cells:
  assumes "\<forall>s \<in> set sels. sel_wf s"
  shows "card (cells sels) = prod_list (map (\<lambda>s. length (positions s)) sels)"
  using assms distinct_positions(1)
  by (subst card_listset) (auto simp: comp_def distinct_card intro!: arg_cong [where f = prod_list])

lemma foldl_u64_product:
  assumes "k * prod_list (map f xs) < 2 ^ 64" "\<forall>x \<in> set xs. 0 < f x"
  shows "foldl (\<lambda>acc x. u64 (acc * f x)) k xs = k * prod_list (map f xs)"
  using assms
proof (induction xs arbitrary: k)
  case (Cons x xs)
  have "0 < prod_list (map f xs)" using Cons.prems(2) by (intro prod_list_pos) auto
  then have "k * f x \<le> k * f x * prod_list (map f xs)" by simp
  also have "\<dots> < 2 ^ 64" using Cons.prems(1) by (simp add: mult.assoc)
  finally have "u64 (k * f x) = k * f x" by (rule u64_id)
  then show ?case using Cons by (simp add: mult.assoc)
qed simp

lemma foldl_u64_zero: "foldl (\<lambda>acc x. u64 (acc * f x)) 0 xs = 0"
  by (induction xs) (simp_all add: u64_def)

lemma foldl_u64_has_zero: "\<exists>x \<in> set xs. f x = 0 \<Longrightarrow> foldl (\<lambda>acc x. u64 (acc * f x)) k xs = 0"
proof (induction xs arbitrary: k)
  case (Cons x xs)
  show ?case
  proof (cases "f x = 0")
    case True
    moreover have "u64 0 = 0" by (simp add: u64_def)
    ultimately show ?thesis by (simp add: foldl_u64_zero)
  qed (use Cons in auto)
qed simp

lemma calculate_filtered_rows_card:
  assumes wf: "\<forall>s \<in> set sels. sel_wf s" and fits: "card (cells sels) < 2 ^ 64"
  shows "calculate_filtered_rows sels = card (cells sels)"
proof (cases "\<exists>s \<in> set sels. sel_len s = 0")
  case True
  then have "prod_list (map (\<lambda>s. length (positions s)) sels) = 0"
    using wf by (auto simp: prod_list_zero_iff sel_len_positions image_iff)
  then show ?thesis
    using foldl_u64_has_zero [OF True] card_cells [OF wf] by (simp add: calculate_filtered_rows_def)
next
  case False
  have "map sel_len sels = map (\<lambda>s. length (positions s)) sels" using wf by (simp add: sel_len_positions)
  then have "card (cells sels) = 1 * prod_list (map sel_len sels)" using card_cells [OF wf] by (simp only: mult_1)
  then show ?thesis
    using foldl_u64_product [of 1 sel_len sels] False fits by (simp add: calculate_filtered_rows_def)
qed

lemma selection_stats_correct:
  assumes wf: "\<forall>s \<in> set sels. sel_wf s" and sh: "length (axes sh) = length sels"
    and ck: "\<forall>a \<in> set (axes sh). chunk a \<le> index_bound" and fits: "card (cells sels) < 2 ^ 128"
    and inner: "card (cells (drop 1 sels)) < 2 ^ 128"
  shows "\<exists>st. selection_stats sh sels = Some st \<and> rows st = card (cells sels) \<and> inner_rows st = card (cells (drop 1 sels)) \<and>
    touched_chunks st = card (map2 tile_of (chunk_shape sh) ` cells sels)"
proof -
  note p = product_from_selections_correct [OF wf]
  have fin: "finite (cells sels)" by (rule finite_listset) auto
  have "countable_set (length (boxes (product_from_selections sels))) (cells sels)"
    using p(4) fits by (simp add: countable_set_def)
  then have "ps_cardinality (product_from_selections sels) = Some (card (cells sels))"
    using ps.cardinality_exact [OF p(1)] by (simp add: p(3))
  moreover have "countable_set (length (boxes (product_from_selections sels)))
      (map2 tile_of (chunk_shape sh) ` ps_points (product_from_selections sels))"
    using card_image_le [OF fin, of "map2 tile_of (chunk_shape sh)"] p(3,4) fits
    by (simp add: countable_set_def)
  then have "ps_touched_tiles (product_from_selections sels) (chunk_shape sh) =
      Some (card (map2 tile_of (chunk_shape sh) ` cells sels))"
    using ps.tiles_exact [OF p(1), of "chunk_shape sh"] sh ck p(2,3) by (simp add: chunk_shape_def)
  moreover have "product_u128 (map sel_len (drop 1 sels)) = card (cells (drop 1 sels))"
  proof -
    have w: "\<forall>s \<in> set (drop 1 sels). sel_wf s" using wf by (meson in_set_dropD)
    then have "map sel_len (drop 1 sels) = map (\<lambda>s. length (positions s)) (drop 1 sels)" by (simp add: sel_len_positions)
    then show ?thesis using card_cells [OF w] inner product_u128 by (simp only:)
  qed
  ultimately show ?thesis by (simp add: selection_stats_def)
qed

section \<open>Properties\<close>

text \<open>AND-composing two selections of one coordinate selects exactly the positions both select, and
  keeps them sorted and distinct.\<close>

theorem selection_intersect_exact:
  assumes "sel_wf a" "sel_wf b"
  shows "sel_wf (sel_intersect a b) \<and> set (positions (sel_intersect a b)) = set (positions a) \<inter> set (positions b)"
  using sel_intersect_correct [OF assms] by simp

theorem selection_intersect_exact_witness:
  "sel_intersect (SelRange 3 8) (SelIndices [1, 4, 5, 9]) = SelIndices [4, 5] \<and>
   set (positions (SelIndices [4, 5])) = set (positions (SelRange 3 8)) \<inter> set (positions (SelIndices [1, 4, 5, 9]))"
  using selection_intersect_exact [of "SelRange 3 8" "SelIndices [1, 4, 5, 9]"] by (simp add: index_bound_def)

text \<open>C22: The plan-time statistics of a scan are exact: the row count is the number of selected cells, and equals what
  the reader sizes its batch to; the inner row count is the number of selected cells of all axes but the outermost; the
  touched-chunk count is the number of chunks that hold a selected cell.  The counts fit their words.\<close>

theorem selection_statistics_exact:
  assumes "\<forall>s \<in> set sels. sel_wf s" "length (axes sh) = length sels"
    "\<forall>a \<in> set (axes sh). chunk a \<le> index_bound" "card (cells sels) < 2 ^ 64" "card (cells (drop 1 sels)) < 2 ^ 128"
  shows "\<exists>st. selection_stats sh sels = Some st \<and> rows st = card (cells sels) \<and>
    rows st = calculate_filtered_rows sels \<and> inner_rows st = card (cells (drop 1 sels)) \<and>
    touched_chunks st = card (map2 tile_of (chunk_shape sh) ` cells sels)"
  using selection_stats_correct [OF assms(1-3) _ assms(5)] calculate_filtered_rows_card [OF assms(1,4)] assms(4) by auto

theorem selection_statistics_exact_witness:
  "\<exists>st. selection_stats \<lparr>axes = [Axis_new ''time'' 100 24, Axis_new ''lat'' 50 16]\<rparr>
      [SelRange 0 100, SelIndices [2, 4, 6]] = Some st \<and> rows st = 300 \<and> inner_rows st = 3"
proof -
  let ?sels = "[SelRange 0 100, SelIndices [2, 4, 6]]"
  have wf: "\<forall>s \<in> set ?sels. sel_wf s" "\<forall>s \<in> set (drop 1 ?sels). sel_wf s" by (simp_all add: index_bound_def)
  have "card (cells ?sels) = 300" "card (cells (drop 1 ?sels)) = 3" using card_cells [OF wf(1)] card_cells [OF wf(2)] by simp_all
  then show ?thesis
    using selection_statistics_exact [OF wf(1), of "\<lparr>axes = [Axis_new ''time'' 100 24, Axis_new ''lat'' 50 16]\<rparr>"]
    by (auto simp: Axis_new_def index_bound_def)
qed

end
