(* ===== verification/Partition.thy ===== *)
theory Partition
  imports Selection
begin

text \<open>
  Partition planning (\<open>src/physical_plan/partition.rs\<close>): slicing an axis, or a resolved selection,
  into chunk-aligned pieces and dealing the pieces out to distributed tasks.  The locale
  \<open>splitter\<close> states what a way of slicing promises; the lemmas show that no row is lost or read
  twice and that no chunk is read by two partitions.
\<close>

section \<open>Definitions\<close>

record PartitionSpec =
  outer :: CoordSelection
  extra :: "(nat \<times> CoordSelection) list"

definition from_outer :: "CoordSelection \<Rightarrow> PartitionSpec" where
  "from_outer s = \<lparr>outer = s, extra = []\<rparr>"

definition spec_range :: "nat \<Rightarrow> nat \<Rightarrow> PartitionSpec" where
  "spec_range start end' = from_outer (SelRange start end')"

definition with_extra :: "PartitionSpec \<Rightarrow> (nat \<times> CoordSelection) list \<Rightarrow> PartitionSpec" where
  "with_extra p ex = p\<lparr>extra := ex\<rparr>"

definition spec_is_empty :: "PartitionSpec \<Rightarrow> bool" where
  "spec_is_empty p \<longleftrightarrow> sel_is_empty (outer p) \<or> (\<exists>(i, s) \<in> set (extra p). sel_is_empty s)"

definition spec_as_range :: "PartitionSpec \<Rightarrow> (nat \<times> nat) option" where
  "spec_as_range p = as_range (outer p)"

text \<open>The step \<open>per\<close> of both chunk loops is at least 1; the test of it only serves termination.\<close>

function plan_loop :: "nat \<Rightarrow> nat \<Rightarrow> nat \<Rightarrow> nat \<Rightarrow> nat \<Rightarrow> PartitionSpec list" where
  "plan_loop outer_len chunk_len nc per chunk_start =
     (if chunk_start < nc \<and> 0 < per then
        let chunk_end = min (chunk_start + per) nc;
            outer_start = chunk_start * chunk_len;
            outer_end = min (chunk_end * chunk_len) outer_len
        in spec_range outer_start outer_end # plan_loop outer_len chunk_len nc per chunk_end
      else [])"
  by pat_completeness auto
termination
  by (relation "measure (\<lambda>(ol, cl, nc, per, cs). nc - cs)") auto

declare plan_loop.simps [simp del]

definition plan_partitions :: "nat \<Rightarrow> nat \<Rightarrow> nat \<Rightarrow> PartitionSpec list" where
  "plan_partitions outer_len chunk_len target_partitions =
     (if outer_len = 0 then [spec_range 0 0]
      else let cl = (if chunk_len = 0 then outer_len else chunk_len);
               nc = div_ceil outer_len cl;
               p = max (min target_partitions nc) 1;
               per = div_ceil nc p
           in plan_loop outer_len cl nc per 0)"

function range_loop :: "nat \<Rightarrow> nat \<Rightarrow> nat \<Rightarrow> nat \<Rightarrow> nat \<Rightarrow> nat \<Rightarrow> (nat \<times> nat) list" where
  "range_loop s e chunk_len last_chunk per c =
     (if c \<le> last_chunk \<and> 0 < per then
        let c_end = min (c + per) (last_chunk + 1);
            start = max (c * chunk_len) s;
            end' = min (c_end * chunk_len) e
        in (start, end') # range_loop s e chunk_len last_chunk per c_end
      else [])"
  by pat_completeness auto
termination
  by (relation "measure (\<lambda>(s, e, cl, lc, per, c). Suc lc - c)") auto

declare range_loop.simps [simp del]

definition split_range :: "nat \<Rightarrow> nat \<Rightarrow> nat \<Rightarrow> nat \<Rightarrow> (nat \<times> nat) list" where
  "split_range s e chunk_len target =
     (if e \<le> s then [(s, s)]
      else if chunk_len = 0 then [(s, e)]
      else let first_chunk = s div chunk_len;
               last_chunk = (e - 1) div chunk_len;
               nc = last_chunk - first_chunk + 1;
               p = max (min target nc) 1;
               per = div_ceil nc p
           in range_loop s e chunk_len last_chunk per first_chunk)"

text \<open>The runs of indices that share a chunk.\<close>

definition run_step :: "nat list \<Rightarrow> nat \<Rightarrow> nat list list \<times> nat \<Rightarrow> nat \<Rightarrow> nat list list \<times> nat" where
  "run_step v chunk_len = (\<lambda>(groups, start) i.
     if i = length v \<or> v ! i div chunk_len \<noteq> v ! start div chunk_len
     then (groups @ [take (i - start) (drop start v)], i) else (groups, start))"

definition chunk_groups :: "nat list \<Rightarrow> nat \<Rightarrow> nat list list" where
  "chunk_groups v chunk_len = fst (foldl (run_step v chunk_len) ([], 0) [1..<Suc (length v)])"

definition pack_step :: "nat \<Rightarrow> nat \<Rightarrow> nat \<Rightarrow> nat list list \<times> nat list \<Rightarrow> nat \<times> nat list \<Rightarrow> nat list list \<times> nat list" where
  "pack_step n p per = (\<lambda>(out, cur) (gi, g).
     let cur' = cur @ g; groups_left = n - gi - 1 in
     if length cur' \<ge> per \<and> length out + 1 < p \<and> groups_left \<ge> p - (length out + 1)
     then (out @ [cur'], []) else (out, cur'))"

definition split_indices :: "nat list \<Rightarrow> nat \<Rightarrow> nat \<Rightarrow> nat list list" where
  "split_indices v chunk_len target =
     (if v = [] then [[]]
      else let cl = (if chunk_len = 0 then 1 else chunk_len);
               groups = chunk_groups v cl;
               p = max (min target (length groups)) 1;
               per = div_ceil (length v) p;
               (out, cur) = foldl (pack_step (length groups) p per) ([], []) (enumerate 0 groups)
           in if cur \<noteq> [] then out @ [cur] else out)"

fun split_selection :: "CoordSelection \<Rightarrow> nat \<Rightarrow> nat \<Rightarrow> CoordSelection list" where
  "split_selection (SelRange s e) chunk_len target =
     map (\<lambda>(s, e). SelRange s e) (split_range s e chunk_len target)"
| "split_selection (SelIndices v) chunk_len target =
     map SelIndices (split_indices v chunk_len target)"

definition empty_spec :: PartitionSpec where
  "empty_spec = spec_range 0 0"

definition distribute_step ::
  "PartitionSpec list \<Rightarrow> nat \<Rightarrow> nat \<Rightarrow> nat \<Rightarrow> PartitionSpec list list \<times> nat \<Rightarrow> nat \<Rightarrow> PartitionSpec list list \<times> nat" where
  "distribute_step specs base rem k = (\<lambda>(groups, cursor) t.
     let sz = base + (if t < rem then 1 else 0);
         group = take sz (drop cursor specs)
     in (groups @ [take k group @ replicate (k - length group) empty_spec], cursor + sz))"

definition distribute_specs_across_tasks :: "PartitionSpec list \<Rightarrow> nat \<Rightarrow> PartitionSpec list list" where
  "distribute_specs_across_tasks specs task_count =
     (let tc = max task_count 1;
          p = length specs;
          base = p div tc;
          rem = p mod tc;
          k = (if rem > 0 then base + 1 else base)
      in fst (foldl (distribute_step specs base rem k) ([], 0) [0..<tc]))"

section \<open>The contract of a splitter\<close>

locale splitter =
  fixes split :: "CoordSelection \<Rightarrow> CoordSelection list"
  assumes split_nonempty: "sel_wf s \<Longrightarrow> split s \<noteq> []"
    and split_wf: "sel_wf s \<Longrightarrow> piece \<in> set (split s) \<Longrightarrow> sel_wf piece"
    and split_concat: "sel_wf s \<Longrightarrow> concat (map positions (split s)) = positions s"
begin

lemma pieces_union: "sel_wf s \<Longrightarrow> (\<Union>p \<in> set (split s). set (positions p)) = set (positions s)"
  using arg_cong [OF split_concat, of s set] by simp

lemma pieces_disjoint:
  assumes "sel_wf s" "i < length (split s)" "j < length (split s)" "i \<noteq> j"
  shows "set (positions (split s ! i)) \<inter> set (positions (split s ! j)) = {}"
proof -
  have "distinct (concat (map positions (split s)))"
    using split_concat [OF assms(1)] distinct_positions(1) [OF assms(1)] by simp
  from distinct_concat_disjoint [OF this] show ?thesis
    using assms(2-4) by (cases i j rule: linorder_cases) (auto simp: Int_commute)
qed

lemma pieces_length:
  assumes "sel_wf s" shows "sum_list (map sel_len (split s)) = sel_len s"
proof -
  have "map sel_len (split s) = map (length \<circ> positions) (split s)"
    using split_wf [OF assms] by (simp add: sel_len_positions)
  then have "sum_list (map sel_len (split s)) = length (concat (map positions (split s)))"
    by (simp only: length_concat map_map)
  then show ?thesis using assms by (simp add: split_concat sel_len_positions)
qed

end

section \<open>Slicing a range\<close>

lemma range_loop_correct:
  assumes cl: "0 < cl" and per: "0 < per" and se: "s < e" and lc: "lc = (e - 1) div cl"
    and c: "s div cl \<le> c" "c \<le> Suc lc"
  shows "concat (map (\<lambda>(s, e). [s..<e]) (range_loop s e cl lc per c)) = [max (c * cl) s..<e] \<and>
    (\<forall>(a, b) \<in> set (range_loop s e cl lc per c). a < b \<and> b \<le> e \<and> (cl dvd a \<or> a = s) \<and> (cl dvd b \<or> b = e))"
  using c
proof (induction "Suc lc - c" arbitrary: c rule: less_induct)
  case less
  have "(e - 1) div cl < Suc lc" using lc by simp
  then have e: "e \<le> Suc lc * cl" using less_Suc_div_mult [OF cl] by (metis Suc_leI Suc_pred' se bot_nat_0.not_eq_extremum not_less0)
  have le: "lc * cl \<le> e - 1" using lc by simp
  show ?case
  proof (cases "c \<le> lc")
    case False
    then have "c = Suc lc" using less.prems by simp
    then have "e \<le> max (c * cl) s" using e by simp
    then show ?thesis using False by (subst (1 2) range_loop.simps) simp
  next
    case True
    define ce where "ce = min (c + per) (lc + 1)"
    have ce: "c < ce" "ce \<le> Suc lc" using True per by (auto simp: ce_def)
    have s: "s < ce * cl" using less.prems(1) ce(1) by (intro less_Suc_div_mult [OF cl]) simp
    have c1: "c * cl < ce * cl" using ce(1) cl by simp
    have "c * cl \<le> lc * cl" using True by simp
    then have c2: "c * cl < e" using le se by linarith
    have nxt: "max (ce * cl) s = min (ce * cl) e \<or> (ce = Suc lc \<and> min (ce * cl) e = e)"
    proof (cases "ce = Suc lc")
      case False
      then have "ce * cl \<le> lc * cl" using ce(2) by simp
      then show ?thesis using le se s by linarith
    qed (use e in simp)
    have unf: "range_loop s e cl lc per c =
        (max (c * cl) s, min (ce * cl) e) # range_loop s e cl lc per ce"
      using True per by (subst range_loop.simps) (simp add: Let_def ce_def)
    have IH: "concat (map (\<lambda>(s, e). [s..<e]) (range_loop s e cl lc per ce)) = [max (ce * cl) s..<e]"
      "\<forall>(a, b) \<in> set (range_loop s e cl lc per ce). a < b \<and> b \<le> e \<and> (cl dvd a \<or> a = s) \<and> (cl dvd b \<or> b = e)"
      using less.hyps [of ce] ce less.prems True by auto
    have "[max (c * cl) s..<min (ce * cl) e] @ [max (ce * cl) s..<e] = [max (c * cl) s..<e]"
      using nxt
    proof
      assume "max (ce * cl) s = min (ce * cl) e"
      then show ?thesis using c1 c2 s se by (simp only:) (rule upt_join; auto)
    next
      assume "ce = Suc lc \<and> min (ce * cl) e = e"
      then show ?thesis using e by simp
    qed
    moreover have "max (c * cl) s < min (ce * cl) e" using c1 c2 s se by simp
    ultimately show ?thesis using IH unfolding unf by (auto simp: max_def min_def)
  qed
qed

lemma split_range_all:
  assumes "s \<le> e"
  shows "split_range s e cl t \<noteq> [] \<and> concat (map (\<lambda>(s, e). [s..<e]) (split_range s e cl t)) = [s..<e] \<and>
    (\<forall>(a, b) \<in> set (split_range s e cl t). a \<le> b \<and> b \<le> e \<and> (cl dvd a \<or> a = s) \<and> (cl dvd b \<or> b = e))"
proof (cases "e \<le> s \<or> cl = 0")
    case True
    then show ?thesis using assms by (auto simp: split_range_def)
  next
    case False
    then have se: "s < e" and cl: "0 < cl" by auto
    define lc where "lc = (e - 1) div cl"
    define per where "per = div_ceil (lc - s div cl + 1) (max (min t (lc - s div cl + 1)) 1)"
    have per: "0 < per" by (simp add: per_def)
    have fc: "s div cl \<le> lc" using se by (simp add: lc_def div_le_mono)
    have eq: "split_range s e cl t = range_loop s e cl lc per (s div cl)"
      using False by (simp add: split_range_def Let_def lc_def per_def)
    have "max (s div cl * cl) s = s" by simp
    then have "concat (map (\<lambda>(s, e). [s..<e]) (split_range s e cl t)) = [s..<e]"
      "\<forall>(a, b) \<in> set (split_range s e cl t). a < b \<and> b \<le> e \<and> (cl dvd a \<or> a = s) \<and> (cl dvd b \<or> b = e)"
      using range_loop_correct [OF cl per se lc_def, of "s div cl"] fc by (simp_all add: eq)
    moreover have "split_range s e cl t \<noteq> []"
    proof
      assume "split_range s e cl t = []"
      then have "[s..<e] = []" using \<open>concat (map (\<lambda>(s, e). [s..<e]) (split_range s e cl t)) = [s..<e]\<close> by simp
      then show False using se by simp
    qed
    ultimately show ?thesis by (fastforce dest: less_imp_le)
qed

lemmas split_range_correct = split_range_all [THEN conjunct1]
  split_range_all [THEN conjunct2, THEN conjunct1] split_range_all [THEN conjunct2, THEN conjunct2]

text \<open>Number of pieces: never more than the requested target (or one).\<close>

lemma range_loop_length: "0 < per \<Longrightarrow> c \<le> Suc lc \<Longrightarrow> length (range_loop s e cl lc per c) = div_ceil (Suc lc - c) per"
proof (induction "Suc lc - c" arbitrary: c rule: less_induct)
  case less
  show ?case
  proof (cases "c \<le> lc")
    case False
    then show ?thesis using less.prems by (subst range_loop.simps) simp
  next
    case True
    define ce where "ce = min (c + per) (lc + 1)"
    have "length (range_loop s e cl lc per c) = Suc (length (range_loop s e cl lc per ce))"
      using True less.prems by (subst range_loop.simps) (simp add: Let_def ce_def)
    also have "\<dots> = Suc (div_ceil (Suc lc - ce) per)"
      using less.hyps [of ce] True less.prems by (auto simp: ce_def)
    also have "\<dots> = div_ceil (Suc lc - c) per"
    proof (cases "c + per \<le> lc")
      case True
      then have "Suc lc - c = (Suc lc - ce) + per" by (simp add: ce_def)
      then show ?thesis using less.prems by (simp add: div_ceil_def div_add_self2)
    next
      case False
      then have "ce = Suc lc" "Suc lc - c \<le> 1 * per" by (auto simp: ce_def)
      moreover have "div_ceil (Suc lc - c) per \<le> 1" "0 < div_ceil (Suc lc - c) per"
        using \<open>Suc lc - c \<le> 1 * per\<close> less.prems True by (simp_all add: div_ceil_le_iff)
      ultimately show ?thesis by simp
    qed
    finally show ?thesis .
  qed
qed

lemma split_range_length:
  assumes "s \<le> e" shows "length (split_range s e cl t) \<le> max t 1"
proof (cases "e \<le> s \<or> cl = 0")
  case True
  then show ?thesis by (auto simp: split_range_def)
next
  case False
  define lc where "lc = (e - 1) div cl"
  define n where "n = Suc lc - s div cl"
  define p where "p = max (min t n) 1"
  have fc: "s div cl \<le> lc" unfolding lc_def using False by (intro div_le_mono) auto
  then have n: "lc - s div cl + 1 = n" "0 < n" by (auto simp: n_def)
  have per: "0 < div_ceil n p" using n by (simp add: p_def)
  have "split_range s e cl t = range_loop s e cl lc (div_ceil n p) (s div cl)"
    unfolding split_range_def Let_def lc_def [symmetric] n(1) p_def [symmetric] using False by simp
  then have "length (split_range s e cl t) = div_ceil n (div_ceil n p)"
    using range_loop_length [OF per, of "s div cl" lc] fc by (simp add: n_def)
  also have "\<dots> \<le> p"
    unfolding div_ceil_le_iff [OF per] using div_ceil_mult_ge [of p n] by (simp add: p_def mult.commute)
  finally show ?thesis by (simp add: p_def)
qed

text \<open>Blind slicing of a whole axis is the slicing of its full range.\<close>

lemma plan_loop_range:
  "0 < nc \<Longrightarrow> plan_loop ol cl nc per c = map (\<lambda>(a, b). spec_range a b) (range_loop 0 ol cl (nc - 1) per c)"
proof (induction "nc - c" arbitrary: c rule: less_induct)
  case less
  show ?case
  proof (cases "c < nc \<and> 0 < per")
    case False
    then show ?thesis using less.prems by (subst plan_loop.simps, subst range_loop.simps) auto
  next
    case True
    define ce where "ce = min (c + per) nc"
    have ce: "ce = min (c + per) (nc - 1 + 1)" using less.prems by (simp add: ce_def)
    have "plan_loop ol cl nc per c = spec_range (c * cl) (min (ce * cl) ol) # plan_loop ol cl nc per ce"
      using True by (subst plan_loop.simps) (simp add: Let_def ce_def)
    moreover have "range_loop 0 ol cl (nc - 1) per c =
        (c * cl, min (ce * cl) ol) # range_loop 0 ol cl (nc - 1) per ce"
      using True by (subst range_loop.simps) (auto simp: Let_def ce)
    moreover have "nc - ce < nc - c" using True by (auto simp: ce_def)
    ultimately show ?thesis using less.hyps [of ce] less.prems by simp
  qed
qed

lemma plan_partitions_split:
  assumes "0 < ol"
  shows "plan_partitions ol cl t =
    map from_outer (split_selection (SelRange 0 ol) (if cl = 0 then ol else cl) t)"
proof -
  define c where "c = (if cl = 0 then ol else cl)"
  have c: "0 < c" using assms by (simp add: c_def)
  have nc: "div_ceil ol c = (ol - 1) div c + 1" using div_ceil_pred [OF assms c] by simp
  show ?thesis
    using assms c by (simp add: plan_partitions_def c_def [symmetric] Let_def nc plan_loop_range split_range_def
        spec_range_def comp_def case_prod_unfold)
qed

section \<open>Slicing an index list\<close>

text \<open>All of \<open>g\<close> lies in earlier chunks than all of \<open>h\<close>.\<close>

definition chunks_before :: "nat \<Rightarrow> nat list \<Rightarrow> nat list \<Rightarrow> bool" where
  "chunks_before cl g h \<longleftrightarrow> (\<forall>x \<in> set g. \<forall>y \<in> set h. x div cl < y div cl)"

lemma slice_snoc: "start \<le> i \<Longrightarrow> take start v @ take (i - start) (drop start v) = take i v"
  by (metis le_add_diff_inverse take_add)

definition run_inv :: "nat list \<Rightarrow> nat \<Rightarrow> nat \<Rightarrow> nat list list \<times> nat \<Rightarrow> bool" where
  "run_inv v cl i = (\<lambda>(groups, start).
     start < i \<and> concat groups = take start v \<and> [] \<notin> set groups \<and>
     (\<forall>j. start \<le> j \<and> j < i \<longrightarrow> v ! j div cl = v ! start div cl) \<and>
     sorted_wrt (chunks_before cl) (groups @ [drop start v]))"

lemma run_fold_invariant:
  assumes v: "sorted v" and i: "1 \<le> i" "i \<le> length v"
  shows "run_inv v cl i (foldl (run_step v cl) ([], 0) [1..<i])"
  using i
proof (induction i rule: nat_induct_at_least)
  case base
  then show ?case by (simp add: run_inv_def)
next
  case (Suc i)
  obtain groups start where f: "foldl (run_step v cl) ([], 0) [1..<i] = (groups, start)" by fastforce
  then have inv: "run_inv v cl i (groups, start)" using Suc.IH Suc.prems by simp
  then have IH: "start < i" "concat groups = take start v" "[] \<notin> set groups"
    "\<And>j. start \<le> j \<Longrightarrow> j < i \<Longrightarrow> v ! j div cl = v ! start div cl"
    "sorted_wrt (chunks_before cl) (groups @ [drop start v])"
    unfolding run_inv_def prod.case by blast+
  have step: "foldl (run_step v cl) ([], 0) [1..<Suc i] = run_step v cl (groups, start) i"
    using Suc.hyps f by simp
  have il: "i < length v" using Suc.prems by simp
  show ?case
  proof (cases "v ! i div cl = v ! start div cl")
    case True
    have "\<forall>j. start \<le> j \<and> j < Suc i \<longrightarrow> v ! j div cl = v ! start div cl"
      using IH(4) True less_antisym by blast
    then have "run_inv v cl (Suc i) (groups, start)"
      unfolding run_inv_def prod.case using IH(2,3,5) less_SucI [OF IH(1)] by blast
    moreover have "run_step v cl (groups, start) i = (groups, start)" using True il by (simp add: run_step_def)
    ultimately show ?thesis by (simp only: step)
  next
    case False
    let ?g = "take (i - start) (drop start v)"
    have sub: "set ?g \<subseteq> set (drop start v)" "set (drop i v) \<subseteq> set (drop start v)"
      using set_take_subset [of "i - start" "drop start v"] set_drop_subset_set_drop [of start i v] IH(1) by simp_all
    have g: "x div cl = v ! start div cl" if x: "x \<in> set ?g" for x
    proof -
      obtain m where "m < i - start" "x = v ! (start + m)" using x il by (auto simp: in_set_conv_nth)
      then show ?thesis using IH(4) [of "start + m"] by simp
    qed
    have "v ! start \<le> v ! i" using v IH(1) il by (intro sorted_nth_mono) auto
    then have lt: "v ! start div cl < v ! i div cl" using False by (metis div_le_mono le_neq_implies_less)
    have "v ! i div cl \<le> y div cl" if "y \<in> set (drop i v)" for y
      using that v by (auto simp: in_set_conv_nth intro!: div_le_mono sorted_nth_mono)
    then have "chunks_before cl ?g (drop i v)" using g lt by (fastforce simp: chunks_before_def)
    moreover have "sorted_wrt (chunks_before cl) (groups @ [?g])" "\<forall>h \<in> set groups. chunks_before cl h (drop i v)"
      using IH(5) sub by (auto simp: sorted_wrt_append chunks_before_def)
    ultimately have "sorted_wrt (chunks_before cl) ((groups @ [?g]) @ [drop i v])"
      by (auto simp: sorted_wrt_append)
    moreover have "concat (groups @ [?g]) = take i v" using IH(1,2) slice_snoc [of start i v] by simp
    moreover have "?g \<noteq> []" using IH(1) il by simp
    then have "[] \<notin> set (groups @ [?g])" using IH(3) by auto
    moreover have "\<forall>j. i \<le> j \<and> j < Suc i \<longrightarrow> v ! j div cl = v ! i div cl" by (metis le_antisym less_Suc_eq_le)
    ultimately have "run_inv v cl (Suc i) (groups @ [?g], i)"
      unfolding run_inv_def prod.case using lessI [of i] by blast
    moreover have "run_step v cl (groups, start) i = (groups @ [?g], i)" using False by (simp add: run_step_def)
    ultimately show ?thesis by (simp only: step)
  qed
qed

lemma chunk_groups_correct:
  assumes v: "sorted v" "v \<noteq> []"
  shows "concat (chunk_groups v cl) = v" "[] \<notin> set (chunk_groups v cl)"
    "sorted_wrt (chunks_before cl) (chunk_groups v cl)"
proof -
  have len: "1 \<le> length v" using v(2) by (simp add: Suc_le_eq)
  obtain groups start where f: "foldl (run_step v cl) ([], 0) [1..<length v] = (groups, start)" by fastforce
  then have inv: "start < length v" "concat groups = take start v" "[] \<notin> set groups"
    "sorted_wrt (chunks_before cl) (groups @ [drop start v])"
    using run_fold_invariant [OF v(1) len, of cl] unfolding f run_inv_def prod.case by blast+
  have "chunk_groups v cl = groups @ [drop start v]"
    using f len by (simp add: chunk_groups_def run_step_def)
  then show "concat (chunk_groups v cl) = v" "[] \<notin> set (chunk_groups v cl)"
    "sorted_wrt (chunks_before cl) (chunk_groups v cl)" using inv by auto
qed

text \<open>Packing whole runs into pieces keeps the order of chunks and every index.\<close>

definition pack_inv :: "nat \<Rightarrow> nat \<Rightarrow> nat list list \<Rightarrow> nat list list \<times> nat list \<Rightarrow> nat list list \<Rightarrow> bool" where
  "pack_inv cl p dn = (\<lambda>(out, cur) rest.
     concat out @ cur = concat dn \<and> [] \<notin> set out \<and> length out \<le> p - 1 \<and>
     sorted_wrt (chunks_before cl) (out @ cur # rest))"

lemma chunks_before_append [simp]:
  "chunks_before cl (g @ g') h \<longleftrightarrow> chunks_before cl g h \<and> chunks_before cl g' h"
  "chunks_before cl h (g @ g') \<longleftrightarrow> chunks_before cl h g \<and> chunks_before cl h g'"
  "chunks_before cl [] h" "chunks_before cl h []"
  by (auto simp: chunks_before_def)

lemma pack_step_inv:
  assumes "pack_inv cl p dn st (g # rest)" "g \<noteq> []"
  shows "pack_inv cl p (dn @ [g]) (pack_step n p per st (i, g)) rest"
  using assms by (cases st) (auto simp: pack_inv_def pack_step_def Let_def sorted_wrt_append)

lemma pack_fold_inv:
  assumes "pack_inv cl p dn st gs" "[] \<notin> set gs"
  shows "pack_inv cl p (dn @ gs) (foldl (pack_step n p per) st (enumerate k gs)) []"
  using assms
proof (induction gs arbitrary: dn st k)
  case (Cons g gs)
  have "pack_inv cl p (dn @ [g]) (pack_step n p per st (k, g)) gs"
    using Cons.prems by (intro pack_step_inv) auto
  from Cons.IH [OF this] show ?case using Cons.prems by simp
qed simp

lemma split_indices_correct:
  assumes v: "sorted v" "v \<noteq> []"
  shows "concat (split_indices v cl t) = v" "[] \<notin> set (split_indices v cl t)"
    "sorted_wrt (chunks_before (max cl 1)) (split_indices v cl t)" "length (split_indices v cl t) \<le> max t 1"
proof -
  define k where "k = max cl 1"
  let ?gs = "chunk_groups v k"
  define p where "p = max (min t (length ?gs)) 1"
  define per where "per = div_ceil (length v) p"
  note g = chunk_groups_correct [OF v, of k]
  obtain out cur where f: "foldl (pack_step (length ?gs) p per) ([], []) (enumerate 0 ?gs) = (out, cur)" by fastforce
  have "pack_inv k p [] ([], []) ?gs" using g(3) by (simp add: pack_inv_def)
  from pack_fold_inv [OF this g(2)] have inv: "pack_inv k p ?gs (out, cur) []" using f by (metis append_Nil)
  have "(if cl = 0 then 1 else cl) = k" by (simp add: k_def)
  then have eq: "split_indices v cl t = (if cur \<noteq> [] then out @ [cur] else out)"
    using v(2) f by (simp add: split_indices_def Let_def p_def per_def)
  show "concat (split_indices v cl t) = v" "[] \<notin> set (split_indices v cl t)"
    "sorted_wrt (chunks_before (max cl 1)) (split_indices v cl t)"
    using inv g(1) unfolding k_def [symmetric] by (auto simp: eq pack_inv_def sorted_wrt_append)
  have "length out \<le> p - 1" using inv by (simp add: pack_inv_def)
  then show "length (split_indices v cl t) \<le> max t 1" by (auto simp: eq p_def)
qed

lemma split_indices_concat: "sorted v \<Longrightarrow> concat (split_indices v cl t) = v"
  using split_indices_correct(1) [of v cl t] by (cases "v = []") (auto simp: split_indices_def)

lemma split_indices_nonempty: "sorted v \<Longrightarrow> split_indices v cl t \<noteq> []"
  using split_indices_correct(1) [of v cl t] by (cases "v = []") (auto simp: split_indices_def)

section \<open>Every splitter keeps the contract\<close>

lemma concat_piece:
  assumes "sorted (concat xss)" "distinct (concat xss)" "xs \<in> set xss"
  shows "sorted xs" "distinct xs" "set xs \<subseteq> set (concat xss)"
  using assms by (induction xss) (auto simp: sorted_append)

lemma concat_ordered:
  assumes "sorted (concat xss)" "distinct (concat xss)" "i < j" "j < length xss" "x \<in> set (xss ! i)" "y \<in> set (xss ! j)"
  shows "x < (y :: nat)"
proof -
  have "x \<le> y" using assms(1,3-6)
  proof (induction xss arbitrary: i j)
    case (Cons xs xss)
    obtain j' where j: "j = Suc j'" "j' < length xss" using Cons.prems by (cases j) auto
    have "y \<in> set (concat xss)" using j Cons.prems(5) by (auto intro!: bexI [of _ "xss ! j'"])
    then show ?case using Cons.IH [of "i - 1" j'] Cons.prems j by (cases i) (auto simp: sorted_append)
  qed simp
  moreover have "x \<noteq> y" using distinct_concat_disjoint [OF assms(2-4)] assms(5,6) by auto
  ultimately show ?thesis by simp
qed

interpretation split_sel: splitter "\<lambda>s. split_selection s cl t" for cl t
proof (unfold_locales, goal_cases)
  case (1 s)
  then show ?case by (cases s) (simp_all add: split_range_correct split_indices_nonempty)
next
  case (2 s piece)
  then show ?case
  proof (cases s)
    case (SelRange a b)
    then show ?thesis using 2 split_range_correct(3) [of a b cl t] by fastforce
  next
    case (SelIndices v)
    then obtain xs where xs: "piece = SelIndices xs" "xs \<in> set (split_indices v cl t)" using 2 by auto
    moreover have c: "concat (split_indices v cl t) = v" using 2 SelIndices by (simp add: split_indices_concat)
    ultimately show ?thesis
      using concat_piece [of "split_indices v cl t" xs] 2(1) SelIndices unfolding c by auto
  qed
next
  case (3 s)
  then show ?case
  proof (cases s)
    case (SelRange a b)
    then have "concat (map (\<lambda>(s, e). [s..<e]) (split_range a b cl t)) = [a..<b]"
      using 3 by (intro split_range_correct) simp
    then show ?thesis using SelRange by (simp add: comp_def case_prod_unfold)
  qed (simp add: split_indices_concat comp_def)
qed

text \<open>A chunk belongs to one piece only.\<close>

lemma split_selection_chunks:
  assumes wf: "sel_wf s" and cl: "0 < cl" and ij: "i < j" "j < length (split_selection s cl t)"
    and x: "x \<in> set (positions (split_selection s cl t ! i))" and y: "y \<in> set (positions (split_selection s cl t ! j))"
  shows "x div cl < y div cl"
proof (cases s)
  case (SelIndices v)
  have ne: "v \<noteq> []" using SelIndices ij x by (auto simp: split_indices_def)
  have "sorted_wrt (chunks_before cl) (split_indices v cl t)"
    using split_indices_correct(3) [of v cl t] wf SelIndices ne max_absorb1 [of 1 cl] cl by simp
  then show ?thesis
    using SelIndices ij x y by (auto simp: sorted_wrt_iff_nth_less chunks_before_def)
next
  case (SelRange a b)
  let ?r = "split_range a b cl t"
  have ab: "a \<le> b" using wf SelRange by simp
  obtain a1 b1 a2 b2 where p: "?r ! i = (a1, b1)" "?r ! j = (a2, b2)" by fastforce
  have ij': "i < length ?r" "j < length ?r" using ij SelRange by auto
  have x: "a1 \<le> x" "x < b1" and y: "a2 \<le> y" "y < b2" using x y p SelRange ij' by auto
  let ?u = "map (\<lambda>(s, e). [s..<e]) ?r"
  have u: "concat ?u = [a..<b]" by (rule split_range_correct(2) [OF ab])
  have "b1 - 1 < a2"
    using concat_ordered [of ?u i j "b1 - 1" a2] u ij(1) ij' p x y by simp
  then have le: "b1 \<le> a2" by simp
  have "b2 \<le> b" "cl dvd b1 \<or> b1 = b"
    using split_range_correct(3) [OF ab, of cl t] nth_mem [OF ij'(1)] nth_mem [OF ij'(2)] p by fastforce+
  then obtain k where k: "b1 = cl * k" using le y by (auto elim: dvdE)
  have "x div cl < k" using x(2) cl by (simp add: k div_less_iff_less_mult mult.commute)
  also have "k = b1 div cl" using cl by (simp add: k)
  also have "\<dots> \<le> y div cl" using le y(1) by (intro div_le_mono) simp
  finally show ?thesis .
qed

section \<open>Dealing partitions out to tasks\<close>

lemma distribute_fold:
  assumes "t \<le> tc" "specs' = take (t * base + min t rem) specs" "base * tc + rem = length specs" "rem < tc"
    "k = (if rem > 0 then base + 1 else base)"
  shows "\<exists>gs. foldl (distribute_step specs base rem k) ([], 0) [0..<t] = (gs, t * base + min t rem) \<and>
    length gs = t \<and> (\<forall>g \<in> set gs. length g = k) \<and>
    (\<exists>pads. concat (map2 (\<lambda>g n. take n g) gs pads) = specs' \<and> length pads = t \<and>
       (\<forall>i < t. pads ! i \<le> k \<and> drop (pads ! i) (gs ! i) = replicate (k - pads ! i) empty_spec \<and>
         pads ! i \<in> {base, base + 1}))"
  using assms
proof (induction t arbitrary: specs')
  case (Suc t)
  define cur where "cur = t * base + min t rem"
  define sz where "sz = base + (if t < rem then 1 else 0)"
  obtain gs pads where IH: "foldl (distribute_step specs base rem k) ([], 0) [0..<t] = (gs, cur)"
    "length gs = t" "\<forall>g \<in> set gs. length g = k" "concat (map2 (\<lambda>g n. take n g) gs pads) = take cur specs"
    "length pads = t"
    "\<forall>i < t. pads ! i \<le> k \<and> drop (pads ! i) (gs ! i) = replicate (k - pads ! i) empty_spec \<and> pads ! i \<in> {base, base + 1}"
    using Suc.IH [OF _ refl Suc.prems(3-5)] Suc.prems(1) unfolding cur_def by (meson Suc_leD)
  have szk: "sz \<le> k" "sz \<in> {base, base + 1}" using Suc.prems(5) by (auto simp: sz_def)
  have nxt: "cur + sz = Suc t * base + min (Suc t) rem" by (auto simp: cur_def sz_def)
  have "Suc t * base \<le> tc * base" using Suc.prems(1) by (intro mult_le_mono1)
  then have "cur + sz \<le> length specs" using nxt Suc.prems(3) by (simp add: mult.commute min_def split: if_splits)
  then have len: "length (take sz (drop cur specs)) = sz" by simp
  let ?g = "take k (take sz (drop cur specs)) @ replicate (k - sz) empty_spec"
  have g: "take sz ?g = take sz (drop cur specs)" "length ?g = k" "drop sz ?g = replicate (k - sz) empty_spec"
    using len szk by (auto simp: min_def)
  have step: "foldl (distribute_step specs base rem k) ([], 0) [0..<Suc t] = (gs @ [?g], cur + sz)"
    using IH(1) len by (simp add: distribute_step_def Let_def sz_def)
  have "concat (map2 (\<lambda>g n. take n g) (gs @ [?g]) (pads @ [sz])) = take (cur + sz) specs"
    using IH g(1) by (simp add: take_add)
  then have "concat (map2 (\<lambda>g n. take n g) (gs @ [?g]) (pads @ [sz])) = specs'" using nxt Suc.prems(2) by simp
  moreover have "(pads @ [sz]) ! i \<le> k \<and>
      drop ((pads @ [sz]) ! i) ((gs @ [?g]) ! i) = replicate (k - (pads @ [sz]) ! i) empty_spec \<and>
      (pads @ [sz]) ! i \<in> {base, base + 1}" if "i < Suc t" for i
  proof (cases "i < t")
    case True
    then show ?thesis using IH(2,5,6) by (simp add: nth_append)
  next
    case False
    then have "i = t" using that by simp
    then show ?thesis using IH(2,5) g(3) szk by (simp only: nth_append_length [of gs] nth_append_length [of pads])
        (metis nth_append_length)
  qed
  moreover have "\<forall>h \<in> set (gs @ [?g]). length h = k" using IH(3) g(2) by simp
  moreover have "length (gs @ [?g]) = Suc t" "length (pads @ [sz]) = Suc t" using IH(2,5) by simp_all
  ultimately show ?case using step nxt by metis
qed simp

lemma filter_pads:
  assumes "length pads = length gs" "\<forall>i < length gs. drop (pads ! i) (gs ! i) = replicate (k i) e" "\<not> P e"
  shows "filter P (concat gs) = filter P (concat (map2 (\<lambda>g n. take n g) gs pads))"
  using assms
proof (induction gs arbitrary: pads k)
  case (Cons g gs)
  obtain n pads' where p: "pads = n # pads'" using Cons.prems(1) by (cases pads) auto
  have "drop n g = replicate (k 0) e" using Cons.prems(2) p by auto
  then have "filter P (drop n g) = []" using Cons.prems(3) by simp
  then have "filter P g = filter P (take n g)" by (metis append_Nil2 append_take_drop_id filter_append)
  moreover have "filter P (concat gs) = filter P (concat (map2 (\<lambda>g n. take n g) gs pads'))"
    using Cons.prems p by (intro Cons.IH [of pads' "\<lambda>i. k (Suc i)"]) auto
  ultimately show ?case using p by simp
qed simp

lemma distribute_correct:
  fixes specs tc
  defines "gs \<equiv> distribute_specs_across_tasks specs tc"
  shows "length gs = max tc 1" "\<forall>g \<in> set gs. length g = div_ceil (length specs) (max tc 1)"
    "filter (\<lambda>s. \<not> spec_is_empty s) (concat gs) = filter (\<lambda>s. \<not> spec_is_empty s) specs"
proof -
  let ?n = "max tc 1" and ?p = "length specs"
  let ?base = "?p div ?n" and ?rem = "?p mod ?n"
  define k where "k = (if ?rem > 0 then ?base + 1 else ?base)"
  have k: "k = div_ceil ?p ?n" by (simp add: k_def div_ceil_def)
  have rem: "?rem < ?n" by (rule mod_less_divisor) simp
  have "min ?n ?rem = ?rem" using rem by (rule min.absorb2 [OF less_imp_le])
  then have "?n * ?base + min ?n ?rem = ?p" by simp
  then obtain gs' pads where f: "foldl (distribute_step specs ?base ?rem k) ([], 0) [0..<?n] = (gs', ?p)"
      "length gs' = ?n" "\<forall>g \<in> set gs'. length g = k" "concat (map2 (\<lambda>g n. take n g) gs' pads) = specs"
      "length pads = ?n" "\<forall>i < ?n. drop (pads ! i) (gs' ! i) = replicate (k - pads ! i) empty_spec"
    using distribute_fold [of ?n ?n specs ?base ?rem specs k] rem k_def by (auto simp: mult.commute)
  have gs: "gs = gs'" using f(1) unfolding gs_def distribute_specs_across_tasks_def Let_def k_def by simp
  have "spec_is_empty empty_spec"
    by (simp add: spec_is_empty_def empty_spec_def spec_range_def from_outer_def sel_is_empty_def u64_def)
  then show "filter (\<lambda>s. \<not> spec_is_empty s) (concat gs) = filter (\<lambda>s. \<not> spec_is_empty s) specs"
    using filter_pads [of pads gs' "\<lambda>i. k - pads ! i" empty_spec "\<lambda>s. \<not> spec_is_empty s"] f gs by simp
  show "length gs = ?n" "\<forall>g \<in> set gs. length g = div_ceil ?p ?n" using f(2,3) gs k by auto
qed

section \<open>Properties\<close>

text \<open>C12: splitting a resolved selection loses nothing and duplicates nothing: the pieces are well formed,
  concatenate to the selection, are pairwise disjoint, and there are between one and
  \<open>target\<close> of them.\<close>

theorem split_selection_partitions:
  assumes "sel_wf s"
  shows "concat (map positions (split_selection s cl t)) = positions s \<and>
    (\<forall>p \<in> set (split_selection s cl t). sel_wf p) \<and>
    (\<forall>i < length (split_selection s cl t). \<forall>j < length (split_selection s cl t). i \<noteq> j \<longrightarrow>
       set (positions (split_selection s cl t ! i)) \<inter> set (positions (split_selection s cl t ! j)) = {}) \<and>
    split_selection s cl t \<noteq> [] \<and> length (split_selection s cl t) \<le> max t 1"
proof -
  have "length (split_selection s cl t) \<le> max t 1"
  proof (cases s)
    case (SelIndices v)
    then show ?thesis using split_indices_correct(4) [of v cl t] assms
      by (cases "v = []") (auto simp: split_indices_def)
  qed (use assms split_range_length in auto)
  then show ?thesis
    using split_sel.split_concat [OF assms] split_sel.split_wf [OF assms] split_sel.pieces_disjoint [OF assms]
      split_sel.split_nonempty [OF assms] by auto
qed

theorem split_selection_partitions_witness:
  "concat (map positions (split_selection (SelIndices [0, 1, 5, 9]) 4 2)) = [0, 1, 5, 9] \<and>
   length (split_selection (SelIndices [0, 1, 5, 9]) 4 2) \<le> 2"
  using split_selection_partitions [of "SelIndices [0, 1, 5, 9]" 4 2] by (simp add: index_bound_def del: split_selection.simps)

text \<open>C13: no chunk is read by two partitions: positions in different pieces lie in different chunks.\<close>

theorem split_selection_chunk_aligned:
  assumes "sel_wf s" "0 < cl" "i < j" "j < length (split_selection s cl t)"
    "x \<in> set (positions (split_selection s cl t ! i))" "y \<in> set (positions (split_selection s cl t ! j))"
  shows "x div cl < y div cl"
  using split_selection_chunks [OF assms] .

theorem split_selection_chunk_aligned_witness:
  "split_selection (SelRange 3 12) 5 2 = [SelRange 3 10, SelRange 10 12] \<and> 9 div 5 < (10 :: nat) div 5"
proof -
  have eq: "split_selection (SelRange 3 12) 5 2 = [SelRange 3 10, SelRange 10 12]"
    by code_simp
  have "9 div 5 < (10 :: nat) div 5"
    using split_selection_chunk_aligned [of "SelRange 3 12" 5 0 1 2 9 10] unfolding eq by (simp add: index_bound_def)
  with eq show ?thesis by simp
qed

text \<open>blind slicing of an axis is the slicing of its full range, so it covers the axis contiguously
  from 0 to its length, chunk-aligned.\<close>

theorem plan_partitions_covers:
  assumes "0 < ol"
  shows "plan_partitions ol cl t = map from_outer (split_selection (SelRange 0 ol) (if cl = 0 then ol else cl) t) \<and>
    concat (map (positions \<circ> outer) (plan_partitions ol cl t)) = [0..<ol]"
proof -
  have "concat (map (\<lambda>(s, e). [s..<e]) (split_range 0 ol (if cl = 0 then ol else cl) t)) = [0..<ol]"
    by (rule split_range_correct) simp
  then show ?thesis using plan_partitions_split [OF assms, of cl t]
    by (simp add: from_outer_def comp_def case_prod_unfold)
qed

theorem plan_partitions_covers_witness:
  "concat (map (positions \<circ> outer) (plan_partitions 7 2 4)) = [0..<7]"
  using conjunct2 [OF plan_partitions_covers [of 7 2 4]] by simp

text \<open>dealing partitions out to tasks gives exactly one group per task, all of the same length, and
  the non-empty partitions across the groups are the non-empty input partitions in order.\<close>

theorem distribute_uniform_and_complete:
  "length (distribute_specs_across_tasks specs tc) = max tc 1 \<and>
   (\<exists>k. list_all (\<lambda>g. length g = k) (distribute_specs_across_tasks specs tc)) \<and>
   filter (\<lambda>s. \<not> spec_is_empty s) (concat (distribute_specs_across_tasks specs tc)) =
     filter (\<lambda>s. \<not> spec_is_empty s) specs"
  using distribute_correct [of specs tc] by (auto simp: list_all_iff)

end
