(* ===== verification/Tile_Grid.thy ===== *)
theory Tile_Grid
  imports Partition Budget
begin

text \<open>
  The streaming windows of a scan (\<open>src/reader/zarr_reader.rs\<close>): chopping a selection into
  windows, the lazy odometer \<open>TileGrid\<close> over the grid of windows, and the slicing of a window
  into output batches.  The lemmas show that windows are a splitter, that the odometer visits
  every tile once in row-major order and stops, and that for the tile shapes the planner
  chooses the streamed rows are the un-windowed rows in the same order.
\<close>

section \<open>Windows\<close>

function window_range :: "nat \<Rightarrow> nat \<Rightarrow> nat \<Rightarrow> CoordSelection list" where
  "window_range a e max_steps =
     (if a < e \<and> 0 < max_steps then
        let b = min (a + max_steps) e in SelRange a b # window_range b e max_steps
      else [])"
  by pat_completeness auto
termination
  by (relation "measure (\<lambda>(a, e, m). e - a)") auto

declare window_range.simps [simp del]

text \<open>\<open>slice::chunks\<close>; the size is positive at every call.\<close>

function chunks_of :: "nat \<Rightarrow> 'a list \<Rightarrow> 'a list list" where
  "chunks_of n xs = (if xs = [] \<or> n = 0 then [] else take n xs # chunks_of n (drop n xs))"
  by pat_completeness auto
termination
  by (relation "measure (\<lambda>(n, xs). length xs)") auto

declare chunks_of.simps [simp del]

fun window_outer_selection :: "CoordSelection \<Rightarrow> nat \<Rightarrow> CoordSelection list" where
  "window_outer_selection (SelRange s e) max_steps' =
     (let max_steps = max max_steps' 1 in
      if e \<le> s then [SelRange s s] else window_range s e max_steps)"
| "window_outer_selection (SelIndices v) max_steps' =
     (let max_steps = max max_steps' 1 in
      if v = [] then [SelIndices []] else map SelIndices (chunks_of max_steps v))"

record AxisWindow =
  win_sel :: CoordSelection
  win_offset :: nat
  win_len :: nat

fun number_windows :: "nat \<Rightarrow> CoordSelection list \<Rightarrow> AxisWindow list" where
  "number_windows off [] = []"
| "number_windows off (w # ws) =
     \<lparr>win_sel = w, win_offset = off, win_len = sel_len w\<rparr> # number_windows (off + sel_len w) ws"

definition axis_windows :: "CoordSelection \<Rightarrow> nat \<Rightarrow> AxisWindow list" where
  "axis_windows sel tile = number_windows 0 (window_outer_selection sel tile)"

section \<open>The odometer\<close>

record TileGrid =
  per_axis :: "AxisWindow list list"
  cursor :: "nat list"
  grid_done :: bool

definition TileGrid_new :: "CoordSelection list \<Rightarrow> nat list \<Rightarrow> TileGrid" where
  "TileGrid_new sels ts =
     (let pa = map2 axis_windows sels ts
      in \<lparr>per_axis = pa, cursor = replicate (length pa) 0, grid_done = False\<rparr>)"

definition grid_n_batches :: "TileGrid \<Rightarrow> nat" where
  "grid_n_batches g = foldl (\<lambda>acc w. u64 (acc * length w)) 1 (per_axis g)"

text \<open>The carry, from axis \<open>ax - 1\<close> outward; the flag is \<open>done\<close>.\<close>

fun carry :: "'a list list \<Rightarrow> nat list \<Rightarrow> nat \<Rightarrow> nat list \<times> bool" where
  "carry pa cur 0 = (cur, True)"
| "carry pa cur (Suc ax) =
     (let cur' = cur[ax := cur ! ax + 1] in
      if cur' ! ax < length (pa ! ax) then (cur', False)
      else carry pa (cur'[ax := 0]) ax)"

definition grid_next :: "TileGrid \<Rightarrow> AxisWindow list option \<times> TileGrid" where
  "grid_next g =
     (if grid_done g then (None, g)
      else
        let batch = map (\<lambda>(ax, i). per_axis g ! ax ! i) (enumerate 0 (cursor g));
            (cur, d) = carry (per_axis g) (cursor g) (length (cursor g))
        in (Some batch, g\<lparr>cursor := cur, grid_done := d\<rparr>))"

text \<open>Draining the grid, with a bound on the number of calls.\<close>

fun grid_drain :: "nat \<Rightarrow> TileGrid \<Rightarrow> AxisWindow list list \<times> TileGrid" where
  "grid_drain 0 g = ([], g)"
| "grid_drain (Suc n) g =
     (case grid_next g of
        (None, g') \<Rightarrow> ([], g')
      | (Some b, g') \<Rightarrow> (let (bs, g'') = grid_drain n g' in (b # bs, g'')))"

section \<open>Slicing a window into batches\<close>

text \<open>A record batch as its list of rows; \<open>RecordBatch::slice\<close> is a segment of it.\<close>

function slice_loop :: "'r list \<Rightarrow> nat \<Rightarrow> nat \<Rightarrow> 'r list list" where
  "slice_loop batch step off =
     (if off < length batch \<and> 0 < step then
        let len' = min step (length batch - off)
        in take len' (drop off batch) # slice_loop batch step (off + len')
      else [])"
  by pat_completeness auto
termination
  by (relation "measure (\<lambda>(b, s, off). length b - off)") auto

declare slice_loop.simps [simp del]

definition slice_to_batch_size :: "'r list \<Rightarrow> nat \<Rightarrow> 'r list list" where
  "slice_to_batch_size batch batch_size =
     (let step = max batch_size 1 in
      if length batch \<le> step then [batch] else slice_loop batch step 0)"

section \<open>Windows are a splitter\<close>

lemma window_range_correct:
  "a \<le> e \<Longrightarrow> 0 < n \<Longrightarrow> concat (map positions (window_range a e n)) = [a..<e] \<and>
     (\<forall>w \<in> set (window_range a e n). \<exists>s t. w = SelRange s t \<and> s < t \<and> t \<le> e \<and> t - s \<le> n)"
proof (induction a e n rule: window_range.induct)
  case (1 a e n)
  show ?case
  proof (cases "a < e")
    case True
    define b where "b = min (a + n) e"
    have b: "a < b" "b \<le> e" "b - a \<le> n" using True "1.prems" by (auto simp: b_def)
    have unf: "window_range a e n = SelRange a b # window_range b e n"
      using True "1.prems" by (subst window_range.simps) (simp add: Let_def b_def)
    have IH: "concat (map positions (window_range b e n)) = [b..<e]"
      "\<forall>w \<in> set (window_range b e n). \<exists>s t. w = SelRange s t \<and> s < t \<and> t \<le> e \<and> t - s \<le> n"
      using "1.IH" [OF _ b_def b(2)] True "1.prems" by auto
    show ?thesis using IH b upt_join [of a b e] by (auto simp: unf)
  next
    case False
    then have "window_range a e n = []" by (subst window_range.simps) simp
    then show ?thesis using False "1.prems" by simp
  qed
qed

lemma chunks_of_correct:
  "0 < n \<Longrightarrow> concat (chunks_of n xs) = xs \<and> (\<forall>c \<in> set (chunks_of n xs). c \<noteq> [] \<and> length c \<le> n)"
proof (induction n xs rule: chunks_of.induct)
  case (1 n xs)
  show ?case
  proof (cases "xs = []")
    case False
    then have unf: "chunks_of n xs = take n xs # chunks_of n (drop n xs)"
      using "1.prems" by (subst chunks_of.simps) simp
    show ?thesis using 1 False by (simp add: unf)
  qed (simp add: chunks_of.simps [of n "[]"])
qed

lemma window_concat: "sel_wf s \<Longrightarrow> concat (map positions (window_outer_selection s n)) = positions s"
proof (cases s)
  case (SelRange a b)
  assume "sel_wf s"
  then show ?thesis using SelRange window_range_correct [of a b "max n 1"] by (simp add: Let_def)
next
  case (SelIndices v)
  then show ?thesis using chunks_of_correct [of "max n 1" v] by (simp add: Let_def comp_def)
qed

lemma window_sizes:
  assumes "sel_wf s" "w \<in> set (window_outer_selection s n)"
  shows "sel_wf w" "length (positions w) \<le> max n 1" "positions s \<noteq> [] \<Longrightarrow> positions w \<noteq> []"
proof -
  have "sel_wf w \<and> length (positions w) \<le> max n 1 \<and> (positions s \<noteq> [] \<longrightarrow> positions w \<noteq> [])"
  proof (cases s)
    case (SelRange a b)
    show ?thesis
    proof (cases "b \<le> a")
      case False
      then have "w \<in> set (window_range a b (max n 1))" using assms SelRange by (simp add: Let_def)
      then obtain p q where "w = SelRange p q" "p < q" "q \<le> b" "q - p \<le> max n 1"
        using window_range_correct [of a b "max n 1"] False by force
      then show ?thesis using assms(1) SelRange by auto
    qed (use assms SelRange in \<open>auto simp: Let_def\<close>)
  next
    case (SelIndices v)
    show ?thesis
    proof (cases "v = []")
      case False
      then obtain c where c: "w = SelIndices c" "c \<in> set (chunks_of (max n 1) v)"
        using assms(2) SelIndices by (auto simp: Let_def)
      have eq: "concat (chunks_of (max n 1) v) = v" "c \<noteq> []" "length c \<le> max n 1"
        using chunks_of_correct [of "max n 1" v] c(2) by auto
      have "sorted c" "distinct c" "set c \<subseteq> set v"
        using concat_piece [OF _ _ c(2)] assms(1) SelIndices unfolding eq(1) by simp_all
      then show ?thesis using c(1) eq assms(1) SelIndices by auto
    qed (use assms SelIndices in \<open>simp add: Let_def\<close>)
  qed
  then show "sel_wf w" "length (positions w) \<le> max n 1" "positions s \<noteq> [] \<Longrightarrow> positions w \<noteq> []" by auto
qed

lemma window_nonempty: "window_outer_selection s n \<noteq> []"
proof (cases s)
  case (SelRange a b)
  then show ?thesis by (simp add: Let_def) (subst window_range.simps, simp add: Let_def)
next
  case (SelIndices v)
  then show ?thesis by (simp add: Let_def) (subst chunks_of.simps, simp)
qed

interpretation windows: splitter "\<lambda>s. window_outer_selection s n" for n
  by unfold_locales (auto intro: window_sizes window_concat simp: window_nonempty)

text \<open>A tile that covers the whole axis gives one window.\<close>

lemma window_whole:
  assumes "sel_wf s" "sel_len s \<le> n"
  shows "length (window_outer_selection s n) = 1"
proof (cases s)
  case (SelRange a b)
  then have "b - a \<le> n" using assms by (simp add: sel_len_positions del: sel_len.simps)
  then show ?thesis using SelRange
    by (simp add: Let_def) (subst window_range.simps, subst window_range.simps, auto simp: Let_def)
next
  case (SelIndices v)
  then show ?thesis using assms
    by (simp add: Let_def) (subst chunks_of.simps, subst chunks_of.simps, simp)
qed

section \<open>The odometer visits the grid in row-major order\<close>

text \<open>What is still to come, the current batch first.\<close>

fun upcoming :: "'a list list \<Rightarrow> nat list \<Rightarrow> 'a list list" where
  "upcoming (ws # pa) (i # cur) =
     map ((#) (ws ! i)) (upcoming pa cur) @ concat (map (\<lambda>w. map ((#) w) (product_lists pa)) (drop (Suc i) ws))"
| "upcoming pa cur = [[]]"

fun carry_rec :: "'a list list \<Rightarrow> nat list \<Rightarrow> nat list \<times> bool" where
  "carry_rec (ws # pa) (i # cur) =
     (case carry_rec pa cur of
        (cur', False) \<Rightarrow> (i # cur', False)
      | (cur', True) \<Rightarrow> if Suc i < length ws then (Suc i # cur', False) else (0 # cur', True))"
| "carry_rec pa cur = (cur, True)"

lemma carry_Cons:
  "length cur = n \<Longrightarrow> carry (ws # pa) (i # cur) (Suc n') =
     (case carry pa cur n' of
        (cur', False) \<Rightarrow> (i # cur', False)
      | (cur', True) \<Rightarrow> if Suc i < length ws then (Suc i # cur', False) else (0 # cur', True))"
  by (induction n' arbitrary: cur) (auto simp: Let_def split: if_splits prod.splits bool.splits)

lemma carry_eq_rec: "length pa = length cur \<Longrightarrow> carry pa cur (length cur) = carry_rec pa cur"
proof (induction pa cur rule: carry_rec.induct)
  case (1 ws pa i cur)
  then show ?case using carry_Cons [OF refl, of ws pa i cur "length cur"] by simp
qed simp_all

definition cursor_ok :: "'a list list \<Rightarrow> nat list \<Rightarrow> bool" where
  "cursor_ok pa cur \<longleftrightarrow> list_all2 (\<lambda>ws i. i < length ws) pa cur"

lemma upcoming_zero: "\<forall>ws \<in> set pa. ws \<noteq> [] \<Longrightarrow> upcoming pa (replicate (length pa) 0) = product_lists pa"
proof (induction pa)
  case (Cons ws pa)
  then obtain w ws' where "ws = w # ws'" by (cases ws) auto
  then show ?case using Cons by simp
qed simp

abbreviation current :: "'a list list \<Rightarrow> nat list \<Rightarrow> 'a list" where
  "current pa cur \<equiv> map2 (\<lambda>ws i. ws ! i) pa cur"

lemma carry_upcoming:
  assumes "cursor_ok pa cur" "carry_rec pa cur = (cur', d)"
  shows "cursor_ok pa cur' \<and> (d \<longrightarrow> cur' = replicate (length pa) 0) \<and>
    upcoming pa cur = current pa cur # (if d then [] else upcoming pa cur')"
  using assms
proof (induction pa cur arbitrary: cur' d rule: carry_rec.induct)
  case (1 ws pa i cur)
  obtain c e where ce: "carry_rec pa cur = (c, e)" by fastforce
  have IH: "cursor_ok pa c" "e \<longrightarrow> c = replicate (length pa) 0"
    "upcoming pa cur = current pa cur # (if e then [] else upcoming pa c)"
    using "1.IH" [OF _ ce] "1.prems"(1) by (auto simp: cursor_ok_def)
  have i: "i < length ws" using "1.prems"(1) by (simp add: cursor_ok_def)
  show ?case
  proof (cases e)
    case False
    then show ?thesis using IH i "1.prems"(2) ce by (auto simp: cursor_ok_def)
  next
    case True
    have ne: "\<forall>ws \<in> set pa. ws \<noteq> []"
      using "1.prems"(1) by (fastforce simp: cursor_ok_def list_all2_conv_all_nth in_set_conv_nth)
    have z: "upcoming pa c = product_lists pa" using upcoming_zero [OF ne] IH(2) True by simp
    show ?thesis
    proof (cases "Suc i < length ws")
      case True
      then have "drop (Suc i) ws = ws ! Suc i # drop (Suc (Suc i)) ws" by (simp add: Cons_nth_drop_Suc)
      then show ?thesis using True \<open>e\<close> IH i z "1.prems"(2) ce by (auto simp: cursor_ok_def)
    next
      case False
      then have "cur' = 0 # c" "d" using "1.prems"(2) ce \<open>e\<close> by auto
      then show ?thesis using False \<open>e\<close> IH i by (auto simp: cursor_ok_def)
    qed
  qed
qed (auto simp: cursor_ok_def)

definition grid_ok :: "TileGrid \<Rightarrow> bool" where
  "grid_ok g \<longleftrightarrow> cursor_ok (per_axis g) (cursor g)"

definition remaining :: "TileGrid \<Rightarrow> AxisWindow list list" where
  "remaining g = (if grid_done g then [] else upcoming (per_axis g) (cursor g))"

lemma current_eq:
  assumes "length cur = length pa"
  shows "map (\<lambda>(ax, i). pa ! ax ! i) (enumerate 0 cur) = current pa cur"
  using assms by (intro nth_equalityI) (auto simp: nth_enumerate_eq)

lemma grid_next_correct:
  assumes "grid_ok g" "grid_next g = (r, g')"
  shows "grid_ok g' \<and> per_axis g' = per_axis g \<and>
    (case r of None \<Rightarrow> remaining g = [] \<and> g' = g | Some b \<Rightarrow> remaining g = b # remaining g')"
proof (cases "grid_done g")
  case True
  then show ?thesis using assms by (simp add: grid_next_def remaining_def)
next
  case False
  let ?pa = "per_axis g" and ?cur = "cursor g"
  have len: "length ?pa = length ?cur" using assms(1) by (simp add: grid_ok_def cursor_ok_def list_all2_lengthD)
  obtain cur' d where c: "carry_rec ?pa ?cur = (cur', d)" by fastforce
  have "r = Some (current ?pa ?cur)" "g' = g\<lparr>cursor := cur', grid_done := d\<rparr>"
    using assms(2) False c current_eq [of ?cur ?pa] len by (auto simp: grid_next_def carry_eq_rec Let_def)
  then show ?thesis
    using carry_upcoming [OF _ c] assms(1) False by (auto simp: grid_ok_def remaining_def)
qed

lemma grid_drain_correct:
  assumes "grid_ok g" "length (remaining g) < n"
  shows "\<exists>g'. grid_drain n g = (remaining g, g') \<and> remaining g' = [] \<and> grid_done g'"
  using assms
proof (induction n arbitrary: g)
  case (Suc n)
  obtain r g' where s: "grid_next g = (r, g')" by fastforce
  note st = grid_next_correct [OF Suc.prems(1) s]
  show ?case
  proof (cases r)
    case None
    then have "grid_done g" using s by (auto simp: grid_next_def Let_def split: if_splits prod.splits)
    then show ?thesis using None st s by auto
  next
    case (Some b)
    then obtain g'' where "grid_drain n g' = (remaining g', g'')" "remaining g'' = []" "grid_done g''"
      using Suc.IH [of g'] st Suc.prems(2) by auto
    then show ?thesis using Some st s by simp
  qed
qed simp

lemma length_number_windows [simp]: "length (number_windows off ws) = length ws"
  by (induction ws arbitrary: off) simp_all

lemma map_win_sel [simp]: "map win_sel (number_windows off ws) = ws"
  by (induction ws arbitrary: off) simp_all

lemma axis_windows_sel: "map win_sel (axis_windows s t) = window_outer_selection s t"
  by (simp add: axis_windows_def)

lemma axis_windows_nonempty [simp]: "axis_windows s t \<noteq> []"
  using axis_windows_sel [of s t] window_nonempty [of s t] by auto

lemma TileGrid_new_remaining:
  "grid_ok (TileGrid_new sels ts) \<and> remaining (TileGrid_new sels ts) = product_lists (map2 axis_windows sels ts)"
proof -
  let ?pa = "map2 axis_windows sels ts"
  have ne: "\<forall>ws \<in> set ?pa. ws \<noteq> []" by auto
  have "cursor_ok ?pa (replicate (length ?pa) 0)"
    using ne by (auto simp: cursor_ok_def list_all2_conv_all_nth)
  then show ?thesis using upcoming_zero [OF ne]
    by (simp add: grid_ok_def remaining_def TileGrid_new_def Let_def)
qed

section \<open>Streamed rows\<close>

text \<open>The index tuples of one tile, and of a whole grid, in emission order.\<close>

definition tile_rows :: "AxisWindow list \<Rightarrow> nat list list" where
  "tile_rows b = product_lists (map (positions \<circ> win_sel) b)"

definition grid_rows :: "AxisWindow list list \<Rightarrow> nat list list" where
  "grid_rows bs = concat (map tile_rows bs)"

abbreviation axis_positions :: "AxisWindow list \<Rightarrow> nat list" where
  "axis_positions ws \<equiv> concat (map (positions \<circ> win_sel) ws)"

lemma axis_windows_positions: "sel_wf s \<Longrightarrow> axis_positions (axis_windows s t) = positions s"
  using windows.split_concat [of s t] axis_windows_sel [of s t]
  by (metis (no_types, lifting) map_map)

lemma grid_rows_append [simp]: "grid_rows (xs @ ys) = grid_rows xs @ grid_rows ys"
  by (simp add: grid_rows_def)

lemma product_lists_split [simp]:
  "product_lists ((xs @ ys) # r) = product_lists (xs # r) @ product_lists (ys # r)"
  by simp

lemma tile_rows_Cons: "tile_rows (w # b) = concat (map (\<lambda>x. map ((#) x) (tile_rows b)) (positions (win_sel w)))"
  by (simp add: tile_rows_def)

text \<open>Grids whose tiles are slabs of the row-major order: one-step axes outside, whole axes inside.\<close>

fun row_major :: "AxisWindow list list \<Rightarrow> bool" where
  "row_major [] = True"
| "row_major (ws # pa) \<longleftrightarrow>
     (\<forall>vs \<in> set pa. length vs = 1) \<or> (row_major pa \<and> (\<forall>w \<in> set ws. length (positions (win_sel w)) = 1))"

lemma whole_axes:
  "\<forall>vs \<in> set pa. length vs = 1 \<Longrightarrow>
     product_lists pa = [map hd pa] \<and> tile_rows (map hd pa) = product_lists (map axis_positions pa)"
proof (induction pa)
  case (Cons vs pa)
  then obtain v where "vs = [v]" by (auto simp: length_Suc_conv)
  then show ?case using Cons by (simp add: tile_rows_Cons)
qed (simp add: tile_rows_def)

lemma grid_rows_map_Cons:
  assumes "positions (win_sel w) = [x]"
  shows "grid_rows (map ((#) w) bs) = map ((#) x) (grid_rows bs)"
  using assms by (induction bs) (simp_all add: grid_rows_def tile_rows_Cons)

lemma grid_rows_order: "row_major pa \<Longrightarrow> grid_rows (product_lists pa) = product_lists (map axis_positions pa)"
proof (induction pa)
  case (Cons ws pa)
  show ?case
  proof (cases "\<forall>vs \<in> set pa. length vs = 1")
    case True
    show ?thesis
    proof (induction ws)
      case (Cons w ws)
      have "grid_rows (product_lists ((w # ws) # pa)) = tile_rows (w # map hd pa) @ grid_rows (product_lists (ws # pa))"
        using whole_axes [OF True] by (simp add: grid_rows_def)
      also have "\<dots> = product_lists (map axis_positions ((w # ws) # pa))"
        using Cons.IH whole_axes [OF True] by (simp add: tile_rows_Cons comp_def)
      finally show ?case .
    qed (simp add: grid_rows_def)
  next
    case False
    then have rm: "row_major pa" and one: "\<forall>w \<in> set ws. length (positions (win_sel w)) = 1"
      using Cons.prems by auto
    note inner = Cons.IH [OF rm]
    show ?thesis using one
    proof (induction ws)
      case (Cons w ws)
      obtain x where x: "positions (win_sel w) = [x]" using Cons.prems by (auto simp: length_Suc_conv)
      then show ?case using Cons.IH Cons.prems inner by (simp add: grid_rows_map_Cons)
    qed (simp add: grid_rows_def)
  qed
qed (simp add: grid_rows_def tile_rows_def)

text \<open>The tiles of a streaming plan make such a grid.\<close>

lemma list_all_single:
  assumes "\<forall>s \<in> set sels. sel_wf s"
  shows "\<forall>vs \<in> set (map2 axis_windows sels (map sel_len sels)). length vs = 1"
  using assms window_whole axis_windows_sel
  by (auto simp: zip_map2 in_set_zip axis_windows_def)

lemma one_step_windows:
  assumes "sel_wf s" "0 < sel_len s" "w \<in> set (axis_windows s 1)"
  shows "length (positions (win_sel w)) = 1"
proof -
  have "win_sel w \<in> set (window_outer_selection s 1)" using assms(3) axis_windows_sel [of s 1] by (metis image_eqI image_set)
  then show ?thesis using window_sizes [OF assms(1), of "win_sel w" 1] assms(2)
    by (metis One_nat_def assms(1) le_antisym length_greater_0_conv max.idem sel_len_positions Suc_leI)
qed

lemma pivot_row_major:
  assumes "\<forall>s \<in> set sels. sel_wf s \<and> 0 < sel_len s" "i < length sels"
  shows "row_major (map2 axis_windows sels (replicate i 1 @ t # map sel_len (drop (Suc i) sels)))"
  using assms
proof (induction sels arbitrary: i)
  case (Cons s sels)
  show ?case
  proof (cases i)
    case 0
    then show ?thesis using list_all_single [of sels] Cons.prems by simp
  next
    case (Suc k)
    then show ?thesis using Cons.IH [of k] Cons.prems one_step_windows [of s] by auto
  qed
qed simp

lemma row_major_rows:
  assumes "\<forall>s \<in> set sels. sel_wf s" "length ts = length sels" "row_major (map2 axis_windows sels ts)"
  shows "grid_rows (product_lists (map2 axis_windows sels ts)) = product_lists (map positions sels)"
proof -
  have "map axis_positions (map2 axis_windows sels ts) = map positions sels"
    using assms(1,2) axis_windows_positions by (intro nth_equalityI) auto
  then show ?thesis using grid_rows_order [OF assms(3)] by simp
qed

text \<open>Chunk alignment keeps the one-step axes and the whole axes of the plan.\<close>

lemma chunked_plan_shape:
  assumes ok: "sizes_ok sizes" and ne: "sizes \<noteq> []"
  shows "\<exists>i t. i < length sizes \<and>
    plan_streaming_chunked sizes target ck = Some \<lparr>tiles = replicate i 1 @ t # drop (Suc i) sizes\<rparr>"
proof -
  obtain i s where p: "i < length sizes"
    "plan_streaming sizes target = Some \<lparr>tiles = replicate i 1 @ s # drop (Suc i) sizes\<rparr>"
    using plan_streaming_shape [OF ok ne] by metis
  let ?ts = "replicate i 1 @ s # drop (Suc i) sizes"
  obtain q where q: "plan_streaming_chunked sizes target ck = Some q" "length (tiles q) = length sizes"
      "\<forall>j < length sizes. tiles q ! j = aligned_tile (sizes ! j) (max (get_or_one ck j) 1) (?ts ! j)"
    using plan_streaming_chunked_tiles [OF ok p(2)] by auto
  have "tiles q = replicate i 1 @ tiles q ! i # drop (Suc i) sizes"
  proof (rule nth_equalityI)
    show "length (tiles q) = length (replicate i 1 @ tiles q ! i # drop (Suc i) sizes)" using p(1) q(2) by simp
    fix j assume "j < length (tiles q)"
    then have j: "j < length sizes" using q(2) by simp
    consider "j < i" | "j = i" | "i < j" by linarith
    then show "tiles q ! j = (replicate i 1 @ tiles q ! i # drop (Suc i) sizes) ! j"
    proof cases
      case 1
      then show ?thesis using q(3) j by (simp add: nth_append aligned_tile_def)
    next
      case 3
      then obtain k where "j = Suc (i + k)" using less_iff_Suc_add by auto
      then show ?thesis using q(3) j by (simp add: nth_append aligned_tile_def)
    qed (simp add: nth_append)
  qed
  then have "q = \<lparr>tiles = replicate i 1 @ tiles q ! i # drop (Suc i) sizes\<rparr>" by (cases q) simp
  then show ?thesis using p(1) q(1) by metis
qed

section \<open>Batches of a window\<close>

lemma slice_loop_correct:
  "0 < step \<Longrightarrow> concat (slice_loop b step off) = drop off b \<and>
     (\<forall>s \<in> set (slice_loop b step off). s \<noteq> [] \<and> length s \<le> step)"
proof (induction b step off rule: slice_loop.induct)
  case (1 b step off)
  show ?case
  proof (cases "off < length b")
    case True
    define n where "n = min step (length b - off)"
    have unf: "slice_loop b step off = take n (drop off b) # slice_loop b step (off + n)"
      using True "1.prems" by (subst slice_loop.simps) (simp add: Let_def n_def)
    have IH: "concat (slice_loop b step (off + n)) = drop (off + n) b"
      "\<forall>s \<in> set (slice_loop b step (off + n)). s \<noteq> [] \<and> length s \<le> step"
      using "1.IH" [OF _ n_def] True "1.prems" by auto
    have "take n (drop off b) @ drop (off + n) b = drop off b"
      by (metis add.commute append_take_drop_id drop_drop)
    then show ?thesis using IH True "1.prems" by (auto simp: unf n_def)
  qed (simp add: slice_loop.simps [of b step off])
qed

section \<open>Properties\<close>

text \<open>C3: streaming is transparent.  With the tiles the budget planner chooses for a non-empty
  selection, draining the tile grid ends after finitely many calls and the rows of its tiles,
  in emission order, are exactly the rows of the un-windowed selection in row-major order.\<close>

theorem streamed_rows_in_order:
  assumes "\<forall>s \<in> set sels. sel_wf s" "sels \<noteq> []" "sizes_ok (map sel_len sels)"
  shows "\<exists>p n g'. plan_streaming_chunked (map sel_len sels) target ck = Some p \<and>
    (\<exists>bs. grid_drain n (TileGrid_new sels (tiles p)) = (bs, g') \<and> grid_done g' \<and>
       grid_rows bs = product_lists (map positions sels))"
proof -
  obtain i t where p: "i < length sels"
    "plan_streaming_chunked (map sel_len sels) target ck =
       Some \<lparr>tiles = replicate i 1 @ t # drop (Suc i) (map sel_len sels)\<rparr>"
    using chunked_plan_shape [OF assms(3), of target ck] assms(2) by auto
  let ?ts = "replicate i 1 @ t # map sel_len (drop (Suc i) sels)"
  have pos: "\<forall>s \<in> set sels. sel_wf s \<and> 0 < sel_len s" using assms(1,3) by (simp add: sizes_ok_def)
  have "grid_rows (product_lists (map2 axis_windows sels ?ts)) = product_lists (map positions sels)"
    using row_major_rows [OF assms(1), of ?ts] pivot_row_major [OF pos p(1)] p(1) by simp
  moreover obtain n g' where "grid_drain n (TileGrid_new sels ?ts) = (product_lists (map2 axis_windows sels ?ts), g')"
      "grid_done g'"
    using grid_drain_correct [of "TileGrid_new sels ?ts"] TileGrid_new_remaining [of sels ?ts] by (metis lessI)
  ultimately show ?thesis using p(2) by (metis BatchPlan.select_convs(1) drop_map)
qed

theorem streamed_rows_in_order_witness:
  "\<exists>p n g'. plan_streaming_chunked (map sel_len [SelRange 0 5, SelIndices [1, 4]]) 4 [2, 2] = Some p \<and>
    (\<exists>bs. grid_drain n (TileGrid_new [SelRange 0 5, SelIndices [1, 4]] (tiles p)) = (bs, g') \<and> grid_done g' \<and>
       grid_rows bs = product_lists [[0..<5], [1, 4]])"
proof -
  have "sizes_ok (map sel_len [SelRange 0 5, SelIndices [1, 4]])"
    by (simp add: sizes_ok_def index_bound_def u64_def)
  then show ?thesis
    using streamed_rows_in_order [of "[SelRange 0 5, SelIndices [1, 4]]" 4 "[2, 2]"]
    by (simp add: index_bound_def del: product_lists.simps)
qed

text \<open>C31: the odometer visits the grid of windows exactly once in row-major order, for any tile sizes, and
  reports the end once and for all.\<close>

theorem odometer_enumerates_grid:
  assumes "length (product_lists (map2 axis_windows sels ts)) < n"
  shows "\<exists>g'. grid_drain n (TileGrid_new sels ts) = (product_lists (map2 axis_windows sels ts), g') \<and>
    grid_next g' = (None, g')"
  using grid_drain_correct [of "TileGrid_new sels ts" n] TileGrid_new_remaining [of sels ts] assms
  by (auto simp: grid_next_def)

theorem odometer_enumerates_grid_witness:
  "\<exists>g'. grid_drain 5 (TileGrid_new [SelIndices [7, 8, 9], SelIndices [1]] [2, 1]) =
     (product_lists (map2 axis_windows [SelIndices [7, 8, 9], SelIndices [1]] [2, 1]), g') \<and> grid_next g' = (None, g')"
  by (rule odometer_enumerates_grid) (simp add: axis_windows_def chunks_of.simps Let_def)

text \<open>a window is emitted in slices of at most \<open>batch_size\<close> rows that concatenate to the window.\<close>

theorem batch_slices_reassemble:
  "concat (slice_to_batch_size batch bs) = batch \<and>
   list_all (\<lambda>s. length s \<le> max bs 1) (slice_to_batch_size batch bs)"
  using slice_loop_correct [of "max bs 1" batch 0] by (auto simp: slice_to_batch_size_def Let_def list_all_iff)

end
