(* ===== verification/Coord_Values.thy ===== *)
theory Coord_Values
  imports Selection Budget
begin

text \<open>
  Coordinate values and the flattening of an array into rows (\<open>src/reader/coord.rs\<close>): the compact
  encodings, slicing and gathering, dictionary keys of the Cartesian product, and the limit
  arithmetic.  The lemmas show that compaction and slicing keep every value, that the keys of
  the coordinate columns enumerate the cells in row-major order, and that a limited read
  covers the rows it must.
\<close>

section \<open>Compact encodings\<close>

datatype 'f CompactCoord =
    Arithmetic 'f 'f nat
  | ArithmeticInt int int nat

fun compact_len :: "'f CompactCoord \<Rightarrow> nat" where
  "compact_len (Arithmetic f s n) = n"
| "compact_len (ArithmeticInt f s n) = n"

definition compact_is_empty :: "'f CompactCoord \<Rightarrow> bool" where
  "compact_is_empty c \<longleftrightarrow> compact_len c = 0"

text \<open>\<open>i as i64\<close> on an index is the index itself.\<close>

fun value_at_f64 :: "'f F64 \<Rightarrow> 'f CompactCoord \<Rightarrow> nat \<Rightarrow> 'f" where
  "value_at_f64 fl (Arithmetic f s n) i = f_add fl f (f_mul fl (f_of_int fl (int i)) s)"
| "value_at_f64 fl (ArithmeticInt f s n) i = f_of_int fl (i64 (f + i64 (int i * s)))"

fun value_at_i64 :: "'f F64 \<Rightarrow> 'f CompactCoord \<Rightarrow> nat \<Rightarrow> int" where
  "value_at_i64 fl (ArithmeticInt f s n) i = i64 (f + i64 (int i * s))"
| "value_at_i64 fl (Arithmetic f s n) i =
     as_i64 (f_round fl (f_add fl f (f_mul fl (f_of_int fl (int i)) s)))"

definition to_vec_f64 :: "'f F64 \<Rightarrow> 'f CompactCoord \<Rightarrow> 'f list" where
  "to_vec_f64 fl c = map (value_at_f64 fl c) [0..<compact_len c]"

definition to_vec_i64 :: "'f F64 \<Rightarrow> 'f CompactCoord \<Rightarrow> int list" where
  "to_vec_i64 fl c = map (value_at_i64 fl c) [0..<compact_len c]"

fun compact_is_integer :: "'f CompactCoord \<Rightarrow> bool" where
  "compact_is_integer (ArithmeticInt f s n) = True"
| "compact_is_integer (Arithmetic f s n) = False"

definition try_as_compact_i64 :: "int list \<Rightarrow> 'f CompactCoord option" where
  "try_as_compact_i64 vals =
     (if vals = [] then None
      else if length vals = 1 then Some (ArithmeticInt (vals ! 0) 0 1)
      else
        let first' = vals ! 0; step = i64 (vals ! 1 - vals ! 0) in
        if list_all (\<lambda>(i, v). v = i64 (first' + i64 (int i * step))) (enumerate 0 vals)
        then Some (ArithmeticInt first' step (length vals)) else None)"

definition try_as_compact_f64 :: "'f::{linorder,zero} F64 \<Rightarrow> 'f list \<Rightarrow> 'f CompactCoord option" where
  "try_as_compact_f64 fl vals =
     (if vals = [] then None
      else if length vals = 1 then Some (Arithmetic (vals ! 0) 0 1)
      else
        let first' = vals ! 0; step = f_sub fl (vals ! 1) (vals ! 0) in
        if list_all (\<lambda>(i, v).
              \<not> f_abs fl (f_sub fl v (f_add fl first' (f_mul fl (f_of_int fl (int i)) step))) > f_tol10 fl)
             (enumerate 0 vals)
        then Some (Arithmetic first' step (length vals)) else None)"

definition try_as_compact_f32 :: "'f::{linorder,zero} F64 \<Rightarrow> 'f list \<Rightarrow> 'f CompactCoord option" where
  "try_as_compact_f32 fl vals =
     (if vals = [] then None
      else if length vals = 1 then Some (Arithmetic (vals ! 0) 0 1)
      else
        let first' = vals ! 0; step = f_sub32 fl (vals ! 1) (vals ! 0) in
        if list_all (\<lambda>(i, v).
              \<not> f_abs fl (f_sub fl v (f_add fl first' (f_mul fl (f_of_int fl (int i)) step))) > f_tol5 fl)
             (enumerate 0 vals)
        then Some (Arithmetic first' step (length vals)) else None)"

section \<open>Coordinate values\<close>

datatype 'f CoordValues =
    Compact "'f CompactCoord" bool
  | Int64Values "int list"
  | Float32Values "'f list"
  | Float64Values "'f list"
  | TimestampMicros "int list"

definition from_i64 :: "int list \<Rightarrow> 'f CoordValues" where
  "from_i64 vals =
     (case try_as_compact_i64 vals of Some e \<Rightarrow> Compact e False | None \<Rightarrow> Int64Values vals)"

definition from_f32 :: "'f list \<Rightarrow> 'f CoordValues" where
  "from_f32 vals = Float32Values vals"

definition from_f64 :: "'f::{linorder,zero} F64 \<Rightarrow> 'f list \<Rightarrow> 'f CoordValues" where
  "from_f64 fl vals =
     (case try_as_compact_f64 fl vals of Some e \<Rightarrow> Compact e False | None \<Rightarrow> Float64Values vals)"

definition from_timestamp_micros :: "int list \<Rightarrow> 'f CoordValues" where
  "from_timestamp_micros vals =
     (case try_as_compact_i64 vals of Some e \<Rightarrow> Compact e True | None \<Rightarrow> TimestampMicros vals)"

fun cv_len :: "'f CoordValues \<Rightarrow> nat" where
  "cv_len (Compact e t) = compact_len e"
| "cv_len (Int64Values v) = length v"
| "cv_len (Float32Values v) = length v"
| "cv_len (Float64Values v) = length v"
| "cv_len (TimestampMicros v) = length v"

text \<open>Slicing a vector panics when the range is not within it.\<close>

definition slice_vec :: "'a list \<Rightarrow> nat \<Rightarrow> nat \<Rightarrow> 'a list option" where
  "slice_vec v s e = (if s \<le> e \<and> e \<le> length v then Some (take (e - s) (drop s v)) else None)"

fun cv_slice :: "'f F64 \<Rightarrow> 'f CoordValues \<Rightarrow> nat \<Rightarrow> nat \<Rightarrow> 'f CoordValues option" where
  "cv_slice fl (Compact e t) st en =
     (let new_len = u64 (en + 2 ^ 64 - st) in
      Some (Compact (case e of
          Arithmetic f s n \<Rightarrow> Arithmetic (f_add fl f (f_mul fl (f_of_int fl (int st)) s)) s new_len
        | ArithmeticInt f s n \<Rightarrow> ArithmeticInt (i64 (f + i64 (int st * s))) s new_len) t))"
| "cv_slice fl (Int64Values v) st en = map_option Int64Values (slice_vec v st en)"
| "cv_slice fl (Float32Values v) st en = map_option Float32Values (slice_vec v st en)"
| "cv_slice fl (Float64Values v) st en = map_option Float64Values (slice_vec v st en)"
| "cv_slice fl (TimestampMicros v) st en = map_option TimestampMicros (slice_vec v st en)"

definition gather_vec :: "'a list \<Rightarrow> nat list \<Rightarrow> 'a list option" where
  "gather_vec v is = (if list_all (\<lambda>i. i < length v) is then Some (map ((!) v) is) else None)"

fun cv_gather :: "'f F64 \<Rightarrow> 'f CoordValues \<Rightarrow> nat list \<Rightarrow> 'f CoordValues option" where
  "cv_gather fl (Compact e t) is =
     (let vals = map (value_at_i64 fl e) is in Some (if t then TimestampMicros vals else Int64Values vals))"
| "cv_gather fl (Int64Values v) is = map_option Int64Values (gather_vec v is)"
| "cv_gather fl (Float32Values v) is = map_option Float32Values (gather_vec v is)"
| "cv_gather fl (Float64Values v) is = map_option Float64Values (gather_vec v is)"
| "cv_gather fl (TimestampMicros v) is = map_option TimestampMicros (gather_vec v is)"

fun as_i64_vec :: "'f F64 \<Rightarrow> 'f CoordValues \<Rightarrow> int list" where
  "as_i64_vec fl (Compact e t) = to_vec_i64 fl e"
| "as_i64_vec fl (Int64Values v) = v"
| "as_i64_vec fl (Float32Values v) = map (\<lambda>x. as_i64 (f_trunc fl x)) v"
| "as_i64_vec fl (Float64Values v) = map (\<lambda>x. as_i64 (f_trunc fl x)) v"
| "as_i64_vec fl (TimestampMicros v) = v"

fun as_f64_vec :: "'f F64 \<Rightarrow> 'f CoordValues \<Rightarrow> 'f list" where
  "as_f64_vec fl (Compact e t) = to_vec_f64 fl e"
| "as_f64_vec fl (Int64Values v) = map (f_of_int fl) v"
| "as_f64_vec fl (Float32Values v) = v"
| "as_f64_vec fl (Float64Values v) = v"
| "as_f64_vec fl (TimestampMicros v) = map (f_of_int fl) v"

fun cv_is_timestamp :: "'f CoordValues \<Rightarrow> bool" where
  "cv_is_timestamp (Compact e t) = t"
| "cv_is_timestamp (TimestampMicros v) = True"
| "cv_is_timestamp v = False"

fun cv_is_integer :: "'f CoordValues \<Rightarrow> bool" where
  "cv_is_integer (Compact e t) = compact_is_integer e"
| "cv_is_integer (Int64Values v) = True"
| "cv_is_integer (TimestampMicros v) = True"
| "cv_is_integer (Float32Values v) = False"
| "cv_is_integer (Float64Values v) = False"

text \<open>The Arrow array of the distinct values: its type and contents.\<close>

datatype 'f ValueArray =
    Int64Array "int list"
  | Float32Array "'f list"
  | Float64Array "'f list"
  | TimestampArray "int list"

fun coord_values_to_array :: "'f F64 \<Rightarrow> 'f CoordValues \<Rightarrow> 'f ValueArray" where
  "coord_values_to_array fl (Compact e t) =
     (if t then TimestampArray (to_vec_i64 fl e)
      else if compact_is_integer e then Int64Array (to_vec_i64 fl e)
      else Float64Array (to_vec_f64 fl e))"
| "coord_values_to_array fl (Int64Values v) = Int64Array v"
| "coord_values_to_array fl (Float32Values v) = Float32Array v"
| "coord_values_to_array fl (Float64Values v) = Float64Array v"
| "coord_values_to_array fl (TimestampMicros v) = TimestampArray v"

section \<open>Keys of the Cartesian product\<close>

definition product_usize :: "nat list \<Rightarrow> nat" where
  "product_usize xs = foldl (\<lambda>acc x. u64 (acc * x)) 1 xs"

text \<open>\<open>None\<close>: a coordinate index out of range, or a division by a zero extent.\<close>

definition compute_coord_key :: "nat \<Rightarrow> nat \<Rightarrow> nat list \<Rightarrow> nat option" where
  "compute_coord_key row_idx coord_idx coord_sizes =
     (if \<not> coord_idx < length coord_sizes then None
      else
        let inner' = product_usize (drop (coord_idx + 1) coord_sizes);
            inner = (if inner' = 0 then 1 else inner');
            num_values = coord_sizes ! coord_idx
        in if num_values = 0 then None else Some (row_idx div inner mod num_values))"

definition build_coord_keys_range :: "nat \<Rightarrow> nat list \<Rightarrow> nat \<Rightarrow> nat \<Rightarrow> nat list option" where
  "build_coord_keys_range coord_idx coord_sizes start_row num_rows =
     (if \<not> coord_idx < length coord_sizes then None
      else
        let inner' = product_usize (drop (coord_idx + 1) coord_sizes);
            inner = (if inner' = 0 then 1 else inner');
            coord_size = coord_sizes ! coord_idx
        in if coord_size = 0 \<and> num_rows \<noteq> 0 then None
           else Some (map (\<lambda>row_idx. row_idx div inner mod coord_size) [start_row..<start_row + num_rows]))"

definition build_coord_keys :: "nat \<Rightarrow> nat list \<Rightarrow> nat \<Rightarrow> nat list option" where
  "build_coord_keys coord_idx coord_sizes tot = build_coord_keys_range coord_idx coord_sizes 0 tot"

text \<open>A dictionary array: keys into the array of distinct values.\<close>

definition build_dictionary_with_key_type ::
  "DataType \<Rightarrow> nat \<Rightarrow> nat list \<Rightarrow> nat \<Rightarrow> 'f ValueArray \<Rightarrow> (nat list \<times> 'f ValueArray) option" where
  "build_dictionary_with_key_type key_type coord_idx coord_sizes tot arr =
     Option.bind (build_coord_keys_range coord_idx coord_sizes 0 tot) (\<lambda>keys.
       let max_key = coord_sizes ! coord_idx - 1 in
       if key_type = Int16 then (if max_key \<le> 2 ^ 15 - 1 then Some (keys, arr) else None)
       else if key_type = Int32 then (if max_key \<le> 2 ^ 31 - 1 then Some (keys, arr) else None)
       else if key_type = Int64 then Some (keys, arr)
       else None)"

text \<open>A key type that holds every position of a coordinate.\<close>

definition key_fits :: "DataType \<Rightarrow> nat \<Rightarrow> bool" where
  "key_fits kt n \<longleftrightarrow> (kt = Int16 \<and> n \<le> 2 ^ 15) \<or> (kt = Int32 \<and> n \<le> 2 ^ 31) \<or> kt = Int64"

definition create_coord_dictionary_typed ::
  "'f F64 \<Rightarrow> 'f CoordValues \<Rightarrow> nat \<Rightarrow> nat list \<Rightarrow> nat \<Rightarrow> DataType \<Rightarrow> (nat list \<times> 'f ValueArray) option" where
  "create_coord_dictionary_typed fl vals coord_idx coord_sizes tot key_type =
     build_dictionary_with_key_type key_type coord_idx coord_sizes tot (coord_values_to_array fl vals)"

section \<open>Limited reads\<close>

text \<open>The extent of each half-open range \<open>0..take\<close>; \<open>None\<close> is the division by a zero inner extent.\<close>

definition limited_axis :: "nat list \<Rightarrow> nat \<Rightarrow> nat \<Rightarrow> nat option" where
  "limited_axis sh limit i =
     (if i = length sh - 1 then Some (min limit (sh ! i))
      else let inner = product_usize (drop (i + 1) sh) in
        if inner = 0 then None else Some (min (div_ceil limit inner) (sh ! i)))"

definition calculate_limited_subset :: "nat list \<Rightarrow> nat \<Rightarrow> (nat \<times> nat) list option" where
  "calculate_limited_subset sh limit =
     map_option rev
       (fold (\<lambda>i acc. Option.bind acc (\<lambda>rs. map_option (\<lambda>t. rs @ [(0, t)]) (limited_axis sh limit i)))
         (rev [0..<length sh]) (Some []))"

definition calculate_coord_limits :: "nat list \<Rightarrow> nat \<Rightarrow> nat list" where
  "calculate_coord_limits coord_sizes limit =
     map (\<lambda>i.
        let inner' = product_usize (drop (i + 1) coord_sizes);
            inner = (if inner' = 0 then 1 else inner')
        in min (div_ceil limit inner) (coord_sizes ! i)) [0..<length coord_sizes]"

section \<open>Compaction, slicing and gathering keep the values\<close>

lemma i64_zero [simp]: "i64 0 = 0"
  by (simp add: i64_def)

lemma compact_slice_value:
  "i64 (i64 (f + i64 (int st * s)) + i64 (int i * s)) = i64 (f + i64 (int (st + i) * s))"
proof (rule i64_eqI)
  have "(i64 (f + i64 (int st * s)) + i64 (int i * s)) mod 2 ^ 64 = ((f + int st * s) + int i * s) mod 2 ^ 64"
    by (metis i64_mod mod_add_eq)
  also have "\<dots> = (f + i64 (int (st + i) * s)) mod 2 ^ 64"
    by (metis i64_mod mod_add_right_eq add.assoc distrib_right of_nat_add)
  finally show "(i64 (f + i64 (int st * s)) + i64 (int i * s)) mod 2 ^ 64 = (f + i64 (int (st + i) * s)) mod 2 ^ 64" .
qed

lemma compact_i64_roundtrip:
  assumes c: "try_as_compact_i64 vals = Some e" and r: "\<forall>v \<in> set vals. i64_range v"
  shows "to_vec_i64 fl e = vals \<and> compact_is_integer e"
proof (cases "length vals = 1")
  case True
  then obtain v where "vals = [v]" by (auto simp: length_Suc_conv)
  then show ?thesis using c r by (auto simp: try_as_compact_i64_def to_vec_i64_def i64_id i64_zero)
next
  case False
  let ?s = "i64 (vals ! 1 - vals ! 0)"
  have e: "e = ArithmeticInt (vals ! 0) ?s (length vals)"
    and all: "list_all (\<lambda>(i, v). v = i64 (vals ! 0 + i64 (int i * ?s))) (enumerate 0 vals)"
    using c False by (auto simp: try_as_compact_i64_def Let_def split: if_splits)
  have "vals ! i = i64 (vals ! 0 + i64 (int i * ?s))" if "i < length vals" for i
  proof -
    have "(i, vals ! i) \<in> set (enumerate 0 vals)" using that by (simp add: in_set_enumerate_eq)
    then show ?thesis using all unfolding list_all_iff by blast
  qed
  then show ?thesis using e by (auto simp: to_vec_i64_def intro!: nth_equalityI)
qed

text \<open>Whatever the constructor chosen, the values read back are the values given.\<close>

lemma from_i64_values: "\<forall>v \<in> set vals. i64_range v \<Longrightarrow> as_i64_vec fl (from_i64 vals) = vals"
  using compact_i64_roundtrip [of vals _ fl] by (auto simp: from_i64_def split: option.splits)

lemma from_timestamp_values: "\<forall>v \<in> set vals. i64_range v \<Longrightarrow> as_i64_vec fl (from_timestamp_micros vals) = vals"
  using compact_i64_roundtrip [of vals _ fl] by (auto simp: from_timestamp_micros_def split: option.splits)

lemma cv_slice_values:
  assumes "cv_is_integer c" "st \<le> en" "en \<le> cv_len c" "en < index_bound"
  shows "\<exists>c'. cv_slice fl c st en = Some c' \<and> cv_is_integer c' \<and> cv_len c' = en - st \<and>
    as_i64_vec fl c' = take (en - st) (drop st (as_i64_vec fl c))"
proof (cases c)
  case (Compact e t)
  then obtain f s n where e: "e = ArithmeticInt f s n" using assms(1) by (cases e) auto
  have n: "u64 (en + 2 ^ 64 - st) = en - st"
    using assms(2,4) by (intro u64_sub) (auto simp: index_bound_def)
  have "map (value_at_i64 fl (ArithmeticInt (i64 (f + i64 (int st * s))) s (en - st))) [0..<en - st] =
      take (en - st) (drop st (map (value_at_i64 fl e) [0..<n]))"
    using assms(2,3) Compact e compact_slice_value by (intro nth_equalityI) (auto simp: add.commute)
  then show ?thesis using Compact e n by (simp add: to_vec_i64_def Let_def)
qed (use assms in \<open>auto simp: slice_vec_def\<close>)

lemma cv_gather_values:
  assumes "cv_is_integer c" "\<forall>i \<in> set is. i < cv_len c"
  shows "\<exists>c'. cv_gather fl c is = Some c' \<and> cv_is_integer c' \<and> as_i64_vec fl c' = map ((!) (as_i64_vec fl c)) is"
proof (cases c)
  case (Compact e t)
  then show ?thesis using assms by (auto simp: to_vec_i64_def Let_def)
qed (use assms in \<open>auto simp: gather_vec_def list_all_iff\<close>)

section \<open>Row-major enumeration\<close>

lemma length_product_lists: "length (product_lists xss) = prod_list (map length xss)"
  by (induction xss) (simp_all add: length_concat comp_def sum_list_triv)

lemma nth_concat_uniform:
  "(\<forall>x \<in> set xs. length (f x) = n) \<Longrightarrow> r < length xs * n \<Longrightarrow> concat (map f xs) ! r = f (xs ! (r div n)) ! (r mod n)"
proof (induction xs arbitrary: r)
  case (Cons x xs)
  show ?case
  proof (cases "r < n")
    case True
    then show ?thesis using Cons.prems by (simp add: nth_append)
  next
    case False
    then have "r - n < length xs * n" "0 < n" using Cons.prems(2) by (auto intro: gr0I)
    then have "concat (map f xs) ! (r - n) = f (xs ! ((r - n) div n)) ! ((r - n) mod n)"
      using Cons by simp
    moreover have "r div n = Suc ((r - n) div n)" "(r - n) mod n = r mod n"
      using False \<open>0 < n\<close> by (simp_all add: le_div_geq le_mod_geq)
    ultimately show ?thesis using False Cons.prems by (simp add: nth_append)
  qed
qed simp

lemma digit_mod:
  assumes "p * s dvd (m :: nat)" shows "(r mod m) div p mod s = r div p mod s"
proof -
  have d: "x div p mod s = (x mod (p * s)) div p" for x
    by (cases "p = 0") (simp_all add: mod_mult2_eq)
  show ?thesis unfolding d using assms by (simp add: mod_mod_cancel)
qed

lemma prod_drop_dvd: "i < length sizes \<Longrightarrow> prod_list (drop (Suc i) sizes) * sizes ! i dvd (prod_list sizes :: nat)"
proof -
  assume "i < length sizes"
  then have "prod_list sizes = prod_list (take i sizes) * (sizes ! i * prod_list (drop (Suc i) sizes))"
    by (metis id_take_nth_drop prod_list.Cons prod_list.append)
  then show ?thesis by (simp add: mult.commute mult.left_commute)
qed

text \<open>The index tuple of a row: one mixed-radix digit per axis.\<close>

definition row_digits :: "nat list \<Rightarrow> nat \<Rightarrow> nat list" where
  "row_digits sizes r = map (\<lambda>i. r div prod_list (drop (Suc i) sizes) mod sizes ! i) [0..<length sizes]"

lemma row_digits_Cons:
  "r < n * prod_list sizes \<Longrightarrow>
   row_digits (n # sizes) r = (r div prod_list sizes) # row_digits sizes (r mod prod_list sizes)"
proof -
  assume r: "r < n * prod_list sizes"
  then have "r div prod_list sizes < n" by (simp add: less_mult_imp_div_less)
  moreover have "(r mod prod_list sizes) div prod_list (drop (Suc i) sizes) mod sizes ! i =
      r div prod_list (drop (Suc i) sizes) mod sizes ! i" if "i < length sizes" for i
    by (rule digit_mod [OF prod_drop_dvd [OF that]])
  moreover have "[0..<length (n # sizes)] = 0 # map Suc [0..<length sizes]"
    by (simp add: map_Suc_upt upt_conv_Cons del: upt_Suc)
  ultimately show ?thesis by (simp add: row_digits_def comp_def del: upt_Suc)
qed

lemma product_lists_digits:
  "r < prod_list sizes \<Longrightarrow> product_lists (map (\<lambda>n. [0..<n]) sizes) ! r = row_digits sizes r"
proof (induction sizes arbitrary: r)
  case (Cons n sizes)
  let ?m = "prod_list sizes" and ?L = "product_lists (map (\<lambda>n. [0..<n]) sizes)"
  have len: "length ?L = ?m" by (simp add: length_product_lists comp_def)
  have m: "0 < ?m" using Cons.prems by (auto intro: gr0I)
  have "product_lists (map (\<lambda>n. [0..<n]) (n # sizes)) ! r =
      map ((#) ([0..<n] ! (r div ?m))) ?L ! (r mod ?m)"
    using nth_concat_uniform [of "[0..<n]" "\<lambda>x. map ((#) x) ?L" ?m r] Cons.prems len by simp
  also have "\<dots> = (r div ?m) # ?L ! (r mod ?m)"
    using m len Cons.prems by (simp add: less_mult_imp_div_less)
  also have "\<dots> = row_digits (n # sizes) r"
    using Cons.IH [of "r mod ?m"] row_digits_Cons [of r n sizes] Cons.prems m by simp
  finally show ?case .
qed (simp add: row_digits_def)

lemma product_usize:
  assumes "prod_list xs < 2 ^ 64" "\<forall>x \<in> set xs. 0 < x" shows "product_usize xs = prod_list xs"
  using foldl_u64_product [of 1 id xs] assms by (simp add: product_usize_def)

lemma inner_usize:
  assumes "prod_list sizes < 2 ^ 64" "\<forall>x \<in> set sizes. 0 < x"
  shows "product_usize (drop k sizes) = prod_list (drop k sizes)" "0 < prod_list (drop k sizes)"
proof -
  have "prod_list sizes = prod_list (take k sizes) * prod_list (drop k sizes)" by (simp flip: prod_list.append)
  moreover have "0 < prod_list (take k sizes)" using assms(2) by (intro prod_list_pos) (auto dest: in_set_takeD)
  ultimately have "prod_list (drop k sizes) \<le> prod_list sizes" by simp
  then show "product_usize (drop k sizes) = prod_list (drop k sizes)"
    using assms by (intro product_usize) (auto dest: in_set_dropD)
  show "0 < prod_list (drop k sizes)" using assms(2) by (intro prod_list_pos) (auto dest: in_set_dropD)
qed

lemma build_coord_keys_digits:
  assumes "prod_list sizes < 2 ^ 64" "\<forall>x \<in> set sizes. 0 < x" "i < length sizes"
  shows "build_coord_keys_range i sizes start n = Some (map (\<lambda>r. row_digits sizes r ! i) [start..<start + n])"
  using inner_usize [OF assms(1,2), of "Suc i"] assms
  by (auto simp: build_coord_keys_range_def row_digits_def Let_def)

lemma digit_below_limit:
  assumes "r < limit" "0 < inner" "0 < s" shows "r div inner mod s < min (div_ceil limit inner) s"
proof -
  have "r div inner < div_ceil limit inner"
  proof (rule ccontr)
    assume "\<not> r div inner < div_ceil limit inner"
    then have "limit \<le> r div inner * inner" using div_ceil_le_iff [OF assms(2), of limit "r div inner"] by simp
    also have "\<dots> \<le> r" by simp
    finally show False using assms(1) by simp
  qed
  moreover have "r div inner mod s \<le> r div inner" by (rule mod_less_eq_dividend)
  ultimately have "r div inner mod s < div_ceil limit inner" by linarith
  then show ?thesis using assms(3) by simp
qed

section \<open>Properties\<close>

text \<open>C37: Compaction of integers loses nothing: integer and timestamp coordinates read back exactly as given, whether
  or not the compact encoding was chosen.  Floating point coordinates are not covered: their compaction accepts a tolerance
  and returns the values of the arithmetic sequence.\<close>

theorem compaction_roundtrip:
  assumes "\<forall>v \<in> set vals. i64_range v"
  shows "as_i64_vec fl (from_i64 vals) = vals \<and> as_i64_vec fl (from_timestamp_micros vals) = vals"
  using from_i64_values [OF assms] from_timestamp_values [OF assms] by blast

theorem compaction_roundtrip_witness:
  "as_i64_vec exact_f64 (from_i64 [3, 5, 7]) = [3, 5, 7] \<and>
   (from_i64 [3, 5, 7] :: rat CoordValues) = Compact (ArithmeticInt 3 2 3) False"
  using compaction_roundtrip [of "[3, 5, 7]" exact_f64]
  by (simp add: i64_range_def from_i64_def try_as_compact_i64_def i64_def Let_def)

text \<open>C40: slicing and gathering integer coordinates select the same values from a compact encoding as from
  the expanded vector, wrapping arithmetic included.\<close>

theorem slice_gather_agree:
  assumes "cv_is_integer c" "st \<le> en" "en \<le> cv_len c" "en < index_bound" "\<forall>i \<in> set is. i < cv_len c"
  shows "(\<exists>c'. cv_slice fl c st en = Some c' \<and> cv_len c' = en - st \<and>
      as_i64_vec fl c' = take (en - st) (drop st (as_i64_vec fl c))) \<and>
    (\<exists>c'. cv_gather fl c is = Some c' \<and> as_i64_vec fl c' = map ((!) (as_i64_vec fl c)) is)"
  using cv_slice_values [OF assms(1-4), of fl] cv_gather_values [OF assms(1,5), of fl] by blast

theorem slice_gather_agree_witness:
  "\<exists>c'. cv_slice exact_f64 (Compact (ArithmeticInt 3 2 5) True) 1 3 = Some c' \<and> cv_len c' = 2"
  using slice_gather_agree [of "Compact (ArithmeticInt 3 2 5) True" 1 3 "[]" exact_f64]
  by (auto simp: index_bound_def)

text \<open>gathering from a compact floating-point coordinate does not: it goes through the integer
  accessor, so a quarter-degree grid gathered at two positions becomes two rounded integers.\<close>

theorem gather_rounds_compact_floats:
  "cv_gather exact_f64 (Compact (Arithmetic 0 (1 / 4) 4) False) [1, 3] = Some (Int64Values [0, 1]) \<and>
   as_f64_vec exact_f64 (Compact (Arithmetic 0 (1 / 4) 4) False) = [0, 1 / 4, 1 / 2, 3 / 4]"
proof -
  have "\<lfloor>3 / 4 :: rat\<rfloor> = 0" "\<lfloor>5 / 4 :: rat\<rfloor> = 1" by (simp_all add: floor_eq_iff)
  then show ?thesis by (simp add: exact_f64_def to_vec_f64_def as_i64_def upt_rec)
qed

text \<open>C39: the key columns of the coordinates, read row by row, enumerate the cells of the product in
  row-major order: row \<open>r\<close> is the \<open>r\<close>-th index tuple.\<close>

theorem coordinate_keys_row_major:
  assumes "prod_list sizes < 2 ^ 64" "\<forall>x \<in> set sizes. 0 < x" "r < prod_list sizes"
  shows "map (\<lambda>i. the (build_coord_keys i sizes (prod_list sizes)) ! r) [0..<length sizes] =
    product_lists (map (\<lambda>n. [0..<n]) sizes) ! r"
proof -
  have "the (build_coord_keys i sizes (prod_list sizes)) ! r = row_digits sizes r ! i" if "i < length sizes" for i
    using build_coord_keys_digits [OF assms(1,2) that, of 0 "prod_list sizes"] assms(3)
    by (simp add: build_coord_keys_def)
  then have "map (\<lambda>i. the (build_coord_keys i sizes (prod_list sizes)) ! r) [0..<length sizes] = row_digits sizes r"
    by (intro nth_equalityI) (auto simp: row_digits_def)
  then show ?thesis using product_lists_digits [OF assms(3)] by simp
qed

theorem coordinate_keys_row_major_witness:
  "map (\<lambda>i. the (build_coord_keys i [2, 3] 6) ! 4) [0..<2] = product_lists (map (\<lambda>n. [0..<n]) [2, 3]) ! 4"
proof -
  have l: "length [2, 3 :: nat] = 2" and p: "prod_list [2, 3 :: nat] = 6" by simp_all
  show ?thesis by (rule coordinate_keys_row_major [of "[2, 3]" 4, unfolded l p]) simp_all
qed

text \<open>a limited read covers the rows it must: every coordinate index of the first \<open>limit\<close> rows lies
  below the per-coordinate limit.\<close>

theorem coord_limits_cover:
  assumes "prod_list sizes < 2 ^ 64" "\<forall>x \<in> set sizes. 0 < x" "r < limit" "r < prod_list sizes" "i < length sizes"
  shows "product_lists (map (\<lambda>n. [0..<n]) sizes) ! r ! i < calculate_coord_limits sizes limit ! i"
proof -
  have "product_lists (map (\<lambda>n. [0..<n]) sizes) ! r ! i = r div prod_list (drop (Suc i) sizes) mod sizes ! i"
    using product_lists_digits [OF assms(4)] assms(5) by (simp add: row_digits_def)
  then show ?thesis
    using digit_below_limit [OF assms(3) inner_usize(2) [OF assms(1,2), of "Suc i"], of "sizes ! i"]
      inner_usize [OF assms(1,2), of "Suc i"] assms by (simp add: calculate_coord_limits_def)
qed

theorem coord_limits_cover_witness:
  "product_lists (map (\<lambda>n. [0..<n]) [2, 3]) ! 3 ! 0 < calculate_coord_limits [2, 3] 4 ! 0"
  using coord_limits_cover [of "[2, 3]" 3 4 0] by (simp del: product_lists.simps)

end
