(* ===== verification/Filter_Expr.thy ===== *)
theory Filter_Expr
  imports Selection Budget
begin

text \<open>
  Extraction of coordinate filters from WHERE expressions (\<open>src/reader/filter.rs\<close>): the filter
  kinds, the partial bounds collected from an expression tree, and the early rejection by the
  coordinate's bounds.  DataFusion's expressions and scalars are data here; its evaluation of an
  expression on a row is given by the ordering key of a scalar and the date part function.  The
  lemmas show that every extracted filter is implied by the expressions it came from, so that
  no row the query keeps is filtered away, and that early rejection only rejects queries no
  coordinate value can satisfy.
\<close>

section \<open>Scalars and expressions\<close>

text \<open>The scalars the code tells apart; every other variant is \<open>SOther\<close>.\<close>

datatype 'f ScalarValue =
    SInt32 "int option"
  | SInt64 "int option"
  | SFloat32 "'f option"
  | SFloat64 "'f option"
  | STimestampMicrosecond "int option" "string option"
  | STimestampNanosecond "int option" "string option"
  | SUtf8 "string option"
  | SInt16 "int option"
  | SUInt32 "nat option"
  | SUInt64 "nat option"
  | SDictionary DataType "'f ScalarValue"
  | SOther string

datatype Operator = OpAnd | OpEq | OpGtEq | OpGt | OpLtEq | OpLt | OpOther string

datatype 'f Expr =
    Column string
  | Literal "'f ScalarValue"
  | BinaryExpr "'f Expr" Operator "'f Expr"
  | Between "'f Expr" bool "'f Expr" "'f Expr"
  | InListExpr "'f Expr" "'f Expr list" bool
  | Cast "'f Expr" DataType
  | TryCast "'f Expr" DataType
  | ScalarFunction string "'f Expr list"
  | OtherExpr string

section \<open>Filters\<close>

datatype 'f CoordFilterKind =
    Eq "'f ScalarValue"
  | Range (r_low: "'f ScalarValue option") (r_high: "'f ScalarValue option") (low_inclusive: bool)
      (high_inclusive: bool)
  | DatePart string int
  | InList "'f ScalarValue list"
  | DatePartSet string "int list"

type_synonym 'f CoordFilters = "(string \<times> 'f CoordFilterKind list) list"

definition filters_new :: "'f CoordFilters" where
  "filters_new = []"

definition filters_is_empty :: "'f CoordFilters \<Rightarrow> bool" where
  "filters_is_empty fs \<longleftrightarrow> fs = []"

definition filters_get :: "'f CoordFilters \<Rightarrow> string \<Rightarrow> 'f CoordFilterKind list option" where
  "filters_get fs c = map_of fs c"

definition filters_push :: "'f CoordFilters \<Rightarrow> string \<Rightarrow> 'f CoordFilterKind \<Rightarrow> 'f CoordFilters" where
  "filters_push fs c k = entry_with c [] (\<lambda>ks. ks @ [k]) fs"

definition filters_len :: "'f CoordFilters \<Rightarrow> nat" where
  "filters_len fs = length fs"

text \<open>The \<open>i64\<close> division by 1000 truncates.\<close>

fun scalar_to_f64 :: "'f F64 \<Rightarrow> 'f ScalarValue \<Rightarrow> 'f option" where
  "scalar_to_f64 fl (SInt64 (Some v)) = Some (f_of_int fl v)"
| "scalar_to_f64 fl (SInt32 (Some v)) = Some (f_of_int fl v)"
| "scalar_to_f64 fl (SFloat32 (Some v)) = Some v"
| "scalar_to_f64 fl (SFloat64 (Some v)) = Some v"
| "scalar_to_f64 fl (STimestampMicrosecond (Some v) tz) = Some (f_of_int fl v)"
| "scalar_to_f64 fl (STimestampNanosecond (Some v) tz) = Some (f_of_int fl (v sdiv 1000))"
| "scalar_to_f64 fl _ = None"

section \<open>Early rejection\<close>

definition within_bounds :: "'f::linorder F64 \<Rightarrow> 'f \<Rightarrow> 'f \<Rightarrow> 'f ScalarValue \<Rightarrow> bool" where
  "within_bounds fl mn mx v = (case scalar_to_f64 fl v of Some x \<Rightarrow> mn \<le> x \<and> x \<le> mx | None \<Rightarrow> True)"

fun kind_satisfiable :: "'f::linorder F64 \<Rightarrow> 'f \<Rightarrow> 'f \<Rightarrow> 'f CoordFilterKind \<Rightarrow> bool" where
  "kind_satisfiable fl mn mx (DatePart f v) = True"
| "kind_satisfiable fl mn mx (DatePartSet f vs) = True"
| "kind_satisfiable fl mn mx (Eq v) = within_bounds fl mn mx v"
| "kind_satisfiable fl mn mx (InList vs) = list_ex (within_bounds fl mn mx) vs"
| "kind_satisfiable fl mn mx (Range low high li hi) =
     (case (Option.bind low (scalar_to_f64 fl), Option.bind high (scalar_to_f64 fl)) of
        (Some l, Some h) \<Rightarrow> mn \<le> h \<and> l \<le> mx
      | (Some l, None) \<Rightarrow> l \<le> mx
      | (None, Some h) \<Rightarrow> mn \<le> h
      | (None, None) \<Rightarrow> True)"

definition filter_satisfiable_by_bounds ::
    "'f::linorder F64 \<Rightarrow> 'f CoordFilters \<Rightarrow> 'f ZarrArrayMeta list \<Rightarrow> bool" where
  "filter_satisfiable_by_bounds fl fs metas =
     list_all (\<lambda>(c, kinds).
       case find (\<lambda>m. meta_name m = c) metas of
         None \<Rightarrow> True
       | Some m \<Rightarrow>
           (case coord_min_max m of
              None \<Rightarrow> True
            | Some (mn, mx) \<Rightarrow> list_all (kind_satisfiable fl mn mx) kinds)) fs"

section \<open>Partial bounds\<close>

record 'f PartialBounds =
  pb_eq :: "'f ScalarValue option"
  pb_low :: "('f ScalarValue \<times> bool) option"
  pb_high :: "('f ScalarValue \<times> bool) option"
  date_parts :: "(string \<times> int) list"
  in_list :: "'f ScalarValue list option"
  date_part_sets :: "(string \<times> int list) list"

definition pb_default :: "'f PartialBounds" where
  "pb_default = \<lparr>pb_eq = None, pb_low = None, pb_high = None, date_parts = [], in_list = None,
     date_part_sets = []\<rparr>"

definition into_filters :: "'f PartialBounds \<Rightarrow> 'f CoordFilterKind list" where
  "into_filters b =
     (case pb_eq b of Some v \<Rightarrow> [Eq v] | None \<Rightarrow> []) @
     (if pb_low b \<noteq> None \<or> pb_high b \<noteq> None then
        [Range (map_option fst (pb_low b)) (map_option fst (pb_high b))
           (case pb_low b of Some (v, i) \<Rightarrow> i | None \<Rightarrow> True)
           (case pb_high b of Some (v, i) \<Rightarrow> i | None \<Rightarrow> True)]
      else []) @
     map (\<lambda>(f, v). DatePart f v) (date_parts b) @
     (case in_list b of Some vs \<Rightarrow> [InList vs] | None \<Rightarrow> []) @
     map (\<lambda>(f, vs). DatePartSet f vs) (date_part_sets b)"

section \<open>Reading columns and literals\<close>

fun unwrap_dictionary_value :: "'f ScalarValue \<Rightarrow> 'f ScalarValue" where
  "unwrap_dictionary_value (SDictionary t v) = unwrap_dictionary_value v"
| "unwrap_dictionary_value v = v"

fun extract_column_name :: "'f Expr \<Rightarrow> string option" where
  "extract_column_name (Column c) = Some c"
| "extract_column_name (Cast e t) = extract_column_name e"
| "extract_column_name (TryCast e t) = extract_column_name e"
| "extract_column_name _ = None"

text \<open>\<open>cast_to\<close> is DataFusion's conversion of a scalar, \<open>None\<close> when it fails.\<close>

type_synonym 'f cast = "'f ScalarValue \<Rightarrow> DataType \<Rightarrow> 'f ScalarValue option"

fun extract_literal :: "'f cast \<Rightarrow> 'f Expr \<Rightarrow> 'f ScalarValue option" where
  "extract_literal cast_to (Literal v) = Some (unwrap_dictionary_value v)"
| "extract_literal cast_to (Cast e t) =
     (case e of Literal v \<Rightarrow> map_option unwrap_dictionary_value (cast_to v t) | _ \<Rightarrow> None)"
| "extract_literal cast_to _ = None"

definition column_and_literal :: "'f cast \<Rightarrow> 'f Expr \<Rightarrow> 'f Expr \<Rightarrow> (string \<times> 'f ScalarValue) option" where
  "column_and_literal cast_to c l =
     (case (extract_column_name c, extract_literal cast_to l) of
        (Some col, Some v) \<Rightarrow> Some (col, v) | _ \<Rightarrow> None)"

text \<open>Both branches of the reversed case return the pair, whatever \<open>is_lower_bound\<close> is.\<close>

definition extract_column_literal_comparison ::
    "'f cast \<Rightarrow> 'f Expr \<Rightarrow> 'f Expr \<Rightarrow> bool \<Rightarrow> (string \<times> 'f ScalarValue) option" where
  "extract_column_literal_comparison cast_to left right is_lower_bound =
     (case column_and_literal cast_to left right of
        Some cv \<Rightarrow> Some cv
      | None \<Rightarrow>
          (case column_and_literal cast_to right left of
             Some cv \<Rightarrow> (if \<not> is_lower_bound then Some cv else Some cv)
           | None \<Rightarrow> None))"

definition extract_column_literal_eq ::
    "'f cast \<Rightarrow> 'f Expr \<Rightarrow> 'f Expr \<Rightarrow> (string \<times> 'f ScalarValue) option" where
  "extract_column_literal_eq cast_to left right =
     (case column_and_literal cast_to left right of
        Some cv \<Rightarrow> Some cv | None \<Rightarrow> column_and_literal cast_to right left)"

fun int_literal :: "'f ScalarValue option \<Rightarrow> int option" where
  "int_literal (Some (SInt32 (Some v))) = Some v"
| "int_literal (Some (SInt64 (Some v))) = Some (i32 v)"
| "int_literal _ = None"

fun extract_date_part_call :: "'f cast \<Rightarrow> 'f Expr \<Rightarrow> (string \<times> string) option" where
  "extract_date_part_call cast_to (ScalarFunction name args) =
     (if name \<noteq> ''date_part'' \<or> length args \<noteq> 2 then None
      else case extract_literal cast_to (args ! 0) of
          Some (SUtf8 (Some field)) \<Rightarrow>
            map_option (\<lambda>col. (col, field)) (extract_column_name (args ! 1))
        | _ \<Rightarrow> None)"
| "extract_date_part_call cast_to _ = None"

definition extract_date_part_eq ::
    "'f cast \<Rightarrow> 'f Expr \<Rightarrow> 'f Expr \<Rightarrow> (string \<times> string \<times> int) option" where
  "extract_date_part_eq cast_to left right =
     (case extract_date_part_call cast_to left of
        None \<Rightarrow> None
      | Some (col, field) \<Rightarrow>
          map_option (\<lambda>v. (col, field, v)) (int_literal (extract_literal cast_to right)))"

fun is_date_part_filter :: "'f cast \<Rightarrow> 'f Expr \<Rightarrow> bool" where
  "is_date_part_filter cast_to (BinaryExpr l OpEq r) \<longleftrightarrow>
     extract_date_part_eq cast_to l r \<noteq> None \<or> extract_date_part_eq cast_to r l \<noteq> None"
| "is_date_part_filter cast_to _ \<longleftrightarrow> False"

section \<open>Extraction\<close>

type_synonym 'f bounds_map = "(string \<times> 'f PartialBounds) list"

definition update_bounds ::
    "string list \<Rightarrow> string \<Rightarrow> ('f PartialBounds \<Rightarrow> 'f PartialBounds) \<Rightarrow> 'f bounds_map \<Rightarrow> 'f bounds_map" where
  "update_bounds names c f m = (if c \<in> set names then entry_with c pb_default f m else m)"

definition extract_eq ::
    "'f cast \<Rightarrow> string list \<Rightarrow> 'f Expr \<Rightarrow> 'f Expr \<Rightarrow> 'f bounds_map \<Rightarrow> 'f bounds_map" where
  "extract_eq cast_to names l r m =
     (case extract_column_literal_eq cast_to l r of
        Some (c, v) \<Rightarrow> update_bounds names c (\<lambda>b. b\<lparr>pb_eq := Some v\<rparr>) m
      | None \<Rightarrow>
          (case extract_date_part_eq cast_to l r of
             Some (c, f, v) \<Rightarrow> update_bounds names c (\<lambda>b. b\<lparr>date_parts := date_parts b @ [(f, v)]\<rparr>) m
           | None \<Rightarrow> m))"

definition extract_low ::
    "'f cast \<Rightarrow> string list \<Rightarrow> 'f Expr \<Rightarrow> 'f Expr \<Rightarrow> bool \<Rightarrow> 'f bounds_map \<Rightarrow> 'f bounds_map" where
  "extract_low cast_to names l r inc m =
     (case extract_column_literal_comparison cast_to l r True of
        Some (c, v) \<Rightarrow> update_bounds names c (\<lambda>b. b\<lparr>pb_low := Some (v, inc)\<rparr>) m
      | None \<Rightarrow> m)"

definition extract_high ::
    "'f cast \<Rightarrow> string list \<Rightarrow> 'f Expr \<Rightarrow> 'f Expr \<Rightarrow> bool \<Rightarrow> 'f bounds_map \<Rightarrow> 'f bounds_map" where
  "extract_high cast_to names l r inc m =
     (case extract_column_literal_comparison cast_to l r False of
        Some (c, v) \<Rightarrow> update_bounds names c (\<lambda>b. b\<lparr>pb_high := Some (v, inc)\<rparr>) m
      | None \<Rightarrow> m)"

definition extract_between ::
    "'f cast \<Rightarrow> string list \<Rightarrow> 'f Expr \<Rightarrow> 'f Expr \<Rightarrow> 'f Expr \<Rightarrow> 'f bounds_map \<Rightarrow> 'f bounds_map" where
  "extract_between cast_to names e low high m =
     (case extract_column_name e of
        None \<Rightarrow> m
      | Some c \<Rightarrow>
          (case (extract_literal cast_to low, extract_literal cast_to high) of
             (Some lv, Some hv) \<Rightarrow>
               update_bounds names c (\<lambda>b. b\<lparr>pb_low := Some (lv, True), pb_high := Some (hv, True)\<rparr>) m
           | _ \<Rightarrow> m))"

definition extract_in_list ::
    "'f cast \<Rightarrow> string list \<Rightarrow> 'f Expr \<Rightarrow> 'f Expr list \<Rightarrow> 'f bounds_map \<Rightarrow> 'f bounds_map" where
  "extract_in_list cast_to names e list m =
     (case extract_column_name e of
        Some c \<Rightarrow>
          (case collect_options (map (extract_literal cast_to) list) of
             Some vs \<Rightarrow> (if vs \<noteq> [] then update_bounds names c (\<lambda>b. b\<lparr>in_list := Some vs\<rparr>) m else m)
           | None \<Rightarrow> m)
      | None \<Rightarrow>
          (case extract_date_part_call cast_to e of
             Some (c, f) \<Rightarrow>
               (case collect_options (map (\<lambda>x. int_literal (extract_literal cast_to x)) list) of
                  Some vs \<Rightarrow>
                    (if vs \<noteq> [] then
                       update_bounds names c (\<lambda>b. b\<lparr>date_part_sets := date_part_sets b @ [(f, vs)]\<rparr>) m
                     else m)
                | None \<Rightarrow> m)
           | None \<Rightarrow> m))"

fun extract_filters :: "'f cast \<Rightarrow> string list \<Rightarrow> 'f Expr \<Rightarrow> 'f bounds_map \<Rightarrow> 'f bounds_map" where
  "extract_filters cast_to names (BinaryExpr l OpAnd r) m =
     extract_filters cast_to names r (extract_filters cast_to names l m)"
| "extract_filters cast_to names (BinaryExpr l OpEq r) m = extract_eq cast_to names l r m"
| "extract_filters cast_to names (BinaryExpr l OpGtEq r) m = extract_low cast_to names l r True m"
| "extract_filters cast_to names (BinaryExpr l OpGt r) m = extract_low cast_to names l r False m"
| "extract_filters cast_to names (BinaryExpr l OpLtEq r) m = extract_high cast_to names l r True m"
| "extract_filters cast_to names (BinaryExpr l OpLt r) m = extract_high cast_to names l r False m"
| "extract_filters cast_to names (Between e negated low high) m =
     (if \<not> negated then extract_between cast_to names e low high m else m)"
| "extract_filters cast_to names (InListExpr e list negated) m =
     (if \<not> negated then extract_in_list cast_to names e list m else m)"
| "extract_filters cast_to names (Cast e t) m = extract_filters cast_to names e m"
| "extract_filters cast_to names _ m = m"

definition parse_coord_filters :: "'f cast \<Rightarrow> 'f Expr list \<Rightarrow> string list \<Rightarrow> 'f CoordFilters" where
  "parse_coord_filters cast_to es names =
     filter (\<lambda>(c, kinds). kinds \<noteq> [])
       (map (\<lambda>(c, b). (c, into_filters b))
          (fold (extract_filters cast_to names) es []))"

section \<open>What an expression means on a row\<close>

text \<open>
  \<open>env\<close> gives the row's value of every column, \<open>key\<close> the ordering key by which SQL compares two
  scalars (\<open>None\<close> for NULL), \<open>part\<close> the date part of a scalar, and \<open>other\<close> the truth of the
  predicates the code does not look into.  A comparison holds when it evaluates to true.
\<close>

record ('f, 'k) sql =
  key :: "'f ScalarValue \<Rightarrow> 'k option"
  part :: "string \<Rightarrow> 'f ScalarValue \<Rightarrow> int option"
  other :: "'f Expr \<Rightarrow> bool"

definition sql_rel :: "('f, 'k) sql \<Rightarrow> ('k \<Rightarrow> 'k \<Rightarrow> bool) \<Rightarrow> 'f ScalarValue \<Rightarrow> 'f ScalarValue \<Rightarrow> bool" where
  "sql_rel S R a b =
     (case (key S (unwrap_dictionary_value a), key S (unwrap_dictionary_value b)) of
        (Some x, Some y) \<Rightarrow> R x y | _ \<Rightarrow> False)"

fun eval_expr :: "('f, 'k) sql \<Rightarrow> 'f cast \<Rightarrow> (string \<Rightarrow> 'f ScalarValue) \<Rightarrow> 'f Expr \<Rightarrow> 'f ScalarValue option" where
  "eval_expr S cast_to env (Column c) = Some (env c)"
| "eval_expr S cast_to env (Literal v) = Some v"
| "eval_expr S cast_to env (Cast e t) = Option.bind (eval_expr S cast_to env e) (\<lambda>v. cast_to v t)"
| "eval_expr S cast_to env (TryCast e t) = Option.bind (eval_expr S cast_to env e) (\<lambda>v. cast_to v t)"
| "eval_expr S cast_to env (ScalarFunction name [f, a]) =
     (if name \<noteq> ''date_part'' then None
      else case (map_option unwrap_dictionary_value (eval_expr S cast_to env f), eval_expr S cast_to env a) of
          (Some (SUtf8 (Some s)), Some v) \<Rightarrow> map_option (\<lambda>n. SInt32 (Some n)) (part S s v)
        | _ \<Rightarrow> None)"
| "eval_expr S cast_to env _ = None"

definition rel_holds :: "('f, 'k) sql \<Rightarrow> 'f cast \<Rightarrow> (string \<Rightarrow> 'f ScalarValue) \<Rightarrow> ('k \<Rightarrow> 'k \<Rightarrow> bool) \<Rightarrow> 'f Expr \<Rightarrow> 'f Expr \<Rightarrow> bool" where
  "rel_holds S cast_to env R l r =
     (case (eval_expr S cast_to env l, eval_expr S cast_to env r) of
        (Some a, Some b) \<Rightarrow> sql_rel S R a b | _ \<Rightarrow> False)"

fun holds :: "('f, 'k::linorder) sql \<Rightarrow> 'f cast \<Rightarrow> (string \<Rightarrow> 'f ScalarValue) \<Rightarrow> 'f Expr \<Rightarrow> bool" where
  "holds S cast_to env (BinaryExpr l OpAnd r) \<longleftrightarrow> holds S cast_to env l \<and> holds S cast_to env r"
| "holds S cast_to env (BinaryExpr l OpEq r) \<longleftrightarrow> rel_holds S cast_to env (=) l r"
| "holds S cast_to env (BinaryExpr l OpGtEq r) \<longleftrightarrow> rel_holds S cast_to env (\<ge>) l r"
| "holds S cast_to env (BinaryExpr l OpGt r) \<longleftrightarrow> rel_holds S cast_to env (>) l r"
| "holds S cast_to env (BinaryExpr l OpLtEq r) \<longleftrightarrow> rel_holds S cast_to env (\<le>) l r"
| "holds S cast_to env (BinaryExpr l OpLt r) \<longleftrightarrow> rel_holds S cast_to env (<) l r"
| "holds S cast_to env (Between e negated low high) \<longleftrightarrow>
     (if negated then other S (Between e negated low high)
      else rel_holds S cast_to env (\<ge>) e low \<and> rel_holds S cast_to env (\<le>) e high)"
| "holds S cast_to env (InListExpr e list negated) \<longleftrightarrow>
     (if negated then other S (InListExpr e list negated)
      else list_ex (rel_holds S cast_to env (=) e) list)"
| "holds S cast_to env (Cast e t) \<longleftrightarrow> holds S cast_to env e"
| "holds S cast_to env e \<longleftrightarrow> other S e"

text \<open>What a filter kind asks of the coordinate's value \<open>x\<close>.\<close>

fun kind_holds :: "('f, 'k::linorder) sql \<Rightarrow> 'f ScalarValue \<Rightarrow> 'f CoordFilterKind \<Rightarrow> bool" where
  "kind_holds S x (Eq v) \<longleftrightarrow> sql_rel S (=) x v"
| "kind_holds S x (Range low high li hi) \<longleftrightarrow>
     (case low of None \<Rightarrow> True | Some l \<Rightarrow> sql_rel S (if li then (\<ge>) else (>)) x l) \<and>
     (case high of None \<Rightarrow> True | Some h \<Rightarrow> sql_rel S (if hi then (\<le>) else (<)) x h)"
| "kind_holds S x (DatePart f v) \<longleftrightarrow> part S f x = Some v"
| "kind_holds S x (InList vs) \<longleftrightarrow> list_ex (sql_rel S (=) x) vs"
| "kind_holds S x (DatePartSet f vs) \<longleftrightarrow> list_ex (\<lambda>v. part S f x = Some v) vs"

text \<open>
  Date parts are \<open>Int32\<close>, and integer scalars of either width are equal exactly when the integers are.
\<close>

definition integer_parts :: "('f, 'k) sql \<Rightarrow> bool" where
  "integer_parts S \<longleftrightarrow>
     (\<forall>f x n. part S f x = Some n \<longrightarrow> i32 n = n) \<and>
     (\<forall>a b. key S (SInt32 (Some a)) = key S (SInt32 (Some b)) \<longrightarrow> a = b) \<and>
     (\<forall>a b. key S (SInt32 (Some a)) = key S (SInt64 (Some b)) \<longrightarrow> a = b)"

text \<open>
  The code looks through casts of a column and does not turn a comparison round.  An expression is
  canonical on a row when the casts it looks through keep the value, as DataFusion's widening
  coercions do, and no range comparison has its column on the right.
\<close>

definition cast_keeps :: "('f, 'k) sql \<Rightarrow> 'f cast \<Rightarrow> (string \<Rightarrow> 'f ScalarValue) \<Rightarrow> 'f Expr \<Rightarrow> bool" where
  "cast_keeps S cast_to env e \<longleftrightarrow>
     (\<forall>c v. extract_column_name e = Some c \<longrightarrow> eval_expr S cast_to env e = Some v \<longrightarrow>
        key S (unwrap_dictionary_value v) = key S (unwrap_dictionary_value (env c)) \<and>
        (\<forall>f. part S f v = part S f (env c)))"

definition operand_canonical :: "('f, 'k) sql \<Rightarrow> 'f cast \<Rightarrow> (string \<Rightarrow> 'f ScalarValue) \<Rightarrow> 'f Expr \<Rightarrow> bool" where
  "operand_canonical S cast_to env e \<longleftrightarrow>
     cast_keeps S cast_to env e \<and>
     (case e of ScalarFunction name args \<Rightarrow> list_all (cast_keeps S cast_to env) args | _ \<Rightarrow> True)"

fun canonical :: "('f, 'k) sql \<Rightarrow> 'f cast \<Rightarrow> (string \<Rightarrow> 'f ScalarValue) \<Rightarrow> 'f Expr \<Rightarrow> bool" where
  "canonical S cast_to env (BinaryExpr l op r) \<longleftrightarrow>
     (if op = OpAnd then canonical S cast_to env l \<and> canonical S cast_to env r
      else operand_canonical S cast_to env l \<and> operand_canonical S cast_to env r \<and>
        (op \<in> {OpGtEq, OpGt, OpLtEq, OpLt} \<longrightarrow> extract_column_name r = None))"
| "canonical S cast_to env (Between e negated low high) \<longleftrightarrow> operand_canonical S cast_to env e"
| "canonical S cast_to env (InListExpr e list negated) \<longleftrightarrow> operand_canonical S cast_to env e"
| "canonical S cast_to env (Cast e t) \<longleftrightarrow> canonical S cast_to env e"
| "canonical S cast_to env e \<longleftrightarrow> True"

section \<open>Soundness of the extraction\<close>

lemma eval_literal:
  assumes "extract_literal cast_to e = Some v"
  shows "\<exists>w. eval_expr S cast_to env e = Some w \<and> unwrap_dictionary_value w = v"
  using assms by (cases e) (auto split: Expr.splits)

lemma rel_column_literal:
  assumes "rel_holds S cast_to env R e l" "cast_keeps S cast_to env e"
    "extract_column_name e = Some c" "extract_literal cast_to l = Some v"
  shows "sql_rel S R (env c) v"
proof -
  obtain w where w: "eval_expr S cast_to env l = Some w" "unwrap_dictionary_value w = v"
    using eval_literal [OF assms(4), of S env] by blast
  obtain a where a: "eval_expr S cast_to env e = Some a"
    using assms(1) by (auto simp: rel_holds_def split: option.splits)
  have "key S (unwrap_dictionary_value a) = key S (unwrap_dictionary_value (env c))"
    using assms(2,3) a by (auto simp: cast_keeps_def)
  moreover have "unwrap_dictionary_value v = v" using w(2) by (induction w) auto
  ultimately show ?thesis using assms(1) a w by (simp add: rel_holds_def sql_rel_def)
qed

lemma rel_holds_sym: "rel_holds S cast_to env (=) l r \<longleftrightarrow> rel_holds S cast_to env (=) r l"
  by (auto simp: rel_holds_def sql_rel_def split: option.splits)

lemma eval_date_part:
  assumes "extract_date_part_call cast_to e = Some (c, f)" "operand_canonical S cast_to env e"
    "eval_expr S cast_to env e = Some w"
  shows "\<exists>n. part S f (env c) = Some n \<and> w = SInt32 (Some n)"
proof -
  obtain name args where e: "e = ScalarFunction name args" using assms(1) by (cases e) auto
  then obtain a b where args: "args = [a, b]" "name = ''date_part''"
    using assms(1) by (auto simp: length_Suc_conv numeral_2_eq_2 split: if_splits)
  have f: "extract_literal cast_to a = Some (SUtf8 (Some f))" and c: "extract_column_name b = Some c"
    using assms(1) e args by (auto split: option.splits ScalarValue.splits)
  obtain u where u: "eval_expr S cast_to env a = Some u" "unwrap_dictionary_value u = SUtf8 (Some f)"
    using eval_literal [OF f, of S env] by blast
  obtain v where v: "eval_expr S cast_to env b = Some v"
    using assms(3) e args u by (auto split: option.splits)
  have "part S f v = part S f (env c)"
    using assms(2) e args c v by (auto simp: operand_canonical_def cast_keeps_def)
  then show ?thesis using assms(3) e args u v by (auto split: option.splits)
qed

lemma rel_date_part:
  assumes "integer_parts S" "extract_date_part_call cast_to e = Some (c, f)"
    "operand_canonical S cast_to env e" "rel_holds S cast_to env (=) e l"
    "int_literal (extract_literal cast_to l) = Some v"
  shows "part S f (env c) = Some v"
proof -
  obtain sv where sv: "extract_literal cast_to l = Some sv" "int_literal (Some sv) = Some v"
    using assms(5) by (cases "extract_literal cast_to l") auto
  obtain b where b: "eval_expr S cast_to env l = Some b" "unwrap_dictionary_value b = sv"
    using eval_literal [OF sv(1), of S env] by blast
  obtain a where a: "eval_expr S cast_to env e = Some a"
    using assms(4) by (auto simp: rel_holds_def split: option.splits)
  obtain n where n: "part S f (env c) = Some n" "a = SInt32 (Some n)"
    using eval_date_part [OF assms(2,3) a] by blast
  have k: "key S (SInt32 (Some n)) = key S sv"
    using assms(4) a b n(2) by (auto simp: rel_holds_def sql_rel_def split: option.splits)
  have "n = v"
  proof (cases sv)
    case (SInt32 x)
    then show ?thesis using sv(2) k assms(1) unfolding integer_parts_def by (cases x) auto
  next
    case (SInt64 x)
    then obtain y where y: "x = Some y" "v = i32 y" using sv(2) by (cases x) auto
    then have "n = y" using k SInt64 assms(1) unfolding integer_parts_def by auto
    then show ?thesis using y n(1) assms(1) unfolding integer_parts_def by auto
  qed (use sv(2) in auto)
  then show ?thesis using n(1) by simp
qed

definition bounds_hold :: "('f, 'k::linorder) sql \<Rightarrow> 'f ScalarValue \<Rightarrow> 'f PartialBounds \<Rightarrow> bool" where
  "bounds_hold S x b \<longleftrightarrow> (\<forall>k \<in> set (into_filters b). kind_holds S x k)"

lemma bounds_hold_iff:
  "bounds_hold S x b \<longleftrightarrow>
     (case pb_eq b of None \<Rightarrow> True | Some v \<Rightarrow> sql_rel S (=) x v) \<and>
     (case pb_low b of None \<Rightarrow> True | Some (l, i) \<Rightarrow> sql_rel S (if i then (\<ge>) else (>)) x l) \<and>
     (case pb_high b of None \<Rightarrow> True | Some (h, i) \<Rightarrow> sql_rel S (if i then (\<le>) else (<)) x h) \<and>
     (\<forall>(f, v) \<in> set (date_parts b). part S f x = Some v) \<and>
     (case in_list b of None \<Rightarrow> True | Some vs \<Rightarrow> list_ex (sql_rel S (=) x) vs) \<and>
     (\<forall>(f, vs) \<in> set (date_part_sets b). list_ex (\<lambda>v. part S f x = Some v) vs)"
  unfolding bounds_hold_def into_filters_def
  by (cases "pb_eq b"; cases "pb_low b"; cases "pb_high b"; cases "in_list b") (auto simp: ball_Un)

definition bounds_sound :: "('f, 'k::linorder) sql \<Rightarrow> (string \<Rightarrow> 'f ScalarValue) \<Rightarrow> 'f bounds_map \<Rightarrow> bool" where
  "bounds_sound S env m \<longleftrightarrow> (\<forall>c b. map_of m c = Some b \<longrightarrow> bounds_hold S (env c) b)"

lemma bounds_sound_Nil [simp]: "bounds_sound S env []"
  by (simp add: bounds_sound_def)

lemma bounds_hold_default: "bounds_hold S x pb_default"
  by (simp add: bounds_hold_def into_filters_def pb_default_def)

lemma bounds_sound_update:
  assumes "bounds_sound S env m" "\<And>b. bounds_hold S (env c) b \<Longrightarrow> bounds_hold S (env c) (f b)"
  shows "bounds_sound S env (update_bounds names c f m)"
proof -
  have "bounds_hold S (env c) (case map_of m c of None \<Rightarrow> pb_default | Some b \<Rightarrow> b)"
    using assms(1) by (cases "map_of m c") (auto simp: bounds_sound_def bounds_hold_default)
  then show ?thesis using assms(1) assms(2) [OF \<open>bounds_hold S (env c) _\<close>]
    by (simp add: bounds_sound_def update_bounds_def)
qed

lemma column_and_literalD:
  "column_and_literal cast_to l r = Some (c, v) \<Longrightarrow>
     extract_column_name l = Some c \<and> extract_literal cast_to r = Some v"
  by (auto simp: column_and_literal_def split: option.splits)

lemma comparison_canonical:
  "extract_column_name r = None \<Longrightarrow>
     extract_column_literal_comparison cast_to l r i = column_and_literal cast_to l r"
  by (auto simp: extract_column_literal_comparison_def column_and_literal_def split: option.splits)

lemma extract_eq_sound:
  assumes "integer_parts S" "bounds_sound S env m" "rel_holds S cast_to env (=) l r"
    "operand_canonical S cast_to env l" "operand_canonical S cast_to env r"
  shows "bounds_sound S env (extract_eq cast_to names l r m)"
proof (cases "extract_column_literal_eq cast_to l r")
  case (Some cv)
  then obtain c v where cv: "extract_column_literal_eq cast_to l r = Some (c, v)" by (cases cv) auto
  have "sql_rel S (=) (env c) v"
  proof (cases "column_and_literal cast_to l r")
    case None
    then show ?thesis
      using cv rel_column_literal [of S cast_to env "(=)" r l c v] assms(3,5)
      by (auto simp: extract_column_literal_eq_def operand_canonical_def rel_holds_sym [of S cast_to env l]
          dest!: column_and_literalD)
  next
    case (Some p)
    then show ?thesis
      using cv rel_column_literal [of S cast_to env "(=)" l r c v] assms(3,4)
      by (auto simp: extract_column_literal_eq_def operand_canonical_def dest!: column_and_literalD)
  qed
  then show ?thesis
    using cv assms(2) by (auto simp: extract_eq_def bounds_hold_iff intro!: bounds_sound_update)
next
  case None
  then show ?thesis
    using assms(2) rel_date_part [OF assms(1) _ assms(4,3)]
    by (auto simp: extract_eq_def extract_date_part_eq_def bounds_hold_iff intro!: bounds_sound_update split: option.splits)
qed

lemma extract_low_sound:
  assumes "bounds_sound S env m" "rel_holds S cast_to env (if inc then (\<ge>) else (>)) l r"
    "operand_canonical S cast_to env l" "extract_column_name r = None"
  shows "bounds_sound S env (extract_low cast_to names l r inc m)"
  using assms rel_column_literal [OF assms(2)]
  by (auto simp: extract_low_def comparison_canonical operand_canonical_def bounds_hold_iff
      dest!: column_and_literalD intro!: bounds_sound_update split: option.splits)

lemma extract_high_sound:
  assumes "bounds_sound S env m" "rel_holds S cast_to env (if inc then (\<le>) else (<)) l r"
    "operand_canonical S cast_to env l" "extract_column_name r = None"
  shows "bounds_sound S env (extract_high cast_to names l r inc m)"
  using assms rel_column_literal [OF assms(2)]
  by (auto simp: extract_high_def comparison_canonical operand_canonical_def bounds_hold_iff
      dest!: column_and_literalD intro!: bounds_sound_update split: option.splits)

lemma extract_between_sound:
  assumes "bounds_sound S env m" "rel_holds S cast_to env (\<ge>) e low" "rel_holds S cast_to env (\<le>) e high"
    "operand_canonical S cast_to env e"
  shows "bounds_sound S env (extract_between cast_to names e low high m)"
  using assms rel_column_literal [OF assms(2)] rel_column_literal [OF assms(3)]
  by (auto simp: extract_between_def operand_canonical_def bounds_hold_iff intro!: bounds_sound_update split: option.splits)

lemma collect_options_Some:
  "collect_options (map f xs) = Some vs \<Longrightarrow> x \<in> set xs \<Longrightarrow> \<exists>v \<in> set vs. f x = Some v"
  by (induction xs arbitrary: vs) (auto split: option.splits)

lemma extract_in_list_sound:
  assumes "integer_parts S" "bounds_sound S env m" "list_ex (rel_holds S cast_to env (=) e) list"
    "operand_canonical S cast_to env e"
  shows "bounds_sound S env (extract_in_list cast_to names e list m)"
proof -
  obtain l where l: "l \<in> set list" "rel_holds S cast_to env (=) e l" using assms(3) by (auto simp: list_ex_iff)
  show ?thesis
  proof (cases "extract_column_name e")
    case (Some c)
    have "list_ex (sql_rel S (=) (env c)) vs" if "collect_options (map (extract_literal cast_to) list) = Some vs" for vs
      using collect_options_Some [OF that l(1)] rel_column_literal [OF l(2) _ Some] assms(4)
      by (auto simp: list_ex_iff operand_canonical_def)
    then show ?thesis
      using Some assms(2) by (auto simp: extract_in_list_def bounds_hold_iff intro!: bounds_sound_update split: option.splits)
  next
    case None
    have "list_ex (\<lambda>v. part S f (env c) = Some v) vs"
      if "extract_date_part_call cast_to e = Some (c, f)"
        "collect_options (map (\<lambda>x. int_literal (extract_literal cast_to x)) list) = Some vs" for c f vs
      using collect_options_Some [OF that(2) l(1)] rel_date_part [OF assms(1) that(1) assms(4) l(2)]
      by (auto simp: list_ex_iff)
    then show ?thesis
      using None assms(2) by (auto simp: extract_in_list_def bounds_hold_iff intro!: bounds_sound_update split: option.splits)
  qed
qed

lemma extract_filters_sound:
  assumes "integer_parts S" "bounds_sound S env m" "holds S cast_to env e" "canonical S cast_to env e"
  shows "bounds_sound S env (extract_filters cast_to names e m)"
  using assms
proof (induction cast_to names e m rule: extract_filters.induct)
  case (1 cast_to names l r m)
  then show ?case by simp
qed (auto intro: extract_eq_sound extract_between_sound extract_in_list_sound
    extract_low_sound [where inc = True, simplified] extract_low_sound [where inc = False, simplified]
    extract_high_sound [where inc = True, simplified] extract_high_sound [where inc = False, simplified])

section \<open>Shape of the extracted filters\<close>

lemma extract_filters_keys:
  "distinct (map fst m) \<Longrightarrow> fst ` set m \<subseteq> set names \<Longrightarrow>
     distinct (map fst (extract_filters cast_to names e m)) \<and>
     fst ` set (extract_filters cast_to names e m) \<subseteq> set names"
proof (induction cast_to names e m rule: extract_filters.induct)
  case (1 cast_to names l r m)
  then show ?case by auto
qed (auto simp: extract_eq_def extract_low_def extract_high_def extract_between_def extract_in_list_def
    update_bounds_def split: option.splits if_splits)

lemma fold_extract_keys:
  "distinct (map fst m) \<Longrightarrow> fst ` set m \<subseteq> set names \<Longrightarrow>
     distinct (map fst (fold (extract_filters cast_to names) es m)) \<and>
     fst ` set (fold (extract_filters cast_to names) es m) \<subseteq> set names"
proof (induction es arbitrary: m)
  case (Cons e es)
  then show ?case using extract_filters_keys [of m names cast_to e] by simp
qed simp

lemma fold_extract_sound:
  "integer_parts S \<Longrightarrow> bounds_sound S env m \<Longrightarrow>
     (\<And>e. e \<in> set es \<Longrightarrow> holds S cast_to env e \<and> canonical S cast_to env e) \<Longrightarrow>
     bounds_sound S env (fold (extract_filters cast_to names) es m)"
  by (induction es arbitrary: m) (auto intro: extract_filters_sound)

lemma map_of_parse:
  assumes "map_of (parse_coord_filters cast_to es names) c = Some kinds"
  shows "\<exists>b. map_of (fold (extract_filters cast_to names) es []) c = Some b \<and> kinds = into_filters b"
proof -
  define m where "m = fold (extract_filters cast_to names) es []"
  have d: "distinct (map fst m)" using fold_extract_keys [of "[]" names cast_to es] by (simp add: m_def)
  have "(c, kinds) \<in> set (parse_coord_filters cast_to es names)" using assms by (rule map_of_SomeD)
  then obtain b where "(c, b) \<in> set m" "kinds = into_filters b"
    by (auto simp: parse_coord_filters_def simp flip: m_def)
  then show ?thesis using d by (auto simp: m_def)
qed

text \<open>The ordering key of exact arithmetic, where every comparison of numbers is exact.\<close>

definition exact_sql :: "(string \<Rightarrow> rat ScalarValue \<Rightarrow> int option) \<Rightarrow> (rat, rat) sql" where
  "exact_sql p = \<lparr>key = scalar_to_f64 exact_f64, part = (\<lambda>f x. map_option i32 (p f x)), other = (\<lambda>_. True)\<rparr>"

lemma i32_idem [simp]: "i32 (i32 n) = i32 n"
  by (simp add: i32_def mod_diff_left_eq)

lemma exact_sql_integer_parts: "integer_parts (exact_sql p)"
  by (auto simp: integer_parts_def exact_sql_def exact_f64_def)

lemma sql_rel_scalar:
  assumes "key S = scalar_to_f64 fl" "sql_rel S R x v" "scalar_to_f64 fl (unwrap_dictionary_value x) = Some a"
    "scalar_to_f64 fl v = Some b"
  shows "R a b"
proof -
  have "unwrap_dictionary_value v = v" using assms(4) by (cases v) auto
  then show ?thesis using assms by (simp add: sql_rel_def)
qed

lemma kind_holds_satisfiable:
  assumes "key S = scalar_to_f64 fl" "scalar_to_f64 fl (unwrap_dictionary_value x) = Some a" "mn \<le> a" "a \<le> mx"
    "kind_holds S x k"
  shows "kind_satisfiable fl mn mx k"
proof (cases k)
  case (Eq v)
  then show ?thesis
    using assms sql_rel_scalar [OF assms(1) _ assms(2)] by (auto simp: within_bounds_def split: option.splits)
next
  case (Range low high li hi)
  have "mn \<le> h" if "Option.bind high (scalar_to_f64 fl) = Some h" for h
    using that assms(3,5) Range sql_rel_scalar [OF assms(1) _ assms(2)]
    by (cases high; cases hi; fastforce intro: order.trans)
  moreover have "l \<le> mx" if "Option.bind low (scalar_to_f64 fl) = Some l" for l
    using that assms(4,5) Range sql_rel_scalar [OF assms(1) _ assms(2)]
    by (cases low; cases li; fastforce intro: order.trans)
  ultimately show ?thesis using Range by (simp split: option.splits)
next
  case (InList vs)
  then obtain v where v: "v \<in> set vs" "sql_rel S (=) x v" using assms(5) by (auto simp: list_ex_iff)
  have "within_bounds fl mn mx v"
    using v(2) assms(3,4) sql_rel_scalar [OF assms(1) _ assms(2)] by (auto simp: within_bounds_def split: option.splits)
  then show ?thesis using InList v(1) by (auto simp: list_ex_iff)
qed auto

section \<open>Properties\<close>

text \<open>C33: Filter extraction is sound on canonical expressions, those without a range comparison that has its column on
  the right and with casts that keep the literals: when a row satisfies every WHERE expression, its value of each
  coordinate satisfies every filter extracted for that coordinate, whether an equality, a range merged from several
  comparisons, an IN list or a date part.  \<open>reversed_comparison_loses_rows\<close> shows why reversed range comparisons are
  excluded.\<close>

theorem extraction_sound:
  assumes "integer_parts S" "\<And>e. e \<in> set es \<Longrightarrow> holds S cast_to env e \<and> canonical S cast_to env e"
    and "filters_get (parse_coord_filters cast_to es names) c = Some kinds" "k \<in> set kinds"
  shows "kind_holds S (env c) k"
  using map_of_parse [OF assms(3) [unfolded filters_get_def]] assms(4)
    fold_extract_sound [OF assms(1) bounds_sound_Nil assms(2), of es names]
  by (auto simp: bounds_sound_def bounds_hold_def)

definition demo_where :: "rat Expr list" where
  "demo_where =
     [BinaryExpr (BinaryExpr (Column ''lat'') OpGtEq (Literal (SInt64 (Some 3))))
        OpAnd (BinaryExpr (Column ''lat'') OpLt (Literal (SInt64 (Some 9))))]"

theorem extraction_sound_witness:
  "kind_holds (exact_sql (\<lambda>_ _. None)) (SInt64 (Some 4))
     (Range (Some (SInt64 (Some 3))) (Some (SInt64 (Some 9))) True False)"
proof (rule extraction_sound [where S = "exact_sql (\<lambda>_ _. None)" and es = demo_where and cast_to = "\<lambda>v t. Some v"
      and env = "\<lambda>_. SInt64 (Some 4)" and names = "[''lat'']" and c = "''lat''"])
  show "integer_parts (exact_sql (\<lambda>_ _. None))" by (rule exact_sql_integer_parts)
  show "holds (exact_sql (\<lambda>_ _. None)) (\<lambda>v t. Some v) (\<lambda>_. SInt64 (Some 4)) e \<and>
      canonical (exact_sql (\<lambda>_ _. None)) (\<lambda>v t. Some v) (\<lambda>_. SInt64 (Some 4)) e"
    if "e \<in> set demo_where" for e
    using that by (auto simp: demo_where_def rel_holds_def sql_rel_def exact_sql_def exact_f64_def
        operand_canonical_def cast_keeps_def)
  show "filters_get (parse_coord_filters (\<lambda>v t. Some v) demo_where [''lat'']) ''lat'' =
      Some [Range (Some (SInt64 (Some 3))) (Some (SInt64 (Some 9))) True False]"
    by (simp add: demo_where_def filters_get_def parse_coord_filters_def extract_low_def extract_high_def
        extract_column_literal_comparison_def column_and_literal_def update_bounds_def pb_default_def into_filters_def ex_bool_eq)
  show "Range (Some (SInt64 (Some 3))) (Some (SInt64 (Some 9))) True False
      \<in> set [Range (Some (SInt64 (Some 3))) (Some (SInt64 (Some 9))) True False]" by simp
qed

text \<open>The extracted filters are well formed: one entry per coordinate, only coordinates of the
  table, and never an empty list of filters.\<close>

theorem extracted_filters_well_formed:
  "distinct (map fst (parse_coord_filters cast_to es names)) \<and>
   list_all (\<lambda>(c, kinds). c \<in> set names \<and> kinds \<noteq> []) (parse_coord_filters cast_to es names)"
proof -
  define m where "m = fold (extract_filters cast_to names) es []"
  have m: "distinct (map fst m)" "fst ` set m \<subseteq> set names"
    using fold_extract_keys [of "[]" names cast_to es] by (simp_all add: m_def)
  have "distinct (map fst (map (\<lambda>(c, b). (c, into_filters b)) m))"
    using m(1) by (simp add: comp_def case_prod_beta)
  then show ?thesis
    using m(2) by (auto simp: parse_coord_filters_def list_all_iff intro!: distinct_map_filter simp flip: m_def)
qed

text \<open>C36: Early rejection never rejects a query a row can satisfy.  When the value of every filtered
  coordinate that has bounds lies within them and satisfies all filters of the coordinate, the
  bounds check accepts.  The premise on the bounds fails for CF time, whose bounds are statistics of the raw values.\<close>

theorem early_rejection_sound:
  assumes "key S = scalar_to_f64 fl"
    "\<And>c kinds k. (c, kinds) \<in> set fs \<Longrightarrow> k \<in> set kinds \<Longrightarrow> kind_holds S (env c) k"
    "\<And>c m mn mx. find (\<lambda>m. meta_name m = c) metas = Some m \<Longrightarrow> coord_min_max m = Some (mn, mx) \<Longrightarrow>
       \<exists>x. scalar_to_f64 fl (unwrap_dictionary_value (env c)) = Some x \<and> mn \<le> x \<and> x \<le> mx"
  shows "filter_satisfiable_by_bounds fl fs metas"
proof -
  have "kind_satisfiable fl mn mx k"
    if "(c, kinds) \<in> set fs" "k \<in> set kinds" "find (\<lambda>m. meta_name m = c) metas = Some m"
      "coord_min_max m = Some (mn, mx)" for c kinds k m mn mx
    using assms(3) [OF that(3,4)] kind_holds_satisfiable [OF assms(1)] assms(2) [OF that(1,2)] by blast
  then show ?thesis
    by (auto simp: filter_satisfiable_by_bounds_def list_all_iff split: option.splits)
qed

theorem early_rejection_sound_witness:
  "filter_satisfiable_by_bounds exact_f64 [(''lat'', [Eq (SInt64 (Some 4))])]
     [\<lparr>meta_name = ''lat'', data_type = ''float64'', shape = [8], chunks = None, coord_min_max = Some (0, 7),
       cf_time_attrs = None, dimensions = None\<rparr>]"
proof (rule early_rejection_sound [where S = "exact_sql (\<lambda>_ _. None)" and env = "\<lambda>_. SInt64 (Some 4)"])
  show "key (exact_sql (\<lambda>_ _. None)) = scalar_to_f64 exact_f64" by (simp add: exact_sql_def)
qed (auto simp: exact_sql_def sql_rel_def exact_f64_def split: if_splits)

text \<open>A date part comparison with the literal on the left is declared as filtered exactly, so that no filter
  remains above the scan, while the extraction drops it: \<open>12 = EXTRACT(MONTH FROM time)\<close> filters nothing.\<close>

theorem reversed_date_part_dropped:
  "let e = BinaryExpr (Literal (SInt32 (Some 12))) OpEq
             (ScalarFunction ''date_part'' [Literal (SUtf8 (Some ''MONTH'')), Column ''time'']) in
   is_date_part_filter cast_to e \<and> parse_coord_filters cast_to [e] [''time''] = []"
  by (simp add: Let_def extract_date_part_eq_def parse_coord_filters_def extract_eq_def extract_column_literal_eq_def
      column_and_literal_def)

text \<open>A range comparison with the literal on the left is read with the wrong direction: \<open>5 \<ge> lat\<close> becomes
  the lower bound \<open>lat \<ge> 5\<close>, which a row with \<open>lat = 4\<close> does not satisfy although it satisfies the expression.\<close>

theorem reversed_comparison_loses_rows:
  "let e = BinaryExpr (Literal (SInt64 (Some 5))) OpGtEq (Column ''lat'') in
   parse_coord_filters cast_to [e] [''lat''] = [(''lat'', [Range (Some (SInt64 (Some 5))) None True True])] \<and>
   holds (exact_sql p) cast_to (\<lambda>_. SInt64 (Some 4)) e \<and>
   \<not> kind_holds (exact_sql p) (SInt64 (Some 4)) (Range (Some (SInt64 (Some 5))) None True True)"
  by (simp add: Let_def parse_coord_filters_def extract_low_def extract_column_literal_comparison_def
      column_and_literal_def update_bounds_def pb_default_def into_filters_def ex_bool_eq rel_holds_def sql_rel_def
      exact_sql_def exact_f64_def)

end
