(* ===== verification/Filter_Resolve.thy ===== *)
theory Filter_Resolve
  imports Filter_Expr Coord_Values
begin

text \<open>
  Resolution of coordinate filters to positions (\<open>src/reader/filter.rs\<close>): value lookup, the bounds of
  ascending and descending coordinates by bisection, the closed form bounds of compact encodings, date
  part matching and the intersection of all filters of a coordinate.  The lemmas show that
  the positions found are exactly those whose value matches, for explicit values under any
  rounding and for compact encodings in exact arithmetic.
\<close>

section \<open>Searching coordinate values\<close>

datatype 'f CoordValuesRef =
    RefInt64 "int list"
  | RefFloat32 "'f list"
  | RefFloat64 "'f list"
  | RefTimestampMicros "int list"
  | RefCompact "'f CompactCoord" bool

fun ref_len :: "'f CoordValuesRef \<Rightarrow> nat" where
  "ref_len (RefInt64 v) = length v"
| "ref_len (RefFloat32 v) = length v"
| "ref_len (RefFloat64 v) = length v"
| "ref_len (RefTimestampMicros v) = length v"
| "ref_len (RefCompact e t) = compact_len e"

definition ref_is_empty :: "'f CoordValuesRef \<Rightarrow> bool" where
  "ref_is_empty values \<longleftrightarrow> ref_len values = 0"

fun coord_values_to_ref :: "'f CoordValues \<Rightarrow> 'f CoordValuesRef" where
  "coord_values_to_ref (Int64Values v) = RefInt64 v"
| "coord_values_to_ref (Float32Values v) = RefFloat32 v"
| "coord_values_to_ref (Float64Values v) = RefFloat64 v"
| "coord_values_to_ref (TimestampMicros v) = RefTimestampMicros v"
| "coord_values_to_ref (Compact e t) = RefCompact e t"

definition coord_values_to_refs :: "'f CoordValues list \<Rightarrow> 'f CoordValuesRef list" where
  "coord_values_to_refs vs = map coord_values_to_ref vs"

fun compact_target :: "'f F64 \<Rightarrow> bool \<Rightarrow> 'f ScalarValue \<Rightarrow> 'f option" where
  "compact_target fl ts (SInt64 (Some v)) = Some (f_of_int fl v)"
| "compact_target fl ts (SInt32 (Some v)) = Some (f_of_int fl v)"
| "compact_target fl ts (SFloat32 (Some v)) = Some v"
| "compact_target fl ts (SFloat64 (Some v)) = Some v"
| "compact_target fl ts (STimestampMicrosecond (Some v) tz) = (if ts then Some (f_of_int fl v) else None)"
| "compact_target fl ts (STimestampNanosecond (Some v) tz) =
     (if ts then Some (f_of_int fl (v sdiv 1000)) else None)"
| "compact_target fl ts _ = None"

text \<open>\<open>(diff / step) as usize\<close> reinterprets a negative quotient as a large index.  The division of the smallest \<open>i64\<close> by
  -1, a panic in the source, is outside the model.\<close>

fun find_compact_at :: "'f::{linorder,zero} F64 \<Rightarrow> 'f CompactCoord \<Rightarrow> 'f \<Rightarrow> nat option" where
  "find_compact_at fl (ArithmeticInt f s n) t =
     (if s = 0 then (if f_abs fl (f_sub fl t (f_of_int fl f)) < f_eps fl then Some 0 else None)
      else
        let diff = i64 (as_i64 (f_round fl t) - f) in
        if diff smod s \<noteq> 0 then None
        else let index = nat (diff sdiv s mod 2 ^ 64) in if index < n then Some index else None)"
| "find_compact_at fl (Arithmetic f s n) t =
     (if f_abs fl s < f_eps fl then (if f_abs fl (f_sub fl t f) < f_eps fl then Some 0 else None)
      else
        let index = as_usize (f_round fl (f_div fl (f_sub fl t f) s)) in
        if index < n \<and>
           f_abs fl (f_sub fl (f_add fl f (f_mul fl (f_of_int fl (int index)) s)) t) < f_tol9 fl
        then Some index else None)"

definition find_compact_index ::
    "'f::{linorder,zero} F64 \<Rightarrow> 'f CompactCoord \<Rightarrow> bool \<Rightarrow> 'f ScalarValue \<Rightarrow> nat option" where
  "find_compact_index fl enc ts target = Option.bind (compact_target fl ts target) (find_compact_at fl enc)"

abbreviation close64 :: "'f::linorder F64 \<Rightarrow> 'f \<Rightarrow> 'f \<Rightarrow> bool" where
  "close64 fl v x \<equiv> f_abs fl (f_sub fl x v) < f_eps fl"

abbreviation close32 :: "'f::linorder F64 \<Rightarrow> 'f \<Rightarrow> 'f \<Rightarrow> bool" where
  "close32 fl v x \<equiv> f_abs fl (f_sub32 fl x v) < f_eps32 fl"

fun find_value_index :: "'f::{linorder,zero} F64 \<Rightarrow> 'f CoordValuesRef \<Rightarrow> 'f ScalarValue \<Rightarrow> nat option" where
  "find_value_index fl (RefInt64 vals) (SInt64 (Some v)) = position (\<lambda>x. x = v) vals"
| "find_value_index fl (RefInt64 vals) (SInt32 (Some v)) = position (\<lambda>x. x = v) vals"
| "find_value_index fl (RefFloat32 vals) (SFloat32 (Some v)) = position (close32 fl v) vals"
| "find_value_index fl (RefFloat32 vals) (SFloat64 (Some v)) = position (close32 fl (f_to_f32 fl v)) vals"
| "find_value_index fl (RefFloat64 vals) (SFloat64 (Some v)) = position (close64 fl v) vals"
| "find_value_index fl (RefFloat64 vals) (SFloat32 (Some v)) = position (close64 fl v) vals"
| "find_value_index fl (RefFloat32 vals) (SInt64 (Some v)) = position (close32 fl (f_of_int32 fl v)) vals"
| "find_value_index fl (RefFloat64 vals) (SInt64 (Some v)) = position (close64 fl (f_of_int fl v)) vals"
| "find_value_index fl (RefTimestampMicros vals) (STimestampMicrosecond (Some v) tz) = position (\<lambda>x. x = v) vals"
| "find_value_index fl (RefTimestampMicros vals) (STimestampNanosecond (Some v) tz) =
     position (\<lambda>x. x = v sdiv 1000) vals"
| "find_value_index fl (RefTimestampMicros vals) (SInt64 (Some v)) = position (\<lambda>x. x = v) vals"
| "find_value_index fl (RefCompact enc ts) target = find_compact_index fl enc ts target"
| "find_value_index fl _ _ = None"

section \<open>Bounds\<close>

definition clamp_index :: "int \<Rightarrow> nat \<Rightarrow> nat" where
  "clamp_index idx n = nat (max 0 (min idx (int n)))"

fun compact_lower_bound :: "'f::linorder F64 \<Rightarrow> 'f CompactCoord \<Rightarrow> 'f \<Rightarrow> nat" where
  "compact_lower_bound fl (ArithmeticInt f s n) t =
     (if s = 0 then (if f_of_int fl f \<ge> t then 0 else n)
      else clamp_index (as_i64 (f_ceil fl (f_div fl (f_sub fl t (f_of_int fl f)) (f_of_int fl s)))) n)"
| "compact_lower_bound fl (Arithmetic f s n) t =
     (if f_abs fl s < f_eps fl then (if f \<ge> t then 0 else n)
      else clamp_index (as_i64 (f_ceil fl (f_div fl (f_sub fl t f) s))) n)"

fun compact_upper_bound :: "'f::linorder F64 \<Rightarrow> 'f CompactCoord \<Rightarrow> 'f \<Rightarrow> nat" where
  "compact_upper_bound fl (ArithmeticInt f s n) t =
     (if s = 0 then (if f_of_int fl f \<le> t then n else 0)
      else clamp_index (i64 (as_i64 (f_floor fl (f_div fl (f_sub fl t (f_of_int fl f)) (f_of_int fl s))) + 1)) n)"
| "compact_upper_bound fl (Arithmetic f s n) t =
     (if f_abs fl s < f_eps fl then (if f \<le> t then n else 0)
      else clamp_index (i64 (as_i64 (f_floor fl (f_div fl (f_sub fl t f) s)) + 1)) n)"

datatype DescendingBoundType = FirstLeq | FirstLt

fun constant_descending_bound :: "'f::linorder \<Rightarrow> 'f \<Rightarrow> nat \<Rightarrow> DescendingBoundType \<Rightarrow> bool \<Rightarrow> nat" where
  "constant_descending_bound f t n FirstLeq True = (if f \<le> t then 0 else n)"
| "constant_descending_bound f t n FirstLeq False = (if f < t then 0 else n)"
| "constant_descending_bound f t n FirstLt True = (if f \<ge> t then n else 0)"
| "constant_descending_bound f t n FirstLt False = (if f > t then n else 0)"

fun descending_index :: "'f F64 \<Rightarrow> 'f \<Rightarrow> DescendingBoundType \<Rightarrow> bool \<Rightarrow> int" where
  "descending_index fl diff FirstLeq True = as_i64 (f_ceil fl diff)"
| "descending_index fl diff FirstLeq False = as_i64 (f_ceil fl (f_add fl diff (f_eps fl)))"
| "descending_index fl diff FirstLt True = i64 (as_i64 (f_floor fl diff) + 1)"
| "descending_index fl diff FirstLt False = as_i64 (f_ceil fl diff)"

fun compact_descending_bound ::
    "'f::linorder F64 \<Rightarrow> 'f CompactCoord \<Rightarrow> 'f \<Rightarrow> DescendingBoundType \<Rightarrow> bool \<Rightarrow> nat" where
  "compact_descending_bound fl (ArithmeticInt f s n) t bt inc =
     (if s = 0 then constant_descending_bound (f_of_int fl f) t n bt inc
      else clamp_index (descending_index fl
        (f_div fl (f_sub fl (f_of_int fl f) t) (f_neg fl (f_of_int fl s))) bt inc) n)"
| "compact_descending_bound fl (Arithmetic f s n) t bt inc =
     (if f_abs fl s < f_eps fl then constant_descending_bound f t n bt inc
      else clamp_index (descending_index fl (f_div fl (f_sub fl f t) (f_neg fl s)) bt inc) n)"

fun compact_descending :: "'f::{linorder,zero} CompactCoord \<Rightarrow> bool" where
  "compact_descending (Arithmetic f s n) \<longleftrightarrow> s < 0"
| "compact_descending (ArithmeticInt f s n) \<longleftrightarrow> s < 0"

fun descending_ends :: "'f::{linorder,zero} CoordValuesRef \<Rightarrow> bool" where
  "descending_ends (RefInt64 v) \<longleftrightarrow> v ! 0 > v ! (length v - 1)"
| "descending_ends (RefFloat32 v) \<longleftrightarrow> v ! 0 > v ! (length v - 1)"
| "descending_ends (RefFloat64 v) \<longleftrightarrow> v ! 0 > v ! (length v - 1)"
| "descending_ends (RefTimestampMicros v) \<longleftrightarrow> v ! 0 > v ! (length v - 1)"
| "descending_ends (RefCompact e t) \<longleftrightarrow> compact_descending e"

definition is_descending :: "'f::{linorder,zero} CoordValuesRef \<Rightarrow> bool" where
  "is_descending values = (if ref_len values < 2 then False else descending_ends values)"

fun lower_bound_at :: "'f::linorder F64 \<Rightarrow> 'f CoordValuesRef \<Rightarrow> 'f \<Rightarrow> nat" where
  "lower_bound_at fl (RefInt64 v) t = partition_point (\<lambda>x. f_of_int fl x < t) v"
| "lower_bound_at fl (RefFloat32 v) t = partition_point (\<lambda>x. x < t) v"
| "lower_bound_at fl (RefFloat64 v) t = partition_point (\<lambda>x. x < t) v"
| "lower_bound_at fl (RefTimestampMicros v) t = partition_point (\<lambda>x. f_of_int fl x < t) v"
| "lower_bound_at fl (RefCompact e ts) t = compact_lower_bound fl e t"

definition binary_search_lower_bound :: "'f::linorder F64 \<Rightarrow> 'f CoordValuesRef \<Rightarrow> 'f ScalarValue \<Rightarrow> nat option" where
  "binary_search_lower_bound fl values target = map_option (lower_bound_at fl values) (scalar_to_f64 fl target)"

fun upper_bound_at :: "'f::linorder F64 \<Rightarrow> 'f CoordValuesRef \<Rightarrow> 'f \<Rightarrow> nat" where
  "upper_bound_at fl (RefInt64 v) t = partition_point (\<lambda>x. f_of_int fl x \<le> t) v"
| "upper_bound_at fl (RefFloat32 v) t = partition_point (\<lambda>x. x \<le> t) v"
| "upper_bound_at fl (RefFloat64 v) t = partition_point (\<lambda>x. x \<le> t) v"
| "upper_bound_at fl (RefTimestampMicros v) t = partition_point (\<lambda>x. f_of_int fl x \<le> t) v"
| "upper_bound_at fl (RefCompact e ts) t = compact_upper_bound fl e t"

definition binary_search_upper_bound :: "'f::linorder F64 \<Rightarrow> 'f CoordValuesRef \<Rightarrow> 'f ScalarValue \<Rightarrow> nat option" where
  "binary_search_upper_bound fl values target = map_option (upper_bound_at fl values) (scalar_to_f64 fl target)"

fun descending_partition_point :: "'f::linorder list \<Rightarrow> 'f \<Rightarrow> DescendingBoundType \<Rightarrow> bool \<Rightarrow> nat" where
  "descending_partition_point vals t FirstLeq True = partition_point (\<lambda>x. x > t) vals"
| "descending_partition_point vals t FirstLeq False = partition_point (\<lambda>x. x \<ge> t) vals"
| "descending_partition_point vals t FirstLt True = partition_point (\<lambda>x. x \<ge> t) vals"
| "descending_partition_point vals t FirstLt False = partition_point (\<lambda>x. x > t) vals"

fun descending_bound_at :: "'f::linorder F64 \<Rightarrow> 'f CoordValuesRef \<Rightarrow> 'f \<Rightarrow> DescendingBoundType \<Rightarrow> bool \<Rightarrow> nat" where
  "descending_bound_at fl (RefInt64 v) t bt inc = descending_partition_point (map (f_of_int fl) v) t bt inc"
| "descending_bound_at fl (RefFloat32 v) t bt inc = descending_partition_point v t bt inc"
| "descending_bound_at fl (RefFloat64 v) t bt inc = descending_partition_point v t bt inc"
| "descending_bound_at fl (RefTimestampMicros v) t bt inc = descending_partition_point (map (f_of_int fl) v) t bt inc"
| "descending_bound_at fl (RefCompact e ts) t bt inc = compact_descending_bound fl e t bt inc"

definition find_descending_bound ::
    "'f::linorder F64 \<Rightarrow> 'f CoordValuesRef \<Rightarrow> 'f ScalarValue \<Rightarrow> DescendingBoundType \<Rightarrow> bool \<Rightarrow> nat option" where
  "find_descending_bound fl values target bt inc =
     map_option (\<lambda>t. descending_bound_at fl values t bt inc) (scalar_to_f64 fl target)"

definition find_first_leq_descending :: "'f::linorder F64 \<Rightarrow> 'f CoordValuesRef \<Rightarrow> 'f ScalarValue \<Rightarrow> bool \<Rightarrow> nat option" where
  "find_first_leq_descending fl values target inc = find_descending_bound fl values target FirstLeq inc"

definition find_first_lt_descending :: "'f::linorder F64 \<Rightarrow> 'f CoordValuesRef \<Rightarrow> 'f ScalarValue \<Rightarrow> bool \<Rightarrow> nat option" where
  "find_first_lt_descending fl values target inc = find_descending_bound fl values target FirstLt inc"

section \<open>Ranges\<close>

definition descending_range ::
    "'f::linorder F64 \<Rightarrow> 'f CoordValuesRef \<Rightarrow> 'f ScalarValue option \<Rightarrow> 'f ScalarValue option \<Rightarrow> bool \<Rightarrow> bool \<Rightarrow>
     (nat \<times> nat) option" where
  "descending_range fl values low high li hi =
     Option.bind (case high of Some h \<Rightarrow> find_first_leq_descending fl values h hi | None \<Rightarrow> Some 0)
       (\<lambda>start. Option.bind (case low of Some l \<Rightarrow> find_first_lt_descending fl values l li | None \<Rightarrow> Some (ref_len values))
          (\<lambda>stop. Some (start, stop)))"

definition ascending_start :: "'f::linorder F64 \<Rightarrow> 'f CoordValuesRef \<Rightarrow> 'f ScalarValue option \<Rightarrow> bool \<Rightarrow> nat option" where
  "ascending_start fl values low li =
     (case low of
        None \<Rightarrow> Some 0
      | Some l \<Rightarrow>
          Option.bind (binary_search_lower_bound fl values l) (\<lambda>idx.
            if li then Some idx
            else Option.bind (binary_search_upper_bound fl values l) (\<lambda>upper_idx.
              if upper_idx > idx then Some upper_idx else Some idx)))"

definition ascending_end :: "'f::linorder F64 \<Rightarrow> 'f CoordValuesRef \<Rightarrow> 'f ScalarValue option \<Rightarrow> bool \<Rightarrow> nat option" where
  "ascending_end fl values high hi =
     (case high of
        None \<Rightarrow> Some (ref_len values)
      | Some h \<Rightarrow>
          Option.bind (binary_search_upper_bound fl values h) (\<lambda>idx.
            if hi then Some idx else binary_search_lower_bound fl values h))"

definition ascending_range ::
    "'f::linorder F64 \<Rightarrow> 'f CoordValuesRef \<Rightarrow> 'f ScalarValue option \<Rightarrow> 'f ScalarValue option \<Rightarrow> bool \<Rightarrow> bool \<Rightarrow>
     (nat \<times> nat) option" where
  "ascending_range fl values low high li hi =
     Option.bind (ascending_start fl values low li)
       (\<lambda>start. Option.bind (ascending_end fl values high hi) (\<lambda>stop. Some (start, stop)))"

fun find_filter_range :: "'f::{linorder,zero} F64 \<Rightarrow> 'f CoordValuesRef \<Rightarrow> 'f CoordFilterKind \<Rightarrow> (nat \<times> nat) option" where
  "find_filter_range fl values (Eq v) = map_option (\<lambda>idx. (idx, idx + 1)) (find_value_index fl values v)"
| "find_filter_range fl values (Range low high li hi) =
     (if ref_len values = 0 then None
      else
        case (if is_descending values then descending_range fl values low high li hi
              else ascending_range fl values low high li hi) of
          None \<Rightarrow> None
        | Some (start, stop) \<Rightarrow> (if start < stop then Some (start, stop) else None))"
| "find_filter_range fl values _ = None"

section \<open>Date parts\<close>

text \<open>A UTC date and time, as chrono decodes it; \<open>decode\<close> is \<open>Utc.timestamp_micros(us).single()\<close>.\<close>

record DateTime =
  dt_year :: int
  dt_month :: nat
  dt_day :: nat
  dt_hour :: nat
  dt_minute :: nat
  num_days_from_monday :: nat
  dt_ordinal :: nat

text \<open>Upper case is that of ASCII, which the names of the date parts are.\<close>

definition to_upper :: "char \<Rightarrow> char" where
  "to_upper c = (if 97 \<le> (of_char c :: nat) \<and> (of_char c :: nat) \<le> 122 then char_of ((of_char c :: nat) - 32) else c)"

definition to_uppercase :: "string \<Rightarrow> string" where
  "to_uppercase s = map to_upper s"

definition date_part_value :: "string \<Rightarrow> DateTime \<Rightarrow> int option" where
  "date_part_value field dt =
     (if field = ''MONTH'' then Some (int (dt_month dt))
      else if field = ''YEAR'' then Some (dt_year dt)
      else if field = ''DAY'' then Some (int (dt_day dt))
      else if field = ''HOUR'' then Some (int (dt_hour dt))
      else if field = ''MINUTE'' then Some (int (dt_minute dt))
      else if field = ''DOW'' \<or> field = ''ISODOW'' then Some (int (num_days_from_monday dt))
      else if field = ''DOY'' then Some (int (dt_ordinal dt))
      else if field = ''QUARTER'' then Some ((int (dt_month dt) - 1) sdiv 3 + 1)
      else None)"

definition date_part_matches :: "(int \<Rightarrow> DateTime option) \<Rightarrow> string \<Rightarrow> int \<Rightarrow> int \<Rightarrow> bool" where
  "date_part_matches decode field v us =
     (case decode us of None \<Rightarrow> False | Some dt \<Rightarrow> date_part_value (to_uppercase field) dt = Some v)"

fun find_date_part_indices :: "(int \<Rightarrow> DateTime option) \<Rightarrow> 'f CoordValuesRef \<Rightarrow> string \<Rightarrow> int \<Rightarrow> nat list" where
  "find_date_part_indices decode (RefTimestampMicros micros) field v =
     map fst (filter (\<lambda>(i, us). date_part_matches decode field v us) (enumerate 0 micros))"
| "find_date_part_indices decode _ field v = []"

section \<open>Resolution\<close>

definition non_empty_indices :: "nat list \<Rightarrow> CoordSelection option" where
  "non_empty_indices ixs = (if ixs = [] then None else Some (SelIndices ixs))"

fun resolve_single_filter ::
    "'f::{linorder,zero} F64 \<Rightarrow> (int \<Rightarrow> DateTime option) \<Rightarrow> 'f CoordFilterKind \<Rightarrow> 'f CoordValuesRef \<Rightarrow> CoordSelection option" where
  "resolve_single_filter fl decode (DatePart field v) values =
     non_empty_indices (find_date_part_indices decode values field v)"
| "resolve_single_filter fl decode (DatePartSet field vs) values =
     non_empty_indices (sort_dedup (concat (map (find_date_part_indices decode values field) vs)))"
| "resolve_single_filter fl decode (InList list) values =
     non_empty_indices (sort_dedup (List.map_filter (find_value_index fl values) list))"
| "resolve_single_filter fl decode k values =
     map_option (\<lambda>(start, stop). SelRange start stop) (find_filter_range fl values k)"

fun intersect_filters ::
    "('k \<Rightarrow> CoordSelection option) \<Rightarrow> CoordSelection option \<Rightarrow> 'k list \<Rightarrow> CoordSelection option" where
  "intersect_filters resolve acc [] = acc"
| "intersect_filters resolve acc (k # ks) =
     (case resolve k of
        None \<Rightarrow> None
      | Some s \<Rightarrow>
          let acc' = (case acc of None \<Rightarrow> s | Some prev \<Rightarrow> sel_intersect prev s) in
          if sel_is_empty acc' then None else intersect_filters resolve (Some acc') ks)"

definition resolve_coord_selection ::
    "'f::{linorder,zero} F64 \<Rightarrow> (int \<Rightarrow> DateTime option) \<Rightarrow> 'f CoordFilterKind list option \<Rightarrow> 'f CoordValuesRef \<Rightarrow>
     CoordSelection option" where
  "resolve_coord_selection fl decode kinds values =
     (case kinds of
        Some (k # ks) \<Rightarrow> intersect_filters (\<lambda>k. resolve_single_filter fl decode k values) None (k # ks)
      | _ \<Rightarrow> Some (SelRange 0 (ref_len values)))"

text \<open>\<open>coord_values[i]\<close> exists for every name: the callers pass the values in the order of the names.\<close>

definition calculate_coord_ranges ::
    "'f::{linorder,zero} F64 \<Rightarrow> (int \<Rightarrow> DateTime option) \<Rightarrow> 'f CoordFilters \<Rightarrow> string list \<Rightarrow> 'f CoordValuesRef list \<Rightarrow>
     CoordSelection list option" where
  "calculate_coord_ranges fl decode fs names values =
     collect_options (map (\<lambda>(i, name). resolve_coord_selection fl decode (filters_get fs name) (values ! i))
       (enumerate 0 names))"

section \<open>The values a coordinate holds\<close>

fun ref_f64 :: "'f F64 \<Rightarrow> 'f CoordValuesRef \<Rightarrow> nat \<Rightarrow> 'f" where
  "ref_f64 fl (RefInt64 v) i = f_of_int fl (v ! i)"
| "ref_f64 fl (RefFloat32 v) i = v ! i"
| "ref_f64 fl (RefFloat64 v) i = v ! i"
| "ref_f64 fl (RefTimestampMicros v) i = f_of_int fl (v ! i)"
| "ref_f64 fl (RefCompact e ts) i = value_at_f64 fl e i"

text \<open>The coordinate is ordered in the direction its ends tell.\<close>

definition ordered_coord :: "'f::{linorder,zero} F64 \<Rightarrow> 'f CoordValuesRef \<Rightarrow> bool" where
  "ordered_coord fl values \<longleftrightarrow>
     (if is_descending values then sorted_wrt (\<ge>) (map (ref_f64 fl values) [0..<ref_len values])
      else sorted (map (ref_f64 fl values) [0..<ref_len values]))"

fun explicit :: "'f CoordValuesRef \<Rightarrow> bool" where
  "explicit (RefCompact e ts) \<longleftrightarrow> False"
| "explicit _ \<longleftrightarrow> True"

text \<open>
  What the two searches promise at a target: each position lies before the bound exactly when its
  value is on the bound's near side.
\<close>

definition splits_at :: "nat \<Rightarrow> nat \<Rightarrow> (nat \<Rightarrow> bool) \<Rightarrow> bool" where
  "splits_at n b P \<longleftrightarrow> b \<le> n \<and> (\<forall>i < n. i < b \<longleftrightarrow> P i)"

definition ascending_bounds :: "'f::linorder F64 \<Rightarrow> 'f CoordValuesRef \<Rightarrow> 'f \<Rightarrow> bool" where
  "ascending_bounds fl values t \<longleftrightarrow>
     splits_at (ref_len values) (lower_bound_at fl values t) (\<lambda>i. ref_f64 fl values i < t) \<and>
     splits_at (ref_len values) (upper_bound_at fl values t) (\<lambda>i. ref_f64 fl values i \<le> t)"

definition descending_bounds :: "'f::linorder F64 \<Rightarrow> 'f CoordValuesRef \<Rightarrow> 'f \<Rightarrow> bool" where
  "descending_bounds fl values t \<longleftrightarrow>
     splits_at (ref_len values) (descending_bound_at fl values t FirstLeq True) (\<lambda>i. ref_f64 fl values i > t) \<and>
     splits_at (ref_len values) (descending_bound_at fl values t FirstLeq False) (\<lambda>i. ref_f64 fl values i \<ge> t) \<and>
     splits_at (ref_len values) (descending_bound_at fl values t FirstLt True) (\<lambda>i. ref_f64 fl values i \<ge> t) \<and>
     splits_at (ref_len values) (descending_bound_at fl values t FirstLt False) (\<lambda>i. ref_f64 fl values i > t)"

definition bounds_exact :: "'f::{linorder,zero} F64 \<Rightarrow> 'f CoordValuesRef \<Rightarrow> 'f \<Rightarrow> bool" where
  "bounds_exact fl values t \<longleftrightarrow>
     (if is_descending values then descending_bounds fl values t else ascending_bounds fl values t)"

lemma splits_at_partition_point:
  "partitioned P xs \<Longrightarrow> splits_at (length xs) (partition_point P xs) (\<lambda>i. P (xs ! i))"
  by (simp add: splits_at_def partition_point_le less_partition_point)

lemma map_nth_upt: "map (\<lambda>i. g (xs ! i)) [0..<length xs] = map g xs"
  by (rule nth_equalityI) simp_all

lemma splits_ascending:
  assumes "sorted (map (\<lambda>i. g (xs ! i)) [0..<length xs])"
  shows "splits_at (length xs) (partition_point (\<lambda>x. g x < (t::'f::linorder)) xs) (\<lambda>i. g (xs ! i) < t)"
    "splits_at (length xs) (partition_point (\<lambda>x. g x \<le> t) xs) (\<lambda>i. g (xs ! i) \<le> t)"
proof -
  have "sorted_wrt (\<le>) (map g xs)" using assms by (simp add: map_nth_upt)
  then show "splits_at (length xs) (partition_point (\<lambda>x. g x < t) xs) (\<lambda>i. g (xs ! i) < t)"
    "splits_at (length xs) (partition_point (\<lambda>x. g x \<le> t) xs) (\<lambda>i. g (xs ! i) \<le> t)"
    by (auto intro!: splits_at_partition_point elim!: partitioned_sorted)
qed

lemma splits_descending:
  assumes "sorted_wrt (\<ge>) (map (\<lambda>i. g (xs ! i)) [0..<length xs])"
  shows "splits_at (length xs) (partition_point (\<lambda>x. x > (t::'f::linorder)) (map g xs)) (\<lambda>i. g (xs ! i) > t)"
    "splits_at (length xs) (partition_point (\<lambda>x. x \<ge> t) (map g xs)) (\<lambda>i. g (xs ! i) \<ge> t)"
proof -
  have s: "sorted_wrt (\<ge>) (map id (map g xs))" using assms by (simp add: map_nth_upt)
  have p: "partitioned (\<lambda>x. x > t) (map g xs)" "partitioned (\<lambda>x. x \<ge> t) (map g xs)"
    by (rule partitioned_sorted [OF s]; simp)+
  show "splits_at (length xs) (partition_point (\<lambda>x. x > t) (map g xs)) (\<lambda>i. g (xs ! i) > t)"
    using splits_at_partition_point [OF p(1)] by (simp add: splits_at_def)
  show "splits_at (length xs) (partition_point (\<lambda>x. x \<ge> t) (map g xs)) (\<lambda>i. g (xs ! i) \<ge> t)"
    using splits_at_partition_point [OF p(2)] by (simp add: splits_at_def)
qed

lemma ref_f64_explicit:
  "ref_f64 fl (RefInt64 v) = (\<lambda>i. f_of_int fl (v ! i))" "ref_f64 fl (RefFloat32 w) = (\<lambda>i. w ! i)"
  "ref_f64 fl (RefFloat64 w) = (\<lambda>i. w ! i)" "ref_f64 fl (RefTimestampMicros v) = (\<lambda>i. f_of_int fl (v ! i))"
  by (simp_all add: fun_eq_iff)

lemma explicit_bounds_exact:
  assumes "explicit values" "ordered_coord fl values"
  shows "bounds_exact fl values t"
proof (cases "is_descending values")
  case True
  then show ?thesis
    using assms
    by (cases "values") (simp_all add: bounds_exact_def descending_bounds_def ordered_coord_def ref_f64_explicit
        splits_descending [where g = "f_of_int fl"] splits_descending [where g = "\<lambda>x. x", simplified])
next
  case False
  then show ?thesis
    using assms
    by (cases "values") (simp_all add: bounds_exact_def ascending_bounds_def ordered_coord_def ref_f64_explicit
        splits_ascending [where g = "f_of_int fl"] splits_ascending [where g = "\<lambda>x. x", simplified])
qed

section \<open>Range filters\<close>

text \<open>What a range filter asks of a position: a bound that is not a number admits nothing.\<close>

definition admits_low :: "'f::linorder F64 \<Rightarrow> 'f ScalarValue option \<Rightarrow> bool \<Rightarrow> 'f \<Rightarrow> bool" where
  "admits_low fl low li x \<longleftrightarrow>
     (case low of None \<Rightarrow> True
      | Some l \<Rightarrow> (case scalar_to_f64 fl l of None \<Rightarrow> False | Some b \<Rightarrow> if li then b \<le> x else b < x))"

definition admits_high :: "'f::linorder F64 \<Rightarrow> 'f ScalarValue option \<Rightarrow> bool \<Rightarrow> 'f \<Rightarrow> bool" where
  "admits_high fl high hi x \<longleftrightarrow>
     (case high of None \<Rightarrow> True
      | Some h \<Rightarrow> (case scalar_to_f64 fl h of None \<Rightarrow> False | Some b \<Rightarrow> if hi then x \<le> b else x < b))"

definition bound_exact :: "'f::{linorder,zero} F64 \<Rightarrow> 'f CoordValuesRef \<Rightarrow> 'f ScalarValue option \<Rightarrow> bool" where
  "bound_exact fl values b \<longleftrightarrow>
     (\<forall>v t. b = Some v \<longrightarrow> scalar_to_f64 fl v = Some t \<longrightarrow> bounds_exact fl values t)"

lemma splits_at_complement: "splits_at n b P \<Longrightarrow> i < n \<Longrightarrow> b \<le> i \<longleftrightarrow> \<not> P i"
  by (auto simp: splits_at_def not_less)

lemma ascending_start_exact:
  assumes "\<not> is_descending values" "bound_exact fl values low"
  shows "case ascending_start fl values low li of
      None \<Rightarrow> \<forall>i < ref_len values. \<not> admits_low fl low li (ref_f64 fl values i)
    | Some s \<Rightarrow> \<forall>i < ref_len values. s \<le> i \<longleftrightarrow> admits_low fl low li (ref_f64 fl values i)"
proof (cases low)
  case None
  then show ?thesis by (simp add: ascending_start_def admits_low_def)
next
  case (Some v)
  show ?thesis
  proof (cases "scalar_to_f64 fl v")
    case None
    then show ?thesis using Some
      by (simp add: ascending_start_def admits_low_def binary_search_lower_bound_def)
  next
    case b: (Some b)
    have ab: "ascending_bounds fl values b"
      using assms Some b by (simp add: bound_exact_def bounds_exact_def)
    have lo: "lower_bound_at fl values b \<le> i \<longleftrightarrow> b \<le> ref_f64 fl values i"
      and up: "upper_bound_at fl values b \<le> i \<longleftrightarrow> b < ref_f64 fl values i" if "i < ref_len values" for i
      using ab that unfolding ascending_bounds_def by (auto simp: splits_at_complement not_less not_le)
    have "(if lower_bound_at fl values b < upper_bound_at fl values b then upper_bound_at fl values b
           else lower_bound_at fl values b) \<le> i \<longleftrightarrow> b < ref_f64 fl values i" if "i < ref_len values" for i
      using lo [OF that] up [OF that] by (auto simp: not_less)
    then show ?thesis using Some b lo
      by (auto simp: ascending_start_def admits_low_def binary_search_lower_bound_def binary_search_upper_bound_def)
  qed
qed

lemma ascending_end_exact:
  assumes "\<not> is_descending values" "bound_exact fl values high"
  shows "case ascending_end fl values high hi of
      None \<Rightarrow> \<forall>i < ref_len values. \<not> admits_high fl high hi (ref_f64 fl values i)
    | Some e \<Rightarrow> e \<le> ref_len values \<and>
        (\<forall>i < ref_len values. i < e \<longleftrightarrow> admits_high fl high hi (ref_f64 fl values i))"
proof (cases high)
  case None
  then show ?thesis by (simp add: ascending_end_def admits_high_def)
next
  case (Some v)
  show ?thesis
  proof (cases "scalar_to_f64 fl v")
    case None
    then show ?thesis using Some
      by (simp add: ascending_end_def admits_high_def binary_search_upper_bound_def)
  next
    case b: (Some b)
    have "ascending_bounds fl values b"
      using assms Some b by (simp add: bound_exact_def bounds_exact_def)
    then show ?thesis using Some b
      by (simp add: ascending_bounds_def splits_at_def ascending_end_def admits_high_def
          binary_search_lower_bound_def binary_search_upper_bound_def)
  qed
qed

lemma descending_start_exact:
  assumes "is_descending values" "bound_exact fl values high"
  shows "case (case high of Some h \<Rightarrow> find_first_leq_descending fl values h hi | None \<Rightarrow> Some 0) of
      None \<Rightarrow> \<forall>i < ref_len values. \<not> admits_high fl high hi (ref_f64 fl values i)
    | Some s \<Rightarrow> \<forall>i < ref_len values. s \<le> i \<longleftrightarrow> admits_high fl high hi (ref_f64 fl values i)"
proof (cases high)
  case None
  then show ?thesis by (simp add: admits_high_def)
next
  case (Some v)
  show ?thesis
  proof (cases "scalar_to_f64 fl v")
    case None
    then show ?thesis using Some by (simp add: admits_high_def find_first_leq_descending_def find_descending_bound_def)
  next
    case b: (Some b)
    have db: "descending_bounds fl values b"
      using assms Some b by (simp add: bound_exact_def bounds_exact_def)
    have "descending_bound_at fl values b FirstLeq True \<le> i \<longleftrightarrow> ref_f64 fl values i \<le> b"
      "descending_bound_at fl values b FirstLeq False \<le> i \<longleftrightarrow> ref_f64 fl values i < b" if "i < ref_len values" for i
      using db that unfolding descending_bounds_def by (auto simp: splits_at_complement not_less not_le)
    then show ?thesis using Some b
      by (cases hi) (simp_all add: admits_high_def find_first_leq_descending_def find_descending_bound_def)
  qed
qed

lemma descending_end_exact:
  assumes "is_descending values" "bound_exact fl values low"
  shows "case (case low of Some l \<Rightarrow> find_first_lt_descending fl values l li | None \<Rightarrow> Some (ref_len values)) of
      None \<Rightarrow> \<forall>i < ref_len values. \<not> admits_low fl low li (ref_f64 fl values i)
    | Some e \<Rightarrow> e \<le> ref_len values \<and>
        (\<forall>i < ref_len values. i < e \<longleftrightarrow> admits_low fl low li (ref_f64 fl values i))"
proof (cases low)
  case None
  then show ?thesis by (simp add: admits_low_def)
next
  case (Some v)
  show ?thesis
  proof (cases "scalar_to_f64 fl v")
    case None
    then show ?thesis using Some by (simp add: admits_low_def find_first_lt_descending_def find_descending_bound_def)
  next
    case b: (Some b)
    have "descending_bounds fl values b"
      using assms Some b by (simp add: bound_exact_def bounds_exact_def)
    then show ?thesis using Some b
      by (cases li) (simp_all add: descending_bounds_def splits_at_def admits_low_def
          find_first_lt_descending_def find_descending_bound_def)
  qed
qed

lemma ascending_range_exact:
  assumes "\<not> is_descending values" "bound_exact fl values low" "bound_exact fl values high"
  shows "case ascending_range fl values low high li hi of
      None \<Rightarrow> \<forall>i < ref_len values. \<not> (admits_low fl low li (ref_f64 fl values i) \<and> admits_high fl high hi (ref_f64 fl values i))
    | Some (s, e) \<Rightarrow> e \<le> ref_len values \<and>
        (\<forall>i < ref_len values. s \<le> i \<and> i < e \<longleftrightarrow>
           admits_low fl low li (ref_f64 fl values i) \<and> admits_high fl high hi (ref_f64 fl values i))"
  using ascending_start_exact [OF assms(1,2), of li] ascending_end_exact [OF assms(1,3), of hi]
  by (auto simp: ascending_range_def split: option.splits)

lemma descending_range_exact:
  assumes "is_descending values" "bound_exact fl values low" "bound_exact fl values high"
  shows "case descending_range fl values low high li hi of
      None \<Rightarrow> \<forall>i < ref_len values. \<not> (admits_low fl low li (ref_f64 fl values i) \<and> admits_high fl high hi (ref_f64 fl values i))
    | Some (s, e) \<Rightarrow> e \<le> ref_len values \<and>
        (\<forall>i < ref_len values. s \<le> i \<and> i < e \<longleftrightarrow>
           admits_low fl low li (ref_f64 fl values i) \<and> admits_high fl high hi (ref_f64 fl values i))"
  using descending_start_exact [OF assms(1,3), of hi] descending_end_exact [OF assms(1,2), of li]
  unfolding descending_range_def
  by (cases "case high of Some h \<Rightarrow> find_first_leq_descending fl values h hi | None \<Rightarrow> Some 0";
      cases "case low of Some l \<Rightarrow> find_first_lt_descending fl values l li | None \<Rightarrow> Some (ref_len values)"; auto)

lemma range_result:
  assumes "case r of None \<Rightarrow> \<forall>i < n::nat. \<not> Q i | Some (s, e) \<Rightarrow> e \<le> n \<and> (\<forall>i < n. s \<le> i \<and> i < e \<longleftrightarrow> Q i)"
  shows "case (case r of None \<Rightarrow> None | Some (s, e) \<Rightarrow> if s < e then Some (s, e) else None) of
      None \<Rightarrow> \<forall>i < n. \<not> Q i | Some (s, e) \<Rightarrow> s < e \<and> e \<le> n \<and> {s..<e} = {i. i < n \<and> Q i}"
proof (cases r)
  case (Some p)
  obtain s e where p: "p = (s, e)" by (cases p)
  have q: "s \<le> i \<and> i < e \<longleftrightarrow> Q i" if "i < n" for i using assms Some p that by auto
  have e: "e \<le> n" using assms Some p by simp
  have "x \<in> {s..<e} \<longleftrightarrow> x \<in> {i. i < n \<and> Q i}" for x using q [of x] e by auto
  then have "{s..<e} = {i. i < n \<and> Q i}" by blast
  moreover have "\<not> Q i" if "\<not> s < e" "i < n" for i using q [OF that(2)] that(1) by auto
  ultimately show ?thesis using Some p e by simp
qed (use assms in simp)

lemma find_filter_range_exact:
  assumes "bound_exact fl values low" "bound_exact fl values high"
  shows "case find_filter_range fl values (Range low high li hi) of
      None \<Rightarrow> \<forall>i < ref_len values. \<not> (admits_low fl low li (ref_f64 fl values i) \<and> admits_high fl high hi (ref_f64 fl values i))
    | Some (s, e) \<Rightarrow> s < e \<and> e \<le> ref_len values \<and>
        {s..<e} = {i. i < ref_len values \<and> admits_low fl low li (ref_f64 fl values i) \<and> admits_high fl high hi (ref_f64 fl values i)}"
proof (cases "ref_len values = 0")
  case False
  show ?thesis
  proof (cases "is_descending values")
    case True
    show ?thesis
      using range_result [OF descending_range_exact [OF True assms, of li hi]] True False by simp
  next
    case asc: False
    show ?thesis
      using range_result [OF ascending_range_exact [OF asc assms, of li hi]] asc False by simp
  qed
qed simp

section \<open>Compact coordinates in exact arithmetic\<close>

lemma clamp_index_less: "i < n \<Longrightarrow> i < clamp_index k n \<longleftrightarrow> int i < k"
  by (auto simp: clamp_index_def)

lemma clamp_index_le: "clamp_index k n \<le> n"
  by (simp add: clamp_index_def)

lemma clamp_as_i64: "n < index_bound \<Longrightarrow> i < n \<Longrightarrow> i < clamp_index (as_i64 k) n \<longleftrightarrow> int i < k"
  by (auto simp: clamp_index_less as_i64_def index_bound_def)

lemma clamp_as_i64_Suc:
  assumes "n < index_bound" "i < n" "k < 2 ^ 63 - 1"
  shows "i < clamp_index (i64 (as_i64 k + 1)) n \<longleftrightarrow> int i \<le> k"
proof -
  have "i64_range (as_i64 k + 1)" using assms(3) by (auto simp: as_i64_def i64_range_def)
  then have "i64 (as_i64 k + 1) = as_i64 k + 1" by (rule i64_id)
  then show ?thesis using assms by (auto simp: clamp_index_less as_i64_def index_bound_def)
qed

text \<open>The position \<open>(t - f) / s\<close> at which an arithmetic sequence meets the target.\<close>

lemma affine_less:
  fixes f s t :: rat
  shows "0 < s \<Longrightarrow> f + of_nat i * s < t \<longleftrightarrow> of_nat i < (t - f) / s"
    "0 < s \<Longrightarrow> f + of_nat i * s \<le> t \<longleftrightarrow> of_nat i \<le> (t - f) / s"
    "s < 0 \<Longrightarrow> f + of_nat i * s > t \<longleftrightarrow> of_nat i < (t - f) / s"
    "s < 0 \<Longrightarrow> f + of_nat i * s \<ge> t \<longleftrightarrow> of_nat i \<le> (t - f) / s"
  by (auto simp: field_simps)

lemma of_nat_less_ceiling: "int i < \<lceil>x::rat\<rceil> \<longleftrightarrow> of_nat i < x"
  using less_ceiling_iff [of "int i" x] by simp

lemma of_nat_le_floor: "int i \<le> \<lfloor>x::rat\<rfloor> \<longleftrightarrow> of_nat i \<le> x"
  using le_floor_iff [of "int i" x] by simp

text \<open>
  A target is resolved exactly when it is fewer than \<open>2^63 - 1\<close> steps away and no grid position follows the
  meeting position of a descending sequence within the rounding slack of the exclusive bound.
\<close>

definition near_target :: "nat \<Rightarrow> rat \<Rightarrow> rat \<Rightarrow> rat \<Rightarrow> bool" where
  "near_target n f s t \<longleftrightarrow>
     s = 0 \<or> (\<lfloor>(t - f) / s\<rfloor> < 2 ^ 63 - 1 \<and>
       (s < 0 \<longrightarrow> 2 \<le> n \<and> list_all (\<lambda>i. of_nat i \<le> (t - f) / s \<or> (t - f) / s + 1 / 2 ^ 52 \<le> of_nat i) [0..<n]))"

fun compact_ok :: "rat CompactCoord \<Rightarrow> rat \<Rightarrow> bool" where
  "compact_ok (ArithmeticInt f s n) t \<longleftrightarrow>
     n < index_bound \<and> list_all (\<lambda>i. i64_range (f + int i * s)) [0..<n] \<and> near_target n (of_int f) (of_int s) t"
| "compact_ok (Arithmetic f s n) t \<longleftrightarrow>
     n < index_bound \<and> (s = 0 \<or> 1 / 2 ^ 52 \<le> \<bar>s\<bar>) \<and> near_target n f s t"

lemma i64_affine: "i64_range (f + int i * s) \<Longrightarrow> i64 (f + i64 (int i * s)) = f + int i * s"
  by (metis i64_eqI i64_id i64_mod mod_add_right_eq)

lemma value_at_exact:
  "i64_range (f + int i * s) \<Longrightarrow> value_at_f64 exact_f64 (ArithmeticInt f s n) i = of_int f + of_nat i * of_int s"
  "value_at_f64 exact_f64 (Arithmetic g r n) i = g + of_nat i * r"
  by (simp_all add: i64_affine exact_f64_def)

lemma splits_at_cong: "splits_at n b P \<Longrightarrow> (\<And>i. i < n \<Longrightarrow> P i \<longleftrightarrow> Q i) \<Longrightarrow> splits_at n b Q"
  by (simp add: splits_at_def)

lemma affine_ascending:
  assumes "0 < s" "n < index_bound" "near_target n f s t"
  shows "splits_at n (clamp_index (as_i64 \<lceil>(t - f) / s\<rceil>) n) (\<lambda>i. f + of_nat i * s < t)"
    "splits_at n (clamp_index (i64 (as_i64 \<lfloor>(t - f) / s\<rfloor> + 1)) n) (\<lambda>i. f + of_nat i * s \<le> t)"
  using assms
  by (auto simp: splits_at_def near_target_def clamp_index_le clamp_as_i64 clamp_as_i64_Suc affine_less
      of_nat_less_ceiling of_nat_le_floor)

lemma affine_descending:
  assumes "s < 0" "n < index_bound" "near_target n f s t"
  shows "splits_at n (clamp_index (as_i64 \<lceil>(t - f) / s\<rceil>) n) (\<lambda>i. f + of_nat i * s > t)"
    "splits_at n (clamp_index (i64 (as_i64 \<lfloor>(t - f) / s\<rfloor> + 1)) n) (\<lambda>i. f + of_nat i * s \<ge> t)"
    "splits_at n (clamp_index (as_i64 \<lceil>(t - f) / s + 1 / 2 ^ 52\<rceil>) n) (\<lambda>i. f + of_nat i * s \<ge> t)"
proof -
  show "splits_at n (clamp_index (as_i64 \<lceil>(t - f) / s\<rceil>) n) (\<lambda>i. f + of_nat i * s > t)"
    "splits_at n (clamp_index (i64 (as_i64 \<lfloor>(t - f) / s\<rfloor> + 1)) n) (\<lambda>i. f + of_nat i * s \<ge> t)"
    using assms
    by (auto simp: splits_at_def near_target_def clamp_index_le clamp_as_i64 clamp_as_i64_Suc affine_less
        of_nat_less_ceiling of_nat_le_floor)
  have "of_nat i < (t - f) / s + 1 / 2 ^ 52 \<longleftrightarrow> of_nat i \<le> (t - f) / s" if "i < n" for i
    using assms(1,3) that by (fastforce simp: near_target_def list_all_iff)
  then show "splits_at n (clamp_index (as_i64 \<lceil>(t - f) / s + 1 / 2 ^ 52\<rceil>) n) (\<lambda>i. f + of_nat i * s \<ge> t)"
    using assms(1,2)
    by (simp add: splits_at_def clamp_index_le clamp_as_i64 affine_less of_nat_less_ceiling)
qed

lemma exact_f64_simps [simp]:
  "f_of_int exact_f64 = of_int" "f_add exact_f64 = (+)" "f_sub exact_f64 = (-)" "f_mul exact_f64 = (*)"
  "f_div exact_f64 = (/)" "f_neg exact_f64 = uminus" "f_abs exact_f64 = abs" "f_ceil exact_f64 = ceiling"
  "f_floor exact_f64 = floor" "f_eps exact_f64 = 1 / 2 ^ 52" "f_tol9 exact_f64 = 1 / 10 ^ 9"
  by (simp_all add: exact_f64_def)

lemma affine_descending_bounds:
  assumes "s < 0" "n < index_bound" "near_target n f s t"
  shows "splits_at n (clamp_index (descending_index exact_f64 ((f - t) / - s) bt inc) n)
    (\<lambda>i. if (bt = FirstLeq) = inc then f + of_nat i * s > t else f + of_nat i * s \<ge> t)"
proof -
  have "(f - t) / - s = (t - f) / s" by (simp add: minus_divide_left)
  then show ?thesis using affine_descending [OF assms] by (cases bt; cases inc) simp_all
qed

lemma compact_ascending_bounds:
  assumes "compact_ok e t" "\<not> is_descending (RefCompact e ts)"
  shows "ascending_bounds exact_f64 (RefCompact e ts) t"
proof (cases e)
  case (Arithmetic f s n)
  have "0 \<le> s" using assms Arithmetic by (auto simp: near_target_def is_descending_def)
  moreover have "\<bar>s\<bar> < 1 / 2 ^ 52 \<longleftrightarrow> s = 0" using assms(1) Arithmetic by auto
  ultimately show ?thesis
    using assms(1) Arithmetic affine_ascending [of s n f t]
    by (cases "s = 0") (auto simp: ascending_bounds_def splits_at_def)
next
  case (ArithmeticInt f s n)
  have s: "0 \<le> s" using assms ArithmeticInt by (auto simp: near_target_def is_descending_def)
  have v: "value_at_f64 exact_f64 e i = of_int f + of_nat i * of_int s" if "i < n" for i
    using assms(1) ArithmeticInt that value_at_exact(1) [of f i s n] by (simp add: list_all_iff)
  show ?thesis
  proof (cases "s = 0")
    case True
    then show ?thesis
      using ArithmeticInt v by (auto simp: ascending_bounds_def splits_at_def simp del: value_at_f64.simps)
  next
    case False
    then have "0 < (of_int s :: rat)" using s by simp
    then show ?thesis
      using ArithmeticInt v False assms(1) affine_ascending [of "of_int s" n "of_int f" t]
      by (auto simp: ascending_bounds_def simp del: value_at_f64.simps elim!: splits_at_cong)
  qed
qed

lemma compact_descending_bounds:
  assumes "compact_ok e t" "is_descending (RefCompact e ts)"
  shows "descending_bounds exact_f64 (RefCompact e ts) t"
proof (cases e)
  case (Arithmetic f s n)
  have s: "s < 0" using assms(2) Arithmetic by (auto simp: is_descending_def split: if_splits)
  have "\<not> \<bar>s\<bar> < 1 / 2 ^ 52" using assms(1) Arithmetic s by auto
  then show ?thesis
    using assms(1) Arithmetic affine_descending_bounds [OF s, of n f t FirstLeq True]
      affine_descending_bounds [OF s, of n f t FirstLeq False] affine_descending_bounds [OF s, of n f t FirstLt True]
      affine_descending_bounds [OF s, of n f t FirstLt False]
    by (simp add: descending_bounds_def del: descending_index.simps)
next
  case (ArithmeticInt f s n)
  have s: "s < 0" using assms(2) ArithmeticInt by (auto simp: is_descending_def split: if_splits)
  then have s': "(of_int s :: rat) < 0" by simp
  have v: "value_at_f64 exact_f64 e i = of_int f + of_nat i * of_int s" if "i < n" for i
    using assms(1) ArithmeticInt that value_at_exact(1) [of f i s n] by (simp add: list_all_iff)
  have near: "n < index_bound" "near_target n (of_int f) (of_int s) t" using assms(1) ArithmeticInt by simp_all
  note b = affine_descending_bounds [OF s' near]
  show ?thesis
    using ArithmeticInt v s b [of FirstLeq True] b [of FirstLeq False] b [of FirstLt True] b [of FirstLt False]
    by (auto simp: descending_bounds_def simp del: value_at_f64.simps descending_index.simps elim!: splits_at_cong)
qed

lemma compact_bounds_exact: "compact_ok e t \<Longrightarrow> bounds_exact exact_f64 (RefCompact e ts) t"
  by (simp add: bounds_exact_def compact_ascending_bounds compact_descending_bounds)

section \<open>Value lookup\<close>

text \<open>The test a position must pass to be found.\<close>

fun compact_matches :: "'f::linorder F64 \<Rightarrow> 'f CompactCoord \<Rightarrow> 'f \<Rightarrow> nat \<Rightarrow> bool" where
  "compact_matches fl (ArithmeticInt f s n) t i \<longleftrightarrow>
     (if s = 0 then close64 fl (f_of_int fl f) t else value_at_i64 fl (ArithmeticInt f s n) i = as_i64 (f_round fl t))"
| "compact_matches fl (Arithmetic f s n) t i \<longleftrightarrow>
     (if f_abs fl s < f_eps fl then close64 fl f t
      else f_abs fl (f_sub fl (value_at_f64 fl (Arithmetic f s n) i) t) < f_tol9 fl)"

fun value_matches :: "'f::linorder F64 \<Rightarrow> 'f CoordValuesRef \<Rightarrow> 'f ScalarValue \<Rightarrow> nat \<Rightarrow> bool" where
  "value_matches fl (RefInt64 vals) (SInt64 (Some v)) i \<longleftrightarrow> vals ! i = v"
| "value_matches fl (RefInt64 vals) (SInt32 (Some v)) i \<longleftrightarrow> vals ! i = v"
| "value_matches fl (RefFloat32 vals) (SFloat32 (Some v)) i \<longleftrightarrow> close32 fl v (vals ! i)"
| "value_matches fl (RefFloat32 vals) (SFloat64 (Some v)) i \<longleftrightarrow> close32 fl (f_to_f32 fl v) (vals ! i)"
| "value_matches fl (RefFloat64 vals) (SFloat64 (Some v)) i \<longleftrightarrow> close64 fl v (vals ! i)"
| "value_matches fl (RefFloat64 vals) (SFloat32 (Some v)) i \<longleftrightarrow> close64 fl v (vals ! i)"
| "value_matches fl (RefFloat32 vals) (SInt64 (Some v)) i \<longleftrightarrow> close32 fl (f_of_int32 fl v) (vals ! i)"
| "value_matches fl (RefFloat64 vals) (SInt64 (Some v)) i \<longleftrightarrow> close64 fl (f_of_int fl v) (vals ! i)"
| "value_matches fl (RefTimestampMicros vals) (STimestampMicrosecond (Some v) tz) i \<longleftrightarrow> vals ! i = v"
| "value_matches fl (RefTimestampMicros vals) (STimestampNanosecond (Some v) tz) i \<longleftrightarrow> vals ! i = v sdiv 1000"
| "value_matches fl (RefTimestampMicros vals) (SInt64 (Some v)) i \<longleftrightarrow> vals ! i = v"
| "value_matches fl (RefCompact enc ts) target i \<longleftrightarrow>
     (case compact_target fl ts target of None \<Rightarrow> False | Some t \<Rightarrow> compact_matches fl enc t i)"
| "value_matches fl _ _ i \<longleftrightarrow> False"

definition unique_match :: "nat \<Rightarrow> (nat \<Rightarrow> bool) \<Rightarrow> bool" where
  "unique_match n P \<longleftrightarrow> (\<forall>i < n. \<forall>j < n. P i \<longrightarrow> P j \<longrightarrow> i = j)"

text \<open>What a lookup promises.\<close>

definition finds :: "nat \<Rightarrow> nat option \<Rightarrow> (nat \<Rightarrow> bool) \<Rightarrow> bool" where
  "finds n r P \<longleftrightarrow> (case r of None \<Rightarrow> \<forall>i < n. \<not> P i | Some k \<Rightarrow> k < n \<and> P k)"

lemma finds_position: "finds (length xs) (position P xs) (\<lambda>i. P (xs ! i))"
  by (auto simp: finds_def position_None dest: position_Some split: option.splits)

lemma finds_positionI: "(\<And>i. i < length xs \<Longrightarrow> Q i \<longleftrightarrow> P (xs ! i)) \<Longrightarrow> finds (length xs) (position P xs) Q"
  using finds_position [of xs P] by (auto simp: finds_def split: option.splits)

lemma finds_none: "(\<And>i. i < n \<Longrightarrow> \<not> Q i) \<Longrightarrow> finds n None Q"
  by (simp add: finds_def)

lemma find_value_index_explicit:
  assumes "explicit values"
  shows "finds (ref_len values) (find_value_index fl values v) (value_matches fl values v)"
  using assms
  by (induction fl "values" v rule: find_value_index.induct) (auto intro!: finds_positionI finds_none)

text \<open>The compact lookup needs steps larger than the tolerance and differences that fit 64 bits.\<close>

fun compact_lookup_ok :: "rat CompactCoord \<Rightarrow> bool" where
  "compact_lookup_ok (ArithmeticInt f s n) \<longleftrightarrow>
     0 < n \<and> n < index_bound \<and> list_all (\<lambda>i. i64_range (f + int i * s) \<and> i64_range (int i * s)) [0..<n]"
| "compact_lookup_ok (Arithmetic f s n) \<longleftrightarrow> 0 < n \<and> n < index_bound \<and> (s = 0 \<or> 2 / 10 ^ 9 \<le> \<bar>s\<bar>)"

lemma as_i64_range: "i64_range (as_i64 k)"
  by (simp add: as_i64_def i64_range_def)

lemma find_compact_int:
  assumes ok: "compact_lookup_ok (ArithmeticInt f s n)" and "s \<noteq> 0"
  shows "finds n (find_compact_at exact_f64 (ArithmeticInt f s n) t) (compact_matches exact_f64 (ArithmeticInt f s n) t)"
proof -
  define T where "T = as_i64 (f_round exact_f64 t)"
  define diff where "diff = i64 (T - f)"
  have m: "compact_matches exact_f64 (ArithmeticInt f s n) t i \<longleftrightarrow> f + int i * s = T" if "i < n" for i
    using ok that assms(2) by (simp add: T_def i64_affine list_all_iff)
  have found: "f + int k * s = T" if k: "k < n" "diff smod s = 0" "k = nat (diff sdiv s mod 2 ^ 64)" for k
  proof -
    have "diff sdiv s * s = diff" using sdiv_mult_smod_eq [of diff s] k(2) by simp
    moreover have "(diff sdiv s) mod 2 ^ 64 = int k" using k(3) by simp
    ultimately have "(int k * s) mod 2 ^ 64 = diff mod 2 ^ 64" by (metis mod_mult_left_eq)
    also have "\<dots> = (T - f) mod 2 ^ 64" unfolding diff_def by (rule i64_mod)
    finally have "(f + int k * s) mod 2 ^ 64 = (f + (T - f)) mod 2 ^ 64" by (rule mod_add_cong [OF refl])
    then have "(f + int k * s) mod 2 ^ 64 = T mod 2 ^ 64" by (simp only: add_diff_eq add_diff_cancel_left')
    then have "i64 (f + int k * s) = i64 T" by (rule i64_eqI)
    then show ?thesis using ok k(1) as_i64_range by (simp add: i64_id list_all_iff T_def)
  qed
  have hit: "diff smod s = 0 \<and> nat (diff sdiv s mod 2 ^ 64) = i" if i: "i < n" "f + int i * s = T" for i
  proof -
    have "i64_range (int i * s)" using ok i(1) by (simp add: list_all_iff)
    then have d: "diff = int i * s" using i(2) by (simp add: diff_def i64_id flip: i(2))
    have "diff sdiv s = int i" using assms(2) by (simp add: d signed_divide_int_def sgn_mult abs_mult)
    moreover have "diff smod s = 0" using sdiv_mult_smod_eq [of diff s] calculation d by simp
    moreover have "int i mod 2 ^ 64 = int i" using ok i(1) by (simp add: index_bound_def)
    ultimately show ?thesis by simp
  qed
  define k where "k = nat (diff sdiv s mod 2 ^ 64)"
  have r: "find_compact_at exact_f64 (ArithmeticInt f s n) t =
      (if diff smod s \<noteq> 0 then None else if k < n then Some k else None)"
    using assms(2) by (simp add: Let_def k_def diff_def T_def)
  have "\<not> compact_matches exact_f64 (ArithmeticInt f s n) t i" if "diff smod s \<noteq> 0 \<or> \<not> k < n" "i < n" for i
    using m [OF that(2)] hit [OF that(2)] that unfolding k_def by blast
  moreover have "compact_matches exact_f64 (ArithmeticInt f s n) t k" if "diff smod s = 0" "k < n"
    using m [OF that(2)] found [OF that(2,1) k_def] by blast
  ultimately show ?thesis unfolding finds_def r by (simp del: compact_matches.simps)
qed

lemma round_recovers:
  fixes x :: rat
  assumes "\<bar>of_nat i - x\<bar> < 1 / 2"
  shows "f_round exact_f64 x = int i"
proof (cases "0 \<le> x")
  case True
  have "\<lfloor>x + 1 / 2\<rfloor> = int i" using assms by (intro floor_unique) (auto simp: abs_if split: if_splits)
  then show ?thesis using True by (simp add: exact_f64_def)
next
  case False
  then have "(of_nat i :: rat) < 1" using assms by (auto simp: abs_if split: if_splits)
  then have "i = 0" by simp
  moreover have "\<lceil>x - 1 / 2\<rceil> = 0" using assms False \<open>i = 0\<close> by (intro ceiling_unique) (auto simp: abs_if split: if_splits)
  ultimately show ?thesis using False by (simp add: exact_f64_def)
qed

lemma find_compact_float:
  assumes ok: "compact_lookup_ok (Arithmetic f s n)" and "s \<noteq> 0"
  shows "finds n (find_compact_at exact_f64 (Arithmetic f s n) t) (compact_matches exact_f64 (Arithmetic f s n) t)"
proof -
  have s: "2 / 10 ^ 9 \<le> \<bar>s\<bar>" using ok assms(2) by simp
  then have big: "\<not> \<bar>s\<bar> < 1 / 2 ^ 52" by simp
  have hit: "as_usize (f_round exact_f64 ((t - f) / s)) = i"
    if i: "i < n" "\<bar>f + of_nat i * s - t\<bar> < 1 / 10 ^ 9" for i
  proof -
    have "of_nat i - (t - f) / s = (f + of_nat i * s - t) / s" using assms(2) by (simp add: field_simps)
    then have "\<bar>of_nat i - (t - f) / s\<bar> = \<bar>f + of_nat i * s - t\<bar> / \<bar>s\<bar>" by simp
    also have "\<dots> < (1 / 10 ^ 9) / \<bar>s\<bar>" by (rule divide_strict_right_mono [OF i(2)]) (use assms(2) in simp)
    also have "\<dots> \<le> 1 / 2" using s by (simp add: field_simps)
    finally have "f_round exact_f64 ((t - f) / s) = int i" by (rule round_recovers)
    then show ?thesis using ok i(1) by (simp add: as_usize_def index_bound_def)
  qed
  define k where "k = as_usize (f_round exact_f64 ((t - f) / s))"
  define M where "M i \<longleftrightarrow> \<bar>f + of_nat i * s - t\<bar> < 1 / 10 ^ 9" for i
  have m: "compact_matches exact_f64 (Arithmetic f s n) t = M" using big by (simp add: fun_eq_iff M_def)
  have r: "find_compact_at exact_f64 (Arithmetic f s n) t = (if k < n \<and> M k then Some k else None)"
    using big by (simp add: k_def Let_def M_def)
  have "k = i" if "i < n" "M i" for i using hit that by (simp add: k_def M_def)
  then show ?thesis unfolding m r by (auto simp: finds_def)
qed

lemma find_compact_index_exact:
  assumes "compact_lookup_ok e"
  shows "finds (compact_len e) (find_value_index exact_f64 (RefCompact e ts) v)
    (value_matches exact_f64 (RefCompact e ts) v)"
proof (cases "compact_target exact_f64 ts v")
  case None
  then show ?thesis by (simp add: finds_def find_compact_index_def)
next
  case (Some t)
  have "finds (compact_len e) (find_compact_at exact_f64 e t) (compact_matches exact_f64 e t)"
  proof (cases e)
    case (Arithmetic f s n)
    then show ?thesis using assms find_compact_float [of f s n t] by (cases "s = 0") (auto simp: finds_def)
  next
    case (ArithmeticInt f s n)
    then show ?thesis using assms find_compact_int [of f s n t] by (cases "s = 0") (auto simp: finds_def)
  qed
  then show ?thesis using Some by (simp add: find_compact_index_def finds_def split: option.splits)
qed

section \<open>Filters of one kind and their composition\<close>

text \<open>A resolver finds exactly the matching positions, and nothing when there is none.\<close>

definition selects :: "nat \<Rightarrow> CoordSelection option \<Rightarrow> (nat \<Rightarrow> bool) \<Rightarrow> bool" where
  "selects n r P \<longleftrightarrow>
     (case r of
        None \<Rightarrow> \<forall>i < n. \<not> P i
      | Some s \<Rightarrow> sel_wf s \<and> positions s \<noteq> [] \<and> set (positions s) = {i. i < n \<and> P i})"

locale position_resolver =
  fixes n :: nat
    and resolve :: "'k \<Rightarrow> CoordSelection option"
    and matches :: "'k \<Rightarrow> nat \<Rightarrow> bool"
    and ok :: "'k \<Rightarrow> bool"
  assumes resolve_exact: "ok k \<Longrightarrow> selects n (resolve k) (matches k)"
begin

lemma compose_step:
  assumes "selects n (Some a) P" "selects n (Some s) Q"
  shows "if sel_is_empty (sel_intersect a s) then \<forall>i < n. \<not> (P i \<and> Q i)
    else selects n (Some (sel_intersect a s)) (\<lambda>i. P i \<and> Q i)"
proof -
  have wf: "sel_wf a" "sel_wf s" using assms by (simp_all add: selects_def)
  note c = sel_intersect_correct [OF wf]
  have eq: "set (positions (sel_intersect a s)) = {i. i < n \<and> P i \<and> Q i}"
    using assms c(2) by (auto simp: selects_def)
  show ?thesis
  proof (cases "positions (sel_intersect a s) = []")
    case True
    then have "{i. i < n \<and> P i \<and> Q i} = {}" using eq by simp
    then show ?thesis using True c(1) by (simp add: sel_is_empty_iff)
  next
    case False
    then show ?thesis using eq c(1) by (simp add: sel_is_empty_iff selects_def)
  qed
qed

lemma compose_acc:
  assumes "\<And>k. k \<in> set ks \<Longrightarrow> ok k" "selects n (Some a) P"
  shows "selects n (intersect_filters resolve (Some a) ks) (\<lambda>i. P i \<and> (\<forall>k \<in> set ks. matches k i))"
  using assms
proof (induction ks arbitrary: a P)
  case (Cons k ks)
  have r: "selects n (resolve k) (matches k)" using Cons.prems(1) by (intro resolve_exact) simp
  show ?case
  proof (cases "resolve k")
    case None
    then show ?thesis using r by (auto simp: selects_def)
  next
    case (Some s)
    note step = compose_step [OF Cons.prems(2) r [unfolded Some]]
    show ?thesis
    proof (cases "sel_is_empty (sel_intersect a s)")
      case True
      then show ?thesis using step Some by (auto simp: selects_def)
    next
      case False
      then have "selects n (intersect_filters resolve (Some (sel_intersect a s)) ks)
          (\<lambda>i. (P i \<and> matches k i) \<and> (\<forall>k \<in> set ks. matches k i))"
        using Cons.IH [of "sel_intersect a s" "\<lambda>i. P i \<and> matches k i"] Cons.prems(1) step by simp
      then show ?thesis using Some False by (simp add: conj_assoc)
    qed
  qed
qed simp

lemma compose_exact:
  assumes "\<And>k. k \<in> set ks \<Longrightarrow> ok k" "ks \<noteq> []"
  shows "selects n (intersect_filters resolve None ks) (\<lambda>i. \<forall>k \<in> set ks. matches k i)"
proof (cases ks)
  case (Cons k ks')
  have r: "selects n (resolve k) (matches k)" using Cons assms(1) by (intro resolve_exact) simp
  show ?thesis
  proof (cases "resolve k")
    case None
    then show ?thesis using r Cons by (auto simp: selects_def)
  next
    case (Some s)
    then have "\<not> sel_is_empty s" using r by (simp add: selects_def sel_is_empty_iff)
    moreover have "selects n (intersect_filters resolve (Some s) ks') (\<lambda>i. matches k i \<and> (\<forall>k \<in> set ks'. matches k i))"
      using assms(1) Cons r Some by (intro compose_acc) simp_all
    ultimately show ?thesis using Some Cons by simp
  qed
qed (use assms in simp)

end

fun part_matches :: "(int \<Rightarrow> DateTime option) \<Rightarrow> 'f CoordValuesRef \<Rightarrow> string \<Rightarrow> int \<Rightarrow> nat \<Rightarrow> bool" where
  "part_matches decode (RefTimestampMicros m) f v i \<longleftrightarrow> date_part_matches decode f v (m ! i)"
| "part_matches decode _ f v i \<longleftrightarrow> False"

fun kind_matches :: "'f::linorder F64 \<Rightarrow> (int \<Rightarrow> DateTime option) \<Rightarrow> 'f CoordValuesRef \<Rightarrow> 'f CoordFilterKind \<Rightarrow> nat \<Rightarrow> bool" where
  "kind_matches fl decode values (Eq v) i \<longleftrightarrow> value_matches fl values v i"
| "kind_matches fl decode values (Range low high li hi) i \<longleftrightarrow>
     admits_low fl low li (ref_f64 fl values i) \<and> admits_high fl high hi (ref_f64 fl values i)"
| "kind_matches fl decode values (DatePart f v) i \<longleftrightarrow> part_matches decode values f v i"
| "kind_matches fl decode values (InList vs) i \<longleftrightarrow> list_ex (\<lambda>v. value_matches fl values v i) vs"
| "kind_matches fl decode values (DatePartSet f vs) i \<longleftrightarrow> list_ex (\<lambda>v. part_matches decode values f v i) vs"

definition lookup_exact :: "'f::{linorder,zero} F64 \<Rightarrow> 'f CoordValuesRef \<Rightarrow> 'f ScalarValue \<Rightarrow> bool" where
  "lookup_exact fl values v \<longleftrightarrow>
     finds (ref_len values) (find_value_index fl values v) (value_matches fl values v) \<and>
     unique_match (ref_len values) (value_matches fl values v)"

fun kind_ok :: "'f::{linorder,zero} F64 \<Rightarrow> 'f CoordValuesRef \<Rightarrow> 'f CoordFilterKind \<Rightarrow> bool" where
  "kind_ok fl values (Eq v) \<longleftrightarrow> ref_len values < index_bound \<and> lookup_exact fl values v"
| "kind_ok fl values (Range low high li hi) \<longleftrightarrow>
     ref_len values < index_bound \<and> bound_exact fl values low \<and> bound_exact fl values high"
| "kind_ok fl values (InList vs) \<longleftrightarrow> ref_len values < index_bound \<and> list_all (lookup_exact fl values) vs"
| "kind_ok fl values _ \<longleftrightarrow> ref_len values < index_bound"

lemma lookup_exactD:
  assumes "lookup_exact fl values v"
  shows "{i. i < ref_len values \<and> value_matches fl values v i} = set_option (find_value_index fl values v)"
  using assms
  by (auto simp: lookup_exact_def finds_def unique_match_def split: option.splits)

lemma date_part_indices:
  "set (find_date_part_indices decode values f v) = {i. i < ref_len values \<and> part_matches decode values f v i}"
  "sorted (find_date_part_indices decode values f v) \<and> distinct (find_date_part_indices decode values f v)"
proof -
  show "set (find_date_part_indices decode values f v) = {i. i < ref_len values \<and> part_matches decode values f v i}"
    by (cases "values") (force simp: in_set_enumerate_eq)+
  have "sorted (map fst (filter Q (enumerate 0 m))) \<and> distinct (map fst (filter Q (enumerate 0 m)))" for Q and m :: "int list"
  proof -
    have "sorted (map fst (enumerate 0 m))" "distinct (map fst (enumerate 0 m))" by (simp_all add: map_fst_enumerate)
    then show ?thesis by (simp add: sorted_filter distinct_map_filter)
  qed
  then show "sorted (find_date_part_indices decode values f v) \<and> distinct (find_date_part_indices decode values f v)"
    by (cases "values") simp_all
qed

lemma selects_indices:
  assumes "set ixs = {i. i < n \<and> P i}" "sorted ixs" "distinct ixs" "n < index_bound"
  shows "selects n (non_empty_indices ixs) P"
proof (cases "ixs = []")
  case True
  then have "{i. i < n \<and> P i} = {}" using assms(1) by simp
  then show ?thesis using True by (simp add: non_empty_indices_def selects_def)
next
  case False
  have "x < index_bound" if "x \<in> set ixs" for x using that assms(1,4) by simp
  then show ?thesis using False assms(1-3) by (simp add: non_empty_indices_def selects_def)
qed

lemma resolve_single_filter_exact:
  assumes "kind_ok fl values k"
  shows "selects (ref_len values) (resolve_single_filter fl decode k values) (kind_matches fl decode values k)"
proof (cases k)
  case (Eq v)
  have l: "{i. i < ref_len values \<and> value_matches fl values v i} = set_option (find_value_index fl values v)"
    using assms Eq by (intro lookup_exactD) simp
  show ?thesis
  proof (cases "find_value_index fl values v")
    case None
    then show ?thesis using l Eq by (auto simp: selects_def)
  next
    case (Some j)
    then have "{i. i < ref_len values \<and> value_matches fl values v i} = {j}" using l by simp
    moreover from this have "j < ref_len values" by blast
    ultimately show ?thesis using Eq Some assms by (simp add: selects_def)
  qed
next
  case (Range low high li hi)
  show ?thesis
  proof (cases "find_filter_range fl values (Range low high li hi)")
    case None
    then show ?thesis
      using find_filter_range_exact [of fl "values" low high li hi] assms Range by (simp add: selects_def)
  next
    case (Some p)
    then show ?thesis
      using find_filter_range_exact [of fl "values" low high li hi] assms Range
      by (cases p) (simp add: selects_def)
  qed
next
  case (DatePart f v)
  show ?thesis using DatePart assms date_part_indices [of decode "values" f v]
    by (simp add: selects_indices)
next
  case (InList vs)
  have "set (List.map_filter (find_value_index fl values) vs) =
      {i. i < ref_len values \<and> list_ex (\<lambda>v. value_matches fl values v i) vs}"
  proof -
    have "(\<Union>v \<in> set vs. set_option (find_value_index fl values v)) =
        (\<Union>v \<in> set vs. {i. i < ref_len values \<and> value_matches fl values v i})"
      using assms InList by (intro SUP_cong [OF refl] lookup_exactD [symmetric]) (simp add: list_all_iff)
    then show ?thesis by (auto simp: set_map_filter list_ex_iff)
  qed
  then show ?thesis using InList assms by (simp add: selects_indices)
next
  case (DatePartSet f vs)
  have "set (concat (map (find_date_part_indices decode values f) vs)) =
      {i. i < ref_len values \<and> list_ex (\<lambda>v. part_matches decode values f v i) vs}"
    by (auto simp: date_part_indices(1) list_ex_iff)
  then show ?thesis using DatePartSet assms by (simp add: selects_indices)
qed

interpretation coord_filter: position_resolver "ref_len values" "\<lambda>k. resolve_single_filter fl decode k values"
  "kind_matches fl decode values" "kind_ok fl values" for fl decode "values"
  by unfold_locales (rule resolve_single_filter_exact)

section \<open>Resolution of all coordinates\<close>

lemma resolve_coord_selection_exact:
  assumes "ref_len values < index_bound" "0 < ref_len values"
    "\<And>ks k. kinds = Some ks \<Longrightarrow> k \<in> set ks \<Longrightarrow> kind_ok fl values k"
  shows "selects (ref_len values) (resolve_coord_selection fl decode kinds values)
    (\<lambda>i. \<forall>ks. kinds = Some ks \<longrightarrow> (\<forall>k \<in> set ks. kind_matches fl decode values k i))"
proof (cases "kinds = None \<or> kinds = Some []")
  case True
  then have "resolve_coord_selection fl decode kinds values = Some (SelRange 0 (ref_len values))"
    by (auto simp: resolve_coord_selection_def)
  then show ?thesis using True assms(1,2) by (auto simp: selects_def)
next
  case False
  then obtain ks where ks: "kinds = Some ks" "ks \<noteq> []" by (cases kinds) auto
  then have "resolve_coord_selection fl decode kinds values =
      intersect_filters (\<lambda>k. resolve_single_filter fl decode k values) None ks"
    by (cases ks) (simp_all add: resolve_coord_selection_def del: intersect_filters.simps)
  then show ?thesis
    using coord_filter.compose_exact [of ks fl "values" decode] assms(3) ks by simp
qed

lemma map_enumerate: "map (\<lambda>(i, x). f i x) (enumerate 0 xs) = map (\<lambda>i. f i (xs ! i)) [0..<length xs]"
  by (rule nth_equalityI) (simp_all add: nth_enumerate_eq)

definition coord_matches ::
    "'f::linorder F64 \<Rightarrow> (int \<Rightarrow> DateTime option) \<Rightarrow> 'f CoordFilters \<Rightarrow> string \<Rightarrow> 'f CoordValuesRef \<Rightarrow> nat \<Rightarrow> bool" where
  "coord_matches fl decode fs name values i \<longleftrightarrow>
     (case filters_get fs name of None \<Rightarrow> True | Some ks \<Rightarrow> list_all (\<lambda>k. kind_matches fl decode values k i) ks)"

definition coord_ok :: "'f::{linorder,zero} F64 \<Rightarrow> 'f CoordFilters \<Rightarrow> string \<Rightarrow> 'f CoordValuesRef \<Rightarrow> bool" where
  "coord_ok fl fs name values \<longleftrightarrow>
     0 < ref_len values \<and> ref_len values < index_bound \<and>
     (case filters_get fs name of None \<Rightarrow> True | Some ks \<Rightarrow> list_all (kind_ok fl values) ks)"

lemma resolve_named_exact:
  assumes "coord_ok fl fs name values"
  shows "selects (ref_len values) (resolve_coord_selection fl decode (filters_get fs name) values)
    (coord_matches fl decode fs name values)"
proof -
  have "coord_matches fl decode fs name values =
      (\<lambda>i. \<forall>ks. filters_get fs name = Some ks \<longrightarrow> (\<forall>k \<in> set ks. kind_matches fl decode values k i))"
    by (auto simp: coord_matches_def list_all_iff fun_eq_iff split: option.splits)
  then show ?thesis
    using resolve_coord_selection_exact [of "values" "filters_get fs name" fl decode] assms
    by (cases "filters_get fs name") (simp_all add: coord_ok_def list_all_iff)
qed

lemma coord_ranges_cells:
  assumes "length vals = length names" "\<And>j. j < length names \<Longrightarrow> coord_ok fl fs (names ! j) (vals ! j)"
  shows "case calculate_coord_ranges fl decode fs names vals of
      None \<Rightarrow> \<exists>j < length names. \<forall>i < ref_len (vals ! j). \<not> coord_matches fl decode fs (names ! j) (vals ! j) i
    | Some sels \<Rightarrow> list_all sel_wf sels \<and>
        cells sels = {idx. length idx = length names \<and>
          (\<forall>j < length names. idx ! j < ref_len (vals ! j) \<and> coord_matches fl decode fs (names ! j) (vals ! j) (idx ! j))}"
proof -
  define r where "r j = resolve_coord_selection fl decode (filters_get fs (names ! j)) (vals ! j)" for j
  have c: "calculate_coord_ranges fl decode fs names vals = collect_options (map r [0..<length names])"
    by (simp add: calculate_coord_ranges_def r_def [abs_def] map_enumerate)
  have sel: "selects (ref_len (vals ! j)) (r j) (coord_matches fl decode fs (names ! j) (vals ! j))"
    if "j < length names" for j
    using resolve_named_exact [OF assms(2) [OF that]] by (simp add: r_def)
  show ?thesis
  proof (cases "\<exists>j < length names. r j = None")
    case True
    then obtain j where j: "j < length names" "r j = None" by blast
    then have "calculate_coord_ranges fl decode fs names vals = None"
      unfolding c collect_options_iff by (auto simp: image_iff intro!: bexI [of _ j])
    then show ?thesis using sel [OF j(1)] j by (auto simp: selects_def)
  next
    case False
    then have "None \<notin> set (map r [0..<length names])" by (auto simp: image_iff)
    then have r: "calculate_coord_ranges fl decode fs names vals = Some (map (\<lambda>j. the (r j)) [0..<length names])"
      unfolding c collect_options_iff by (simp add: comp_def)
    have p: "sel_wf (the (r j)) \<and> set (positions (the (r j))) =
        {i. i < ref_len (vals ! j) \<and> coord_matches fl decode fs (names ! j) (vals ! j) i}" if "j < length names" for j
      using sel [OF that] False that by (auto simp: selects_def split: option.splits)
    show ?thesis unfolding r using p by (auto simp: list_all_iff listset_iff)
  qed
qed

section \<open>Conditions on a coordinate\<close>

text \<open>
  What the coordinate must be like for its filters to resolve exactly, said of its values alone: ordered in one
  direction for a range, values apart for an equality or a list.  For floating point values, apart means that no
  number is within the tolerance of two of them.
\<close>

fun monotone_coord :: "'f::linorder CoordValuesRef \<Rightarrow> bool" where
  "monotone_coord (RefInt64 v) \<longleftrightarrow> sorted v \<or> sorted_wrt (\<ge>) v"
| "monotone_coord (RefFloat32 v) \<longleftrightarrow> sorted v \<or> sorted_wrt (\<ge>) v"
| "monotone_coord (RefFloat64 v) \<longleftrightarrow> sorted v \<or> sorted_wrt (\<ge>) v"
| "monotone_coord (RefTimestampMicros v) \<longleftrightarrow> sorted v \<or> sorted_wrt (\<ge>) v"
| "monotone_coord (RefCompact e ts) \<longleftrightarrow> False"

fun separated :: "'f::linorder F64 \<Rightarrow> 'f CoordValuesRef \<Rightarrow> bool" where
  "separated fl (RefInt64 v) \<longleftrightarrow> distinct v"
| "separated fl (RefTimestampMicros v) \<longleftrightarrow> distinct v"
| "separated fl (RefFloat32 v) \<longleftrightarrow> (\<forall>j < length v. \<forall>i < j. \<forall>x. \<not> (close32 fl x (v ! i) \<and> close32 fl x (v ! j)))"
| "separated fl (RefFloat64 v) \<longleftrightarrow> (\<forall>j < length v. \<forall>i < j. \<forall>x. \<not> (close64 fl x (v ! i) \<and> close64 fl x (v ! j)))"
| "separated fl (RefCompact e ts) \<longleftrightarrow> False"

fun plain_kind :: "'f::linorder F64 \<Rightarrow> 'f CoordValuesRef \<Rightarrow> 'f CoordFilterKind \<Rightarrow> bool" where
  "plain_kind fl values (Eq v) \<longleftrightarrow> separated fl values"
| "plain_kind fl values (InList vs) \<longleftrightarrow> separated fl values"
| "plain_kind fl values (Range low high li hi) \<longleftrightarrow> monotone_coord values"
| "plain_kind fl values _ \<longleftrightarrow> True"

definition plain_coord :: "'f::linorder F64 \<Rightarrow> 'f CoordFilters \<Rightarrow> string \<Rightarrow> 'f CoordValuesRef \<Rightarrow> bool" where
  "plain_coord fl fs name values \<longleftrightarrow>
     0 < ref_len values \<and> ref_len values < index_bound \<and>
     (case filters_get fs name of None \<Rightarrow> True | Some ks \<Rightarrow> explicit values \<and> list_all (plain_kind fl values) ks)"

lemma ends_tell_direction:
  fixes v :: "'a::linorder list"
  assumes "sorted v \<or> sorted_wrt (\<ge>) v"
  shows "if 2 \<le> length v \<and> v ! 0 > v ! (length v - 1) then sorted_wrt (\<ge>) v else sorted v"
proof (cases "2 \<le> length v \<and> v ! 0 > v ! (length v - 1)")
  case True
  then have "length v - 1 < length v" "\<not> v ! 0 \<le> v ! (length v - 1)" by auto
  then have "\<not> sorted v" using sorted_nth_mono [of v 0 "length v - 1"] by blast
  then show ?thesis using True assms by simp
next
  case False
  have "sorted v" if d: "sorted_wrt (\<ge>) v"
  proof (cases "2 \<le> length v")
    case True
    then have ends: "v ! 0 \<le> v ! (length v - 1)" using False by simp
    have ge: "v ! j \<le> v ! i" if "i \<le> j" "j < length v" for i j
      using d that sorted_wrt_iff_nth_less [of "(\<ge>)" v] by (cases "i = j") auto
    have "v ! i \<le> v ! j" if "i \<le> j" "j < length v" for i j
    proof -
      have "v ! i \<le> v ! 0" using ge [of 0 i] that by simp
      also note ends
      also have "v ! (length v - 1) \<le> v ! j" using ge [of j "length v - 1"] that by simp
      finally show ?thesis .
    qed
    then show ?thesis by (simp add: sorted_iff_nth_mono)
  next
    case short: False
    then show ?thesis by (cases v rule: remdups_adj.cases) simp_all
  qed
  then have "sorted v" using assms by blast
  then show ?thesis using False by (simp only: if_False)
qed

lemma monotone_ordered:
  assumes "monotone_coord values" "mono (f_of_int fl)"
  shows "explicit values \<and> ordered_coord fl values"
proof -
  have up: "sorted (map (f_of_int fl) v)" if "sorted v" for v
    using that assms(2) by (auto simp: sorted_map mono_def elim: sorted_wrt_mono_rel [rotated])
  have down: "sorted_wrt (\<ge>) (map (f_of_int fl) v)" if "sorted_wrt (\<ge>) v" for v
    using that assms(2) by (auto simp: sorted_wrt_map mono_def elim: sorted_wrt_mono_rel [rotated])
  show ?thesis
  proof (cases "values")
    case (RefInt64 v)
    then show ?thesis using assms(1) ends_tell_direction [of v] up down
      by (auto simp: ordered_coord_def is_descending_def ref_f64_explicit map_nth_upt split: if_splits)
  next
    case (RefTimestampMicros v)
    then show ?thesis using assms(1) ends_tell_direction [of v] up down
      by (auto simp: ordered_coord_def is_descending_def ref_f64_explicit map_nth_upt split: if_splits)
  next
    case (RefFloat32 v)
    then show ?thesis using assms(1) ends_tell_direction [of v]
      by (auto simp: ordered_coord_def is_descending_def ref_f64_explicit map_nth split: if_splits)
  next
    case (RefFloat64 v)
    then show ?thesis using assms(1) ends_tell_direction [of v]
      by (auto simp: ordered_coord_def is_descending_def ref_f64_explicit map_nth split: if_splits)
  qed (use assms(1) in simp)
qed

lemma apart32:
  assumes "separated fl (RefFloat32 w)" "i < length w" "j < length w" "close32 fl x (w ! i)" "close32 fl x (w ! j)"
  shows "i = j"
proof (rule ccontr)
  assume "i \<noteq> j"
  then consider "i < j" | "j < i" by linarith
  then show False using assms by cases fastforce+
qed

lemma apart64:
  assumes "separated fl (RefFloat64 w)" "i < length w" "j < length w" "close64 fl x (w ! i)" "close64 fl x (w ! j)"
  shows "i = j"
proof (rule ccontr)
  assume "i \<noteq> j"
  then consider "i < j" | "j < i" by linarith
  then show False using assms by cases fastforce+
qed

lemma distinct_at: "distinct w \<Longrightarrow> i < length w \<Longrightarrow> j < length w \<Longrightarrow> w ! i = x \<Longrightarrow> w ! j = x \<Longrightarrow> i = j"
  by (metis nth_eq_iff_index_eq)

lemma separated_at_most_one:
  assumes "separated fl values" "i < ref_len values" "j < ref_len values" "value_matches fl values v i" "value_matches fl values v j"
  shows "i = j"
proof (cases "values")
  case (RefInt64 w)
  then have "\<exists>x. w ! i = x \<and> w ! j = x"
    using assms(4,5) by (induction fl "values" v i rule: value_matches.induct) simp_all
  then show ?thesis using assms(1-3) RefInt64 distinct_at by (metis ref_len.simps(1) separated.simps(1))
next
  case (RefTimestampMicros w)
  then have "\<exists>x. w ! i = x \<and> w ! j = x"
    using assms(4,5) by (induction fl "values" v i rule: value_matches.induct) simp_all
  then show ?thesis using assms(1-3) RefTimestampMicros distinct_at by (metis ref_len.simps(4) separated.simps(2))
next
  case (RefFloat32 w)
  then have "\<exists>x. close32 fl x (w ! i) \<and> close32 fl x (w ! j)"
    using assms(4,5) by (induction fl "values" v i rule: value_matches.induct) auto
  then show ?thesis using assms(1-3) RefFloat32 apart32 [of fl w i j] by auto
next
  case (RefFloat64 w)
  then have "\<exists>x. close64 fl x (w ! i) \<and> close64 fl x (w ! j)"
    using assms(4,5) by (induction fl "values" v i rule: value_matches.induct) auto
  then show ?thesis using assms(1-3) RefFloat64 apart64 [of fl w i j] by auto
qed (use assms in simp)

lemma separated_unique:
  assumes "separated fl values"
  shows "explicit values \<and> unique_match (ref_len values) (value_matches fl values v)"
proof
  show "explicit values" using assms by (cases "values") simp_all
  show "unique_match (ref_len values) (value_matches fl values v)"
    unfolding unique_match_def using separated_at_most_one [OF assms] by blast
qed

lemma plain_kind_ok:
  assumes "plain_kind fl values k" "explicit values" "ref_len values < index_bound" "mono (f_of_int fl)"
  shows "kind_ok fl values k"
proof -
  have lookup: "lookup_exact fl values v" if "separated fl values" for v
    unfolding lookup_exact_def using find_value_index_explicit separated_unique [OF that] by blast
  have bound: "bound_exact fl values b" if "monotone_coord values" for b
    unfolding bound_exact_def using explicit_bounds_exact monotone_ordered [OF that assms(4)] by blast
  show ?thesis using assms lookup bound by (cases k) (simp_all add: list_all_iff)
qed

lemma plain_coord_ok:
  assumes "plain_coord fl fs name values" "mono (f_of_int fl)"
  shows "coord_ok fl fs name values"
  using assms plain_kind_ok [of fl "values"]
  by (auto simp: plain_coord_def coord_ok_def list_all_iff split: option.splits)

text \<open>In exact arithmetic, float values apart by twice the tolerance are separated.\<close>

lemma separated_exact:
  assumes "\<forall>j < length v. \<forall>i < j. 2 / 2 ^ 52 \<le> \<bar>v ! i - v ! j\<bar>"
  shows "separated exact_f64 (RefFloat64 v)"
proof -
  have "\<not> (\<bar>v ! i - x\<bar> < 1 / 2 ^ 52 \<and> \<bar>v ! j - x\<bar> < 1 / 2 ^ 52)" if "j < length v" "i < j" for i j x
  proof
    assume "\<bar>v ! i - x\<bar> < 1 / 2 ^ 52 \<and> \<bar>v ! j - x\<bar> < 1 / 2 ^ 52"
    then have "\<bar>v ! i - v ! j\<bar> < 2 / 2 ^ 52" by (auto simp: abs_if split: if_splits)
    then show False using assms that by (meson not_less)
  qed
  then show ?thesis by simp
qed

text \<open>For a compact coordinate: offsets that fit 64 bits, steps above the tolerance, and bounds that are not within the
  tolerance of a value without being equal to it.\<close>

fun compact_varies :: "rat CompactCoord \<Rightarrow> bool" where
  "compact_varies (ArithmeticInt f s n) \<longleftrightarrow> s \<noteq> 0 \<or> n \<le> 1"
| "compact_varies (Arithmetic f s n) \<longleftrightarrow> s \<noteq> 0 \<or> n \<le> 1"

fun compact_kind :: "rat CompactCoord \<Rightarrow> rat CoordFilterKind \<Rightarrow> bool" where
  "compact_kind e (Eq v) \<longleftrightarrow> compact_lookup_ok e \<and> compact_varies e"
| "compact_kind e (InList vs) \<longleftrightarrow> compact_lookup_ok e \<and> compact_varies e"
| "compact_kind e (Range low high li hi) \<longleftrightarrow>
     list_all (\<lambda>b. case Option.bind b (scalar_to_f64 exact_f64) of None \<Rightarrow> True | Some t \<Rightarrow> compact_ok e t) [low, high]"
| "compact_kind e _ \<longleftrightarrow> True"

definition exact_coord :: "rat CoordFilters \<Rightarrow> string \<Rightarrow> rat CoordValuesRef \<Rightarrow> bool" where
  "exact_coord fs name values \<longleftrightarrow>
     (case values of
        RefCompact e ts \<Rightarrow>
          0 < compact_len e \<and> compact_len e < index_bound \<and>
          (case filters_get fs name of None \<Rightarrow> True | Some ks \<Rightarrow> list_all (compact_kind e) ks)
      | _ \<Rightarrow> plain_coord exact_f64 fs name values)"

lemma compact_unique:
  assumes "compact_lookup_ok e" "compact_varies e"
  shows "unique_match (compact_len e) (compact_matches exact_f64 e t)"
proof (cases e)
  case (ArithmeticInt f s n)
  show ?thesis
  proof (cases "s = 0")
    case True
    then show ?thesis using assms(2) ArithmeticInt by (auto simp: unique_match_def)
  next
    case False
    have "i = j" if i: "i < n" "j < n" and m: "compact_matches exact_f64 e t i" "compact_matches exact_f64 e t j" for i j
    proof -
      have r: "value_at_i64 exact_f64 e k = f + int k * s" if "k < n" for k
        using assms(1) that ArithmeticInt by (simp add: i64_affine list_all_iff)
      have "f + int i * s = f + int j * s" using m r [OF i(1)] r [OF i(2)] False ArithmeticInt by simp
      then show ?thesis using False by simp
    qed
    then show ?thesis using ArithmeticInt by (auto simp: unique_match_def simp del: compact_matches.simps)
  qed
next
  case (Arithmetic f s n)
  show ?thesis
  proof (cases "s = 0")
    case True
    then show ?thesis using assms(2) Arithmetic by (auto simp: unique_match_def)
  next
    case False
    then have s: "2 / 10 ^ 9 \<le> \<bar>s\<bar>" using assms(1) Arithmetic by simp
    then have big: "\<not> \<bar>s\<bar> < 1 / 2 ^ 52" by simp
    have "i = j" if m: "compact_matches exact_f64 e t i" "compact_matches exact_f64 e t j" for i j
    proof (rule ccontr)
      assume "i \<noteq> j"
      have "\<bar>f + of_nat i * s - t\<bar> < 1 / 10 ^ 9" "\<bar>f + of_nat j * s - t\<bar> < 1 / 10 ^ 9"
        using m big Arithmetic by simp_all
      then have "\<bar>(of_nat i - of_nat j) * s\<bar> < 2 / 10 ^ 9" by (simp add: algebra_simps abs_if split: if_splits)
      moreover have "1 \<le> \<bar>of_nat i - of_nat j :: rat\<bar>" using \<open>i \<noteq> j\<close> by (auto simp: abs_if)
      then have "\<bar>s\<bar> \<le> \<bar>(of_nat i - of_nat j) * s\<bar>" by (simp add: abs_mult mult_le_cancel_right1)
      ultimately show False using s by linarith
    qed
    then show ?thesis by (auto simp: unique_match_def simp del: compact_matches.simps)
  qed
qed

lemma compact_kind_ok:
  assumes "compact_kind e k" "compact_len e < index_bound"
  shows "kind_ok exact_f64 (RefCompact e ts) k"
proof -
  have lookup: "lookup_exact exact_f64 (RefCompact e ts) v" if "compact_lookup_ok e" "compact_varies e" for v
  proof -
    have "unique_match (compact_len e) (value_matches exact_f64 (RefCompact e ts) v)"
      using compact_unique [OF that] by (cases "compact_target exact_f64 ts v") (simp_all add: unique_match_def)
    then show ?thesis using find_compact_index_exact [OF that(1), of ts v] by (simp only: lookup_exact_def ref_len.simps)
  qed
  show ?thesis
  proof (cases k)
    case (Range low high li hi)
    have "bound_exact exact_f64 (RefCompact e ts) b" if "b = low \<or> b = high" for b
      using assms(1) Range that compact_bounds_exact by (auto simp: bound_exact_def split: option.splits)
    then show ?thesis using Range assms(2) by simp
  qed (use assms lookup in \<open>simp_all add: list_all_iff\<close>)
qed

lemma exact_coord_ok:
  assumes "exact_coord fs name values"
  shows "coord_ok exact_f64 fs name values"
proof (cases "values")
  case (RefCompact e ts)
  then show ?thesis using assms compact_kind_ok
    by (auto simp: exact_coord_def coord_ok_def list_all_iff split: option.splits)
qed (use assms in \<open>auto simp: exact_coord_def mono_def intro!: plain_coord_ok\<close>)

section \<open>From the WHERE clause to positions\<close>

text \<open>The scalar a query sees at a position.\<close>

fun compact_scalar :: "rat CompactCoord \<Rightarrow> bool \<Rightarrow> nat \<Rightarrow> rat ScalarValue" where
  "compact_scalar (ArithmeticInt f s n) ts i =
     (if ts then STimestampMicrosecond (Some (value_at_i64 exact_f64 (ArithmeticInt f s n) i)) None
      else SInt64 (Some (value_at_i64 exact_f64 (ArithmeticInt f s n) i)))"
| "compact_scalar (Arithmetic f s n) ts i = SFloat64 (Some (value_at_f64 exact_f64 (Arithmetic f s n) i))"

fun ref_scalar :: "rat CoordValuesRef \<Rightarrow> nat \<Rightarrow> rat ScalarValue" where
  "ref_scalar (RefInt64 v) i = SInt64 (Some (v ! i))"
| "ref_scalar (RefFloat32 v) i = SFloat32 (Some (v ! i))"
| "ref_scalar (RefFloat64 v) i = SFloat64 (Some (v ! i))"
| "ref_scalar (RefTimestampMicros v) i = STimestampMicrosecond (Some (v ! i)) None"
| "ref_scalar (RefCompact e ts) i = compact_scalar e ts i"

lemma ref_scalar_f64: "scalar_to_f64 exact_f64 (unwrap_dictionary_value (ref_scalar values i)) = Some (ref_f64 exact_f64 values i)"
proof (cases "values")
  case (RefCompact e ts)
  then show ?thesis by (cases e) simp_all
qed simp_all

text \<open>The literals a lookup understands for each kind of coordinate.\<close>

fun literal_supported :: "rat CoordValuesRef \<Rightarrow> rat ScalarValue \<Rightarrow> bool" where
  "literal_supported (RefInt64 vals) (SInt64 (Some v)) \<longleftrightarrow> True"
| "literal_supported (RefInt64 vals) (SInt32 (Some v)) \<longleftrightarrow> True"
| "literal_supported (RefFloat32 vals) (SFloat32 (Some v)) \<longleftrightarrow> True"
| "literal_supported (RefFloat32 vals) (SFloat64 (Some v)) \<longleftrightarrow> True"
| "literal_supported (RefFloat32 vals) (SInt64 (Some v)) \<longleftrightarrow> True"
| "literal_supported (RefFloat64 vals) (SFloat64 (Some v)) \<longleftrightarrow> True"
| "literal_supported (RefFloat64 vals) (SFloat32 (Some v)) \<longleftrightarrow> True"
| "literal_supported (RefFloat64 vals) (SInt64 (Some v)) \<longleftrightarrow> True"
| "literal_supported (RefTimestampMicros vals) (STimestampMicrosecond (Some v) tz) \<longleftrightarrow> True"
| "literal_supported (RefTimestampMicros vals) (STimestampNanosecond (Some v) tz) \<longleftrightarrow> True"
| "literal_supported (RefTimestampMicros vals) (SInt64 (Some v)) \<longleftrightarrow> True"
| "literal_supported (RefCompact e ts) v \<longleftrightarrow> compact_target exact_f64 ts v \<noteq> None \<and> compact_lookup_ok e"
| "literal_supported _ _ \<longleftrightarrow> False"

text \<open>Date parts are looked for in timestamps; \<open>DOW\<close> is left out, on which the reader differs from SQL.\<close>

definition part_supported :: "rat CoordValuesRef \<Rightarrow> string \<Rightarrow> bool" where
  "part_supported values f \<longleftrightarrow> (case values of RefTimestampMicros m \<Rightarrow> True | _ \<Rightarrow> False) \<and> to_uppercase f \<noteq> ''DOW''"

fun kind_supported :: "rat CoordValuesRef \<Rightarrow> rat CoordFilterKind \<Rightarrow> bool" where
  "kind_supported values (Eq v) \<longleftrightarrow> literal_supported values v"
| "kind_supported values (Range low high li hi) \<longleftrightarrow>
     map_option unwrap_dictionary_value low = low \<and> map_option unwrap_dictionary_value high = high"
| "kind_supported values (DatePart f v) \<longleftrightarrow> part_supported values f"
| "kind_supported values (InList vs) \<longleftrightarrow> list_all (literal_supported values) vs"
| "kind_supported values (DatePartSet f vs) \<longleftrightarrow> part_supported values f"

text \<open>
  Date parts as SQL defines them, said of the fields of the date: \<open>DOW\<close> counts from Sunday, \<open>ISODOW\<close> from Monday.  The dates
  chrono returns are calendar dates with a year far inside \<open>i32\<close>.
\<close>

definition sql_date_part :: "string \<Rightarrow> DateTime \<Rightarrow> int option" where
  "sql_date_part field dt =
     map_of [(''YEAR'', dt_year dt), (''QUARTER'', (int (dt_month dt) + 2) div 3), (''MONTH'', int (dt_month dt)),
       (''DAY'', int (dt_day dt)), (''DOY'', int (dt_ordinal dt)), (''DOW'', (int (num_days_from_monday dt) + 1) mod 7),
       (''ISODOW'', int (num_days_from_monday dt)), (''HOUR'', int (dt_hour dt)), (''MINUTE'', int (dt_minute dt))] field"

definition timestamp_part :: "(int \<Rightarrow> DateTime option) \<Rightarrow> string \<Rightarrow> rat ScalarValue \<Rightarrow> int option" where
  "timestamp_part decode f x =
     (case x of STimestampMicrosecond (Some us) tz \<Rightarrow> Option.bind (decode us) (sql_date_part (to_uppercase f)) | _ \<Rightarrow> None)"

definition valid_dates :: "(int \<Rightarrow> DateTime option) \<Rightarrow> bool" where
  "valid_dates decode \<longleftrightarrow>
     (\<forall>us dt. decode us = Some dt \<longrightarrow>
       \<bar>dt_year dt\<bar> \<le> 300000 \<and> dt_month dt \<in> {1..12} \<and> dt_day dt \<in> {1..31} \<and> dt_hour dt < 24 \<and> dt_minute dt < 60 \<and>
       num_days_from_monday dt < 7 \<and> dt_ordinal dt \<in> {1..366})"

lemma i32_small: "\<bar>n\<bar> \<le> 300000 \<Longrightarrow> i32 n = n"
  by (simp add: i32_def)

lemma quarter_exact: "1 \<le> m \<Longrightarrow> (int m - 1) sdiv 3 + 1 = (int m + 2) div 3"
proof -
  assume "1 \<le> m"
  then have "(int m - 1) sdiv 3 = (int m - 1) div 3" by (simp add: signed_divide_int_def sgn_if)
  then show ?thesis by presburger
qed

text \<open>Apart from \<open>DOW\<close> the reader computes the parts SQL defines.\<close>

lemma date_part_exact:
  assumes "sql_date_part f dt = Some n" "f \<noteq> ''DOW''" "valid_dates decode" "decode us = Some dt"
  shows "date_part_value f dt = Some n \<and> i32 n = n"
proof -
  have d: "\<bar>dt_year dt\<bar> \<le> 300000" "1 \<le> dt_month dt" "dt_month dt \<le> 12" "dt_day dt \<le> 31" "dt_hour dt < 24" "dt_minute dt < 60"
      "num_days_from_monday dt < 7" "dt_ordinal dt \<le> 366"
    using assms(3,4) unfolding valid_dates_def by auto
  have q: "date_part_value f dt = Some n" using assms(1,2) d(2)
    by (auto simp: sql_date_part_def date_part_value_def quarter_exact split: if_splits)
  have "\<bar>n\<bar> \<le> 300000" using assms(1) d by (auto simp: sql_date_part_def split: if_splits)
  then show ?thesis using q i32_small by blast
qed

text \<open>\<open>DOW\<close> of a Sunday is 0 in SQL and 6 in the reader.\<close>

lemma dow_counts_from_monday:
  assumes "num_days_from_monday dt = 6"
  shows "sql_date_part ''DOW'' dt = Some 0 \<and> date_part_value ''DOW'' dt = Some 6"
  using assms by (simp add: sql_date_part_def date_part_value_def)

abbreviation scan_sql :: "(int \<Rightarrow> DateTime option) \<Rightarrow> (rat, rat) sql" where
  "scan_sql decode \<equiv> exact_sql (timestamp_part decode)"

lemma compact_equal_matches:
  assumes "compact_lookup_ok e" "i < compact_len e" "value_at_f64 exact_f64 e i = t"
  shows "compact_matches exact_f64 e t i"
proof (cases e)
  case (Arithmetic f s n)
  have "s = 0 \<or> \<not> \<bar>s\<bar> < 1 / 2 ^ 52" using assms(1) Arithmetic by auto
  then show ?thesis using assms Arithmetic by (auto simp: exact_f64_def)
next
  case (ArithmeticInt f s n)
  define v where "v = i64 (f + i64 (int i * s))"
  have t: "t = of_int v" using assms(3) ArithmeticInt by (simp add: v_def)
  have "\<lfloor>of_int v + 1 / 2 :: rat\<rfloor> = v" "\<lceil>of_int v - 1 / 2 :: rat\<rceil> = v" by (intro floor_unique ceiling_unique; simp)+
  then have "f_round exact_f64 t = v" by (simp add: t exact_f64_def)
  moreover have "as_i64 v = v" using i64_bounds [of "f + i64 (int i * s)"] by (simp add: v_def as_i64_def i64_range_def)
  moreover have "v = f" if "s = 0"
  proof -
    have "i64_range f" using assms(1,2) ArithmeticInt that by (auto simp: list_all_iff)
    moreover have "i64 0 = 0" by (simp add: i64_def)
    ultimately show ?thesis using that by (simp add: v_def i64_id)
  qed
  ultimately show ?thesis using ArithmeticInt by (auto simp: v_def [symmetric] t)
qed

lemma sql_equal_matches:
  assumes "sql_rel (scan_sql decode) (=) (ref_scalar values i) v" "literal_supported values v" "i < ref_len values"
  shows "value_matches exact_f64 values v i"
proof -
  have k: "key (scan_sql decode) = scalar_to_f64 exact_f64" by (simp add: exact_sql_def)
  have eq: "ref_f64 exact_f64 values i = b" if "scalar_to_f64 exact_f64 v = Some b" for b
    using sql_rel_scalar [OF k assms(1) ref_scalar_f64 that] .
  show ?thesis
  proof (cases "values")
    case (RefCompact e ts)
    obtain t where t: "compact_target exact_f64 ts v = Some t" using assms(2) RefCompact by auto
    have "scalar_to_f64 exact_f64 v = Some t" using t by (induction exact_f64 ts v rule: compact_target.induct) (auto split: if_splits)
    then have "value_at_f64 exact_f64 e i = t" using eq RefCompact by simp
    then show ?thesis using t assms(2,3) RefCompact compact_equal_matches [of e i t] by simp
  qed (use eq assms(2) in \<open>cases v; auto simp: exact_f64_def elim!: literal_supported.elims\<close>)+
qed

lemma sql_bound:
  assumes "sql_rel (scan_sql decode) R (ref_scalar values i) v" "unwrap_dictionary_value v = v"
  shows "\<exists>b. scalar_to_f64 exact_f64 v = Some b \<and> R (ref_f64 exact_f64 values i) b"
proof -
  have k: "key (scan_sql decode) = scalar_to_f64 exact_f64" by (simp add: exact_sql_def)
  show ?thesis
    using assms ref_scalar_f64 [of "values" i] by (simp add: sql_rel_def k split: option.splits)
qed

lemma kind_holds_matches:
  assumes "kind_holds (scan_sql decode) (ref_scalar values i) k" "kind_supported values k" "i < ref_len values"
    "valid_dates decode"
  shows "kind_matches exact_f64 decode values k i"
proof -
  have part: "part_matches decode values f v i"
    if p: "part (scan_sql decode) f (ref_scalar values i) = Some v" and s: "part_supported values f" for f v
  proof -
    obtain m where m: "values = RefTimestampMicros m" "to_uppercase f \<noteq> ''DOW''"
      using s by (auto simp: part_supported_def split: CoordValuesRef.splits)
    obtain dt n where dt: "decode (m ! i) = Some dt" "sql_date_part (to_uppercase f) dt = Some n" "i32 n = v"
      using p m(1) by (auto simp: exact_sql_def timestamp_part_def bind_eq_Some_conv)
    show ?thesis using date_part_exact [OF dt(2) m(2) assms(4) dt(1)] dt m(1) by (simp add: date_part_matches_def)
  qed
  show ?thesis
  proof (cases k)
    case (Eq v)
    then show ?thesis using assms sql_equal_matches [of decode "values" i v] by simp
  next
    case (Range low high li hi)
    have "admits_low exact_f64 low li (ref_f64 exact_f64 values i)"
    proof (cases low)
      case (Some l)
      then show ?thesis using assms Range sql_bound [of decode _ "values" i l] by (fastforce simp: admits_low_def)
    qed (simp add: admits_low_def)
    moreover have "admits_high exact_f64 high hi (ref_f64 exact_f64 values i)"
    proof (cases high)
      case (Some h)
      then show ?thesis using assms Range sql_bound [of decode _ "values" i h] by (fastforce simp: admits_high_def)
    qed (simp add: admits_high_def)
    ultimately show ?thesis using Range by simp
  next
    case (InList vs)
    then show ?thesis using assms sql_equal_matches [of decode "values" i] by (auto simp: list_ex_iff list_all_iff)
  next
    case (DatePart f v)
    then show ?thesis using assms part by simp
  next
    case (DatePartSet f vs)
    then show ?thesis using assms part by (auto simp: list_ex_iff)
  qed
qed

section \<open>Properties\<close>

text \<open>C35: On explicit coordinate values that are ordered in either direction, whatever the rounding of the
  conversions, a range filter resolves to exactly the contiguous positions whose value lies within the
  bounds, inclusive or exclusive, and to nothing when there is none.\<close>

theorem range_filter_exact:
  assumes "explicit values" "ordered_coord fl values"
  shows "case find_filter_range fl values (Range low high li hi) of
      None \<Rightarrow> \<forall>i < ref_len values. \<not> kind_matches fl decode values (Range low high li hi) i
    | Some (s, e) \<Rightarrow> s < e \<and> e \<le> ref_len values \<and>
        {s..<e} = {i. i < ref_len values \<and> kind_matches fl decode values (Range low high li hi) i}"
proof -
  have "bound_exact fl values b" for b
    unfolding bound_exact_def using explicit_bounds_exact [OF assms] by blast
  then show ?thesis
    using find_filter_range_exact [of fl "values" low high li hi] by (simp only: kind_matches.simps)
qed

definition demo_lat :: "rat CoordValuesRef" where
  "demo_lat = RefFloat64 [8, 4, 3, 1]"

lemma demo_lat_ordered: "explicit demo_lat" "ordered_coord exact_f64 demo_lat"
  by (simp_all add: demo_lat_def ordered_coord_def is_descending_def upt_rec numeral_eq_Suc)

theorem range_filter_exact_witness:
  "case find_filter_range exact_f64 demo_lat (Range (Some (SInt64 (Some 3))) (Some (SInt64 (Some 8))) True False) of
      None \<Rightarrow> \<forall>i < ref_len demo_lat.
        \<not> kind_matches exact_f64 (\<lambda>_. None) demo_lat (Range (Some (SInt64 (Some 3))) (Some (SInt64 (Some 8))) True False) i
    | Some (s, e) \<Rightarrow> s < e \<and> e \<le> ref_len demo_lat \<and>
        {s..<e} = {i. i < ref_len demo_lat \<and>
          kind_matches exact_f64 (\<lambda>_. None) demo_lat (Range (Some (SInt64 (Some 3))) (Some (SInt64 (Some 8))) True False) i}"
  by (rule range_filter_exact) (rule demo_lat_ordered)+

text \<open>
  The exclusive bound of a descending compact coordinate adds the machine epsilon to the number of steps.  In binary64
  the sum is the number of steps again from two on (\<open>2 + 2^-52\<close> is a tie that rounds to 2), and the bound takes in
  the value it is to exclude: of 90, 60, 30 and so on, \<open>high < 30\<close> selects 30.
\<close>

lemma exclusive_descending_bound_absorbed:
  assumes "add 2 (1 / 2 ^ 52) = (2 :: rat)"
  shows "find_filter_range (exact_f64\<lparr>f_add := add\<rparr>) (RefCompact (ArithmeticInt 90 (-30) 7) False)
      (Range None (Some (SInt64 (Some 30))) True False) = Some (2, 7)"
    "value_at_i64 exact_f64 (ArithmeticInt 90 (-30) 7) 2 = 30"
proof -
  show "value_at_i64 exact_f64 (ArithmeticInt 90 (-30) 7) 2 = 30" by (simp add: i64_def)
  show "find_filter_range (exact_f64\<lparr>f_add := add\<rparr>) (RefCompact (ArithmeticInt 90 (-30) 7) False)
      (Range None (Some (SInt64 (Some 30))) True False) = Some (2, 7)"
    using assms by (simp add: is_descending_def descending_range_def find_first_leq_descending_def find_descending_bound_def
        clamp_index_def as_i64_def i64_range_def)
qed


lemma demo_lat_plain: "plain_coord exact_f64 [(''lat'', [Range low high li hi])] ''lat'' demo_lat"
  by (simp add: plain_coord_def filters_get_def) (simp add: demo_lat_def index_bound_def)

lemma demo_levels_separated: "separated exact_f64 (RefFloat64 [8, 4, 3, 1])"
  by (rule separated_exact) (simp add: less_Suc_eq numeral_eq_Suc)


text \<open>A row that satisfies the expressions matches the filters extracted from them.\<close>

lemma row_matches_filters:
  fixes names :: "string list" and cast_to es
  defines "fs \<equiv> parse_coord_filters cast_to es names"
  assumes "valid_dates decode"
    and "\<And>e. e \<in> set es \<Longrightarrow> holds (scan_sql decode) cast_to env e \<and> canonical (scan_sql decode) cast_to env e"
    and "i < ref_len v" "env name = ref_scalar v i"
    and "\<And>ks. filters_get fs name = Some ks \<Longrightarrow> list_all (kind_supported v) ks"
  shows "coord_matches exact_f64 decode fs name v i"
proof -
  have "kind_matches exact_f64 decode v k i" if "filters_get fs name = Some ks" "k \<in> set ks" for ks k
  proof (rule kind_holds_matches)
    have "kind_holds (scan_sql decode) (env name) k"
      using fold_extract_sound [OF exact_sql_integer_parts bounds_sound_Nil assms(3), of es names]
        map_of_parse [OF that(1) [unfolded filters_get_def fs_def]] that(2)
      by (auto simp: bounds_sound_def bounds_hold_def)
    then show "kind_holds (scan_sql decode) (ref_scalar v i) k" using assms(5) by simp
    show "kind_supported v k" using assms(6) [OF that(1)] that(2) by (simp add: list_all_iff)
  qed (use assms(2,4) in auto)
  then show ?thesis by (auto simp: coord_matches_def list_all_iff split: option.splits)
qed



text \<open>A floating point literal on an explicit integer coordinate is not understood by the lookup, and the
  query is declared empty although a row with an equal value satisfies the filter.\<close>

theorem float_literal_on_integer_coord_empty:
  "resolve_coord_selection exact_f64 decode (Some [Eq (SFloat64 (Some 500))]) (RefInt64 [1000, 850, 500]) = None \<and>
   kind_holds (scan_sql decode) (ref_scalar (RefInt64 [1000, 850, 500]) 2) (Eq (SFloat64 (Some 500)))"
  by (simp add: resolve_coord_selection_def sql_rel_def exact_sql_def numeral_eq_Suc)

end
