(* ===== verification/Var_Dims.thy ===== *)
theory Var_Dims
  imports Selection
begin

text \<open>
  Which coordinates a data variable spans (\<open>src/reader/filter.rs\<close>): matching by dimension name or by size,
  the coordinates a projection needs, and the array ranges of a variable with fewer dimensions than
  the table.  The lemmas show that name matching is exact, that size matching never uses a coordinate
  twice, and that a projection is rejected exactly when its variables disagree.
\<close>

section \<open>Matching dimensions\<close>

text \<open>\<open>enumerate\<close> with the first unused coordinate of the size.\<close>

definition first_unused :: "bool list \<Rightarrow> nat list \<Rightarrow> nat \<Rightarrow> nat option" where
  "first_unused used coord_sizes d = position (\<lambda>(u, s). \<not> u \<and> s = d) (zip used coord_sizes)"

fun match_shape_loop :: "nat list \<Rightarrow> nat list \<Rightarrow> nat list \<Rightarrow> bool list \<Rightarrow> nat list" where
  "match_shape_loop coord_sizes [] matched used = matched"
| "match_shape_loop coord_sizes (d # ds) matched used =
     (case first_unused used coord_sizes d of
        None \<Rightarrow> match_shape_loop coord_sizes ds matched used
      | Some i \<Rightarrow> match_shape_loop coord_sizes ds (matched @ [i]) (used[i := True]))"

definition match_shape_to_coords :: "nat list \<Rightarrow> nat list \<Rightarrow> nat list" where
  "match_shape_to_coords var_shape coord_sizes =
     match_shape_loop coord_sizes var_shape [] (replicate (length coord_sizes) False)"

definition get_variable_coords :: "nat list \<Rightarrow> string list option \<Rightarrow> string list \<Rightarrow> nat list \<Rightarrow> nat list" where
  "get_variable_coords var_shape var_dimensions coord_names coord_sizes =
     (case var_dimensions of
        None \<Rightarrow> match_shape_to_coords var_shape coord_sizes
      | Some dims \<Rightarrow>
          let ixs = List.map_filter (\<lambda>d. position (\<lambda>c. c = d) coord_names) dims in
          if length ixs = length dims then ixs else match_shape_to_coords var_shape coord_sizes)"

section \<open>Projected coordinates\<close>

text \<open>The error carries the variables by their number of dimensions; the message prints them.\<close>

datatype ProjectionError = MixedDimensionality "(nat \<times> string list) list"

fun dim_groups :: "(string \<times> nat list) list \<Rightarrow> (nat \<times> string list) list \<Rightarrow> (nat \<times> string list) list" where
  "dim_groups [] m = m"
| "dim_groups ((name, cs) # vs) m = dim_groups vs (entry_with (length cs) [] (\<lambda>l. l @ [name]) m)"

definition coordinate_only :: "string list \<Rightarrow> string list \<Rightarrow> nat list \<Rightarrow> nat list" where
  "coordinate_only projected_coord_names coord_names coord_sizes =
     (let ixs = sort_dedup (List.map_filter (\<lambda>n. position (\<lambda>c. c = n) coord_names) projected_coord_names) in
      if ixs = [] then [0..<length coord_sizes] else ixs)"

definition variable_coord_sets ::
    "string list \<Rightarrow> 'f ZarrArrayMeta list \<Rightarrow> string list \<Rightarrow> nat list \<Rightarrow> (string \<times> nat list) list" where
  "variable_coord_sets projected_var_names all_data_vars coord_names coord_sizes =
     List.map_filter (\<lambda>v.
       map_option (\<lambda>m. (v, get_variable_coords (shape m) (dimensions m) coord_names coord_sizes))
         (find (\<lambda>m. meta_name m = v) all_data_vars)) projected_var_names"

definition determine_effective_coords ::
    "string list \<Rightarrow> string list \<Rightarrow> 'f ZarrArrayMeta list \<Rightarrow> string list \<Rightarrow> nat list \<Rightarrow> nat option \<Rightarrow>
     ProjectionError + nat list" where
  "determine_effective_coords projected_var_names projected_coord_names all_data_vars coord_names coord_sizes limit =
     (if projected_var_names = [] then
        (if projected_coord_names \<noteq> [] \<and> limit \<noteq> None
         then Inr (coordinate_only projected_coord_names coord_names coord_sizes)
         else Inr [0..<length coord_sizes])
      else
        case variable_coord_sets projected_var_names all_data_vars coord_names coord_sizes of
          [] \<Rightarrow> Inr [0..<length coord_sizes]
        | (v, first_coords) # rest \<Rightarrow>
            (if list_all (\<lambda>(_, cs). cs = first_coords) ((v, first_coords) # rest) then Inr first_coords
             else Inl (MixedDimensionality (dim_groups ((v, first_coords) # rest) []))))"

section \<open>Array ranges\<close>

definition coord_ranges_to_array_ranges :: "(nat \<times> nat) list \<Rightarrow> (nat \<times> nat) list" where
  "coord_ranges_to_array_ranges rs = map (\<lambda>(s, e). (s, e)) rs"

text \<open>
  \<open>None\<close> is the panic: an \<open>Indices\<close> selection, or a matched coordinate without a range.  The size
  matching loop keeps no record of the coordinates it used.
\<close>

definition matched_range :: "nat list \<Rightarrow> (nat \<times> nat) list \<Rightarrow> nat \<Rightarrow> (nat \<times> nat) option" where
  "matched_range coord_sizes rs d =
     (case position (\<lambda>s. s = d) coord_sizes of
        None \<Rightarrow> Some (0, d)
      | Some i \<Rightarrow> (if i < length rs then Some (rs ! i) else None))"

definition match_ranges_to_data_var ::
    "nat list \<Rightarrow> CoordSelection list \<Rightarrow> nat list \<Rightarrow> (nat \<times> nat) list option option" where
  "match_ranges_to_data_var coord_sizes sels data_var_shape =
     (case collect_options (map as_range sels) of
        None \<Rightarrow> None
      | Some rs \<Rightarrow>
          (if length rs = length data_var_shape then Some (Some (coord_ranges_to_array_ranges rs))
           else
             case collect_options (map (matched_range coord_sizes rs) data_var_shape) of
               None \<Rightarrow> None
             | Some matched \<Rightarrow> Some (if length matched = length data_var_shape then Some matched else None)))"

section \<open>Lemmas\<close>

lemma first_unused_Some:
  assumes "first_unused used coord_sizes d = Some i" "length used = length coord_sizes"
  shows "i < length coord_sizes" "\<not> used ! i" "coord_sizes ! i = d"
  using position_Some [OF assms(1) [unfolded first_unused_def]] assms(2) by auto

text \<open>The coordinates marked as used are those matched so far.\<close>

definition match_inv :: "nat list \<Rightarrow> nat list \<Rightarrow> bool list \<Rightarrow> bool" where
  "match_inv coord_sizes matched used \<longleftrightarrow>
     length used = length coord_sizes \<and> distinct matched \<and> (\<forall>i \<in> set matched. i < length coord_sizes) \<and>
     (\<forall>i < length coord_sizes. used ! i \<longleftrightarrow> i \<in> set matched)"

lemma match_inv_step:
  assumes "match_inv coord_sizes matched used" "first_unused used coord_sizes d = Some i"
  shows "match_inv coord_sizes (matched @ [i]) (used[i := True])"
  using assms first_unused_Some [OF assms(2)] by (auto simp: match_inv_def nth_list_update)

lemma match_shape_loop_correct:
  assumes "match_inv coord_sizes matched used"
  shows "(\<exists>used'. match_inv coord_sizes (match_shape_loop coord_sizes ds matched used) used') \<and>
    length (match_shape_loop coord_sizes ds matched used) \<le> length matched + length ds \<and>
    (length (match_shape_loop coord_sizes ds matched used) = length matched + length ds \<longrightarrow>
       map ((!) coord_sizes) (match_shape_loop coord_sizes ds matched used) = map ((!) coord_sizes) matched @ ds)"
  using assms
proof (induction coord_sizes ds matched used rule: match_shape_loop.induct)
  case (2 coord_sizes d ds matched used)
  show ?case
  proof (cases "first_unused used coord_sizes d")
    case None
    then show ?thesis using "2.IH"(1) [OF None "2.prems"] by auto
  next
    case (Some i)
    have "coord_sizes ! i = d" using first_unused_Some(3) [OF Some] "2.prems" by (simp add: match_inv_def)
    then show ?thesis using "2.IH"(2) [OF Some match_inv_step [OF "2.prems" Some]] Some by auto
  qed
qed auto

lemma match_inv_init: "match_inv coord_sizes [] (replicate (length coord_sizes) False)"
  by (simp add: match_inv_def)

section \<open>Properties\<close>

text \<open>Matching a variable's shape to the coordinates by size uses no coordinate twice, stays in range, and when
  every dimension finds a coordinate the matched coordinates have exactly the variable's shape.\<close>

theorem shape_matching_correct:
  "distinct (match_shape_to_coords var_shape coord_sizes) \<and>
   (\<forall>i \<in> set (match_shape_to_coords var_shape coord_sizes). i < length coord_sizes) \<and>
   (length (match_shape_to_coords var_shape coord_sizes) = length var_shape \<longrightarrow>
      map ((!) coord_sizes) (match_shape_to_coords var_shape coord_sizes) = var_shape)"
  using match_shape_loop_correct [OF match_inv_init, of coord_sizes var_shape]
  by (auto simp: match_shape_to_coords_def match_inv_def)

theorem shape_matching_correct_witness:
  "map ((!) [277, 37, 124, 116]) (match_shape_to_coords [277, 124, 116] [277, 37, 124, 116]) = [277, 124, 116 :: nat]"
proof -
  have "length (match_shape_to_coords [277, 124, 116] [277, 37, 124, 116]) = length [277, 124, 116 :: nat]"
    by (simp add: match_shape_to_coords_def first_unused_def numeral_2_eq_2 numeral_3_eq_3)
  then show ?thesis using shape_matching_correct [of "[277, 124, 116]" "[277, 37, 124, 116]"] by blast
qed

text \<open>A variable with dimension names that are all coordinates is matched by name: the result lists, in the
  order of the dimensions, the positions of their names.\<close>

theorem name_matching_exact:
  assumes "set dims \<subseteq> set coord_names"
  shows "map ((!) coord_names) (get_variable_coords var_shape (Some dims) coord_names coord_sizes) = dims"
proof -
  define f where "f d = position (\<lambda>c. c = d) coord_names" for d
  have p: "\<exists>i. f d = Some i \<and> i < length coord_names \<and> coord_names ! i = d" if "d \<in> set dims" for d
    using assms that position_Some [of "\<lambda>c. c = d" coord_names] position_None [of "\<lambda>c. c = d" coord_names]
    by (cases "f d") (auto simp: f_def)
  then have m: "List.map_filter f dims = map (the \<circ> f) dims"
    by (intro map_filter_all) (fastforce simp: list_all_iff)
  have "get_variable_coords var_shape (Some dims) coord_names coord_sizes = map (the \<circ> f) dims"
    using m by (simp add: get_variable_coords_def f_def [abs_def] Let_def)
  moreover have "coord_names ! the (f d) = d" if "d \<in> set dims" for d using p [OF that] by auto
  ultimately show ?thesis by (auto intro!: map_idI)
qed

theorem name_matching_exact_witness:
  "map ((!) [''time'', ''level'', ''lat'']) (get_variable_coords [9, 4] (Some [''time'', ''lat'']) [''time'', ''level'', ''lat''] [9, 3, 4])
     = [''time'', ''lat'']"
  by (rule name_matching_exact) simp

definition demo_var :: "string \<Rightarrow> string list \<Rightarrow> rat ZarrArrayMeta" where
  "demo_var n dims = \<lparr>meta_name = n, data_type = ''float32'', shape = map (\<lambda>_. 2) dims, chunks = None, coord_min_max = None,
     cf_time_attrs = None, dimensions = Some dims\<rparr>"

text \<open>
  The coordinates of the variables are compared as lists: two variables that span the same coordinates, stored with
  their dimensions in another order, are rejected as spanning different ones.
\<close>

lemma same_coords_other_order_rejected:
  "\<exists>e. determine_effective_coords [''t2m'', ''q''] [] [demo_var ''t2m'' [''time'', ''level''], demo_var ''q'' [''level'', ''time'']]
      [''time'', ''level''] [2, 2] None = Inl e"
  by (simp add: determine_effective_coords_def variable_coord_sets_def demo_var_def get_variable_coords_def List.map_filter_simps)

text \<open>Matching the selections to a data variable panics exactly when a selection is scattered; otherwise it
  yields one range per dimension of the variable.\<close>

theorem match_ranges_panics_iff_scattered:
  assumes "length coord_sizes = length sels"
  shows "case match_ranges_to_data_var coord_sizes sels data_var_shape of
      None \<Rightarrow> \<exists>v. SelIndices v \<in> set sels
    | Some r \<Rightarrow> (\<forall>v. SelIndices v \<notin> set sels) \<and> (\<exists>rs. r = Some rs \<and> length rs = length data_var_shape)"
proof (cases "\<exists>v. SelIndices v \<in> set sels")
  case True
  then have "None \<in> set (map as_range sels)" by (force simp: image_iff)
  then have "match_ranges_to_data_var coord_sizes sels data_var_shape = None"
    unfolding match_ranges_to_data_var_def collect_options_iff by simp
  then show ?thesis using True by simp
next
  case False
  have "as_range s \<noteq> None" if "s \<in> set sels" for s using False that by (cases s) auto
  then have rs: "None \<notin> set (map as_range sels)" by force
  have "matched_range coord_sizes (map the (map as_range sels)) d \<noteq> None" for d
    using position_Some [of "\<lambda>s. s = d" coord_sizes] assms by (auto simp: matched_range_def split: option.splits)
  then have "None \<notin> set (map (matched_range coord_sizes (map the (map as_range sels))) data_var_shape)"
    by (metis (no_types, lifting) imageE list.set_map)
  then show ?thesis
    using False rs unfolding match_ranges_to_data_var_def collect_options_iff
    by (simp add: coord_ranges_to_array_ranges_def)
qed

theorem match_ranges_panics_iff_scattered_witness:
  "case match_ranges_to_data_var [9, 3, 4] [SelRange 2 5, SelRange 0 3, SelRange 1 2] [9, 4] of
      None \<Rightarrow> \<exists>v. SelIndices v \<in> set [SelRange 2 5, SelRange 0 3, SelRange 1 2]
    | Some r \<Rightarrow> (\<forall>v. SelIndices v \<notin> set [SelRange 2 5, SelRange 0 3, SelRange 1 2]) \<and>
        (\<exists>rs. r = Some rs \<and> length rs = length [9, 4 :: nat])"
  by (rule match_ranges_panics_iff_scattered) simp

text \<open>The size matching of array ranges takes the first coordinate of a size for every dimension of that size.  A
  variable over latitude and longitude of equal size, in a table with a time coordinate, has the latitude range
  applied to both of its dimensions.\<close>

theorem equal_sizes_share_a_range:
  "match_ranges_to_data_var [9, 4, 4] [SelRange 0 9, SelRange 1 2, SelRange 0 4] [4, 4] = Some (Some [(1, 2), (1, 2)]) \<and>
   match_shape_to_coords [4, 4] [9, 4, 4] = [1, 2]"
  by (simp add: match_ranges_to_data_var_def matched_range_def match_shape_to_coords_def first_unused_def)

end
