(* ===== verification/Read_Plan.thy ===== *)
theory Read_Plan
  imports Var_Dims Coord_Values
begin

text \<open>
  The reads of one data variable (\<open>src/reader/zarr_reader.rs\<close>): read plans for contiguous and
  scattered selections, the bucketing of scattered outer positions by chunk, and the gathering of
  the surviving rows.  zarrs' retrieval of an array subset is the parameter \<open>retrieve\<close>.  The lemmas show
  that, whichever plan is chosen, the column read is the variable at exactly the selected cells in
  row-major order.
\<close>

section \<open>Errors\<close>

datatype ReadError =
    Panic
  | StoreError string
  | ConcatEmpty
  | SchemaMismatch
  | PlanError ProjectionError
  | ResourcesExhausted nat nat

type_synonym 'a read_result = "ReadError + 'a"

section \<open>Plans\<close>

datatype Keep = KeepAll | KeepOffsets nat "nat list"

record ReadPlan =
  subset :: "(nat \<times> nat) list"
  keep :: Keep

text \<open>The last bucket is open; offsets are \<open>usize\<close> differences.\<close>

definition bucket_step :: "nat \<Rightarrow> (nat \<times> nat \<times> nat list) list \<Rightarrow> nat \<Rightarrow> (nat \<times> nat \<times> nat list) list" where
  "bucket_step chunk_len bs idx =
     (case rev bs of
        [] \<Rightarrow> [(idx, idx + 1, [0])]
      | (start, stop, offsets) # rest \<Rightarrow>
          (if idx div chunk_len = start div chunk_len
           then rev rest @ [(start, idx + 1, offsets @ [u64 (idx + 2 ^ 64 - start)])]
           else bs @ [(idx, idx + 1, [0])]))"

definition bucket_outer_indices :: "nat list \<Rightarrow> nat \<Rightarrow> (nat \<times> nat \<times> nat list) list" where
  "bucket_outer_indices ixs chunk_len = (if chunk_len = 0 then [] else foldl (bucket_step chunk_len) [] ixs)"

definition full_ranges :: "nat list \<Rightarrow> (nat \<times> nat) list" where
  "full_ranges sh = map (\<lambda>s. (0, s)) sh"

definition ranges_or_full :: "nat list \<Rightarrow> CoordSelection list \<Rightarrow> nat list \<Rightarrow> (nat \<times> nat) list option" where
  "ranges_or_full coord_sizes sels data_var_shape =
     map_option (\<lambda>r. case r of Some rs \<Rightarrow> rs | None \<Rightarrow> full_ranges data_var_shape)
       (match_ranges_to_data_var coord_sizes sels data_var_shape)"

definition subset_for :: "nat list \<Rightarrow> CoordSelection list \<Rightarrow> nat list \<Rightarrow> nat \<Rightarrow> CoordSelection \<Rightarrow> (nat \<times> nat) list option" where
  "subset_for coord_sizes sels data_var_shape pos repl = ranges_or_full coord_sizes (sels[pos := repl]) data_var_shape"

fun is_indices :: "CoordSelection \<Rightarrow> bool" where
  "is_indices (SelIndices v) = True"
| "is_indices (SelRange s e) = False"

definition outer_chunk_len :: "nat list \<Rightarrow> nat list option \<Rightarrow> nat \<Rightarrow> nat option" where
  "outer_chunk_len data_var_shape data_var_chunks coord_size =
     (case (data_var_chunks, position (\<lambda>d. d = coord_size) data_var_shape) of
        (Some cs, Some 0) \<Rightarrow> (case cs of [] \<Rightarrow> None | c # _ \<Rightarrow> (if c > 1 then Some c else None))
      | _ \<Rightarrow> None)"

text \<open>\<open>None\<close> is a panic of \<open>match_ranges_to_data_var\<close> or of an index out of range.\<close>

definition scattered_plans ::
    "CoordSelection list \<Rightarrow> nat list \<Rightarrow> nat list \<Rightarrow> nat list option \<Rightarrow> nat \<Rightarrow> nat list \<Rightarrow> ReadPlan list option" where
  "scattered_plans sels coord_sizes data_var_shape data_var_chunks pos ixs =
     (if \<not> pos < length coord_sizes then None
      else
        let buckets =
          (case outer_chunk_len data_var_shape data_var_chunks (coord_sizes ! pos) of
             Some c \<Rightarrow> bucket_outer_indices ixs c | None \<Rightarrow> [])
        in if buckets \<noteq> [] then
             collect_options (map (\<lambda>(start, stop, offsets).
               map_option (\<lambda>r. \<lparr>subset = r, keep = KeepOffsets (stop - start) offsets\<rparr>)
                 (subset_for coord_sizes sels data_var_shape pos (SelRange start stop))) buckets)
           else
             collect_options (map (\<lambda>idx.
               map_option (\<lambda>r. \<lparr>subset = r, keep = KeepAll\<rparr>)
                 (subset_for coord_sizes sels data_var_shape pos (SelRange idx (idx + 1)))) ixs))"

definition build_read_plans ::
    "CoordSelection list \<Rightarrow> nat list \<Rightarrow> nat list \<Rightarrow> nat list option \<Rightarrow> ReadPlan list option" where
  "build_read_plans sels coord_sizes data_var_shape data_var_chunks =
     (case position is_indices sels of
        None \<Rightarrow>
          map_option (\<lambda>r. [\<lparr>subset = r, keep = KeepAll\<rparr>]) (ranges_or_full coord_sizes sels data_var_shape)
      | Some pos \<Rightarrow>
          scattered_plans sels coord_sizes data_var_shape data_var_chunks pos (positions (sels ! pos)))"

section \<open>Reading\<close>

text \<open>\<open>Array::slice\<close> panics when the segment is not within the array.\<close>

definition slice_array :: "'v list \<Rightarrow> nat \<Rightarrow> nat \<Rightarrow> 'v list read_result" where
  "slice_array arr off len' = (if off + len' \<le> length arr then Inr (take len' (drop off arr)) else Inl Panic)"

text \<open>\<open>arrow::compute::concat\<close> fails on no arrays.\<close>

definition concat_arrays :: "'v list list \<Rightarrow> 'v list read_result" where
  "concat_arrays parts = (if parts = [] then Inl ConcatEmpty else Inr (concat parts))"

fun apply_keep :: "'v list \<Rightarrow> Keep \<Rightarrow> 'v list read_result" where
  "apply_keep arr KeepAll = Inr arr"
| "apply_keep arr (KeepOffsets window_len offsets) =
     (let inner = (if window_len = 0 then 0 else length arr div window_len) in
      case collect_results (map (\<lambda>off. slice_array arr (off * inner) inner) offsets) of
        Inl e \<Rightarrow> Inl e
      | Inr parts \<Rightarrow> concat_arrays parts)"

type_synonym 'v retrieve = "string \<Rightarrow> (nat \<times> nat) list \<Rightarrow> 'v list read_result"

definition read_part :: "'v retrieve \<Rightarrow> string \<Rightarrow> ReadPlan \<Rightarrow> 'v list read_result" where
  "read_part retrieve name p =
     (case retrieve name (subset p) of Inl e \<Rightarrow> Inl e | Inr raw \<Rightarrow> apply_keep raw (keep p))"

definition read_plans :: "'v retrieve \<Rightarrow> string \<Rightarrow> ReadPlan list \<Rightarrow> 'v list read_result" where
  "read_plans retrieve name plans =
     (case collect_results (map (read_part retrieve name) plans) of
        Inl e \<Rightarrow> Inl e
      | Inr parts \<Rightarrow> (if length parts = 1 then Inr (hd parts) else concat_arrays parts))"

text \<open>A data variable column of a batch: \<open>sels = None\<close> reads the whole array.\<close>

definition read_variable ::
    "'v retrieve \<Rightarrow> string \<Rightarrow> nat list \<Rightarrow> nat list option \<Rightarrow> nat list \<Rightarrow> CoordSelection list option \<Rightarrow> 'v list read_result" where
  "read_variable retrieve name var_shape var_chunks coord_sizes sels =
     (case (case sels of
              Some ss \<Rightarrow> build_read_plans ss coord_sizes var_shape var_chunks
            | None \<Rightarrow> Some [\<lparr>subset = full_ranges var_shape, keep = KeepAll\<rparr>]) of
        None \<Rightarrow> Inl Panic
      | Some plans \<Rightarrow> read_plans retrieve name plans)"

section \<open>Buckets\<close>

text \<open>What a bucket holds: a window within one chunk and the offsets of its survivors.\<close>

fun bucket_indices :: "nat \<times> nat \<times> nat list \<Rightarrow> nat list" where
  "bucket_indices (start, stop, offsets) = map ((+) start) offsets"

definition bucket_ok :: "nat \<Rightarrow> nat \<times> nat \<times> nat list \<Rightarrow> bool" where
  "bucket_ok c b \<longleftrightarrow>
     (case b of (start, stop, offsets) \<Rightarrow>
        start < stop \<and> (\<forall>o' \<in> set offsets. start + o' < stop) \<and> (stop - 1) div c = start div c \<and>
        stop - 1 \<in> set (bucket_indices b))"

lemma bucket_step_correct:
  assumes "list_all (bucket_ok c) bs" "\<forall>x \<in> set (concat (map bucket_indices bs)). x < idx" "idx < index_bound"
    "\<forall>b \<in> set bs. fst b \<le> idx"
  shows "list_all (bucket_ok c) (bucket_step c bs idx)"
    "concat (map bucket_indices (bucket_step c bs idx)) = concat (map bucket_indices bs) @ [idx]"
    "bucket_step c bs idx \<noteq> []" "\<forall>b \<in> set (bucket_step c bs idx). fst b \<le> idx"
proof -
  have "list_all (bucket_ok c) (bucket_step c bs idx) \<and>
    concat (map bucket_indices (bucket_step c bs idx)) = concat (map bucket_indices bs) @ [idx] \<and>
    bucket_step c bs idx \<noteq> [] \<and> (\<forall>b \<in> set (bucket_step c bs idx). fst b \<le> idx)"
  proof (cases bs rule: rev_exhaust)
    case Nil
    then show ?thesis by (simp add: bucket_step_def bucket_ok_def)
  next
    case (snoc rest b)
    obtain start stop offs where b: "b = (start, stop, offs)" by (cases b)
    have le: "start \<le> idx" using assms(4) snoc b by simp
    have u: "u64 (idx + 2 ^ 64 - start) = idx - start" using assms(3) le by (intro u64_sub) (auto simp: index_bound_def)
    have ok: "bucket_ok c (start, stop, offs)" using assms(1) snoc b by simp
    have lt: "\<forall>o' \<in> set offs. start + o' < idx" using assms(2) snoc b by simp
    show ?thesis
    proof (cases "idx div c = start div c")
      case True
      have "bucket_ok c (start, idx + 1, offs @ [idx - start])"
        using True le lt by (auto simp: bucket_ok_def)
      then show ?thesis using snoc b True assms(1,4) u le by (simp add: bucket_step_def)
    next
      case False
      then show ?thesis using snoc b assms(1,4) by (auto simp: bucket_step_def bucket_ok_def)
    qed
  qed
  then show "list_all (bucket_ok c) (bucket_step c bs idx)"
    "concat (map bucket_indices (bucket_step c bs idx)) = concat (map bucket_indices bs) @ [idx]"
    "bucket_step c bs idx \<noteq> []" "\<forall>b \<in> set (bucket_step c bs idx). fst b \<le> idx" by blast+
qed

lemma buckets_correct:
  assumes "sorted ixs" "distinct ixs" "\<forall>x \<in> set ixs. x < index_bound" "0 < c"
  shows "list_all (bucket_ok c) (bucket_outer_indices ixs c)"
    "concat (map bucket_indices (bucket_outer_indices ixs c)) = ixs"
    "ixs \<noteq> [] \<Longrightarrow> bucket_outer_indices ixs c \<noteq> []"
proof -
  have "list_all (bucket_ok c) (foldl (bucket_step c) [] ixs) \<and>
    concat (map bucket_indices (foldl (bucket_step c) [] ixs)) = ixs \<and>
    (ixs \<noteq> [] \<longrightarrow> foldl (bucket_step c) [] ixs \<noteq> []) \<and>
    (\<forall>b \<in> set (foldl (bucket_step c) [] ixs). fst b \<le> last ixs)"
    using assms(1-3)
  proof (induction ixs rule: rev_induct)
    case (snoc x xs)
    define bs where "bs = foldl (bucket_step c) [] xs"
    have IH: "list_all (bucket_ok c) bs" "concat (map bucket_indices bs) = xs" "\<forall>b \<in> set bs. fst b \<le> last xs"
      using snoc by (auto simp: bs_def sorted_append)
    have lt: "\<forall>y \<in> set xs. y < x" using snoc.prems(1,2) by (auto simp: sorted_append less_le)
    have "\<forall>b \<in> set bs. fst b \<le> x"
    proof (cases "xs = []")
      case True
      then have "bs = []" by (simp add: bs_def)
      then show ?thesis by simp
    next
      case False
      then have "last xs < x" using lt by simp
      then show ?thesis using IH(3) by (meson le_trans less_imp_le)
    qed
    then show ?case
      using bucket_step_correct [OF IH(1), of x] IH(2) lt snoc.prems(3) by (simp add: bs_def [symmetric])
  qed simp
  then show "list_all (bucket_ok c) (bucket_outer_indices ixs c)"
    "concat (map bucket_indices (bucket_outer_indices ixs c)) = ixs"
    "ixs \<noteq> [] \<Longrightarrow> bucket_outer_indices ixs c \<noteq> []"
    using assms(4) by (simp_all add: bucket_outer_indices_def)
qed

section \<open>The column read\<close>

text \<open>zarrs returns the elements of a subset within the array in row-major order.\<close>

abbreviation range_lists :: "(nat \<times> nat) list \<Rightarrow> nat list list" where
  "range_lists rs \<equiv> map (\<lambda>(s, e). [s..<e]) rs"

definition row_major_store :: "'v retrieve \<Rightarrow> string \<Rightarrow> nat list \<Rightarrow> (nat list \<Rightarrow> 'v) \<Rightarrow> bool" where
  "row_major_store retrieve name sh data \<longleftrightarrow>
     (\<forall>rs. list_all2 (\<lambda>(s, e) d. s \<le> e \<and> e \<le> d) rs sh \<longrightarrow>
        retrieve name rs = Inr (map data (product_lists (range_lists rs))))"

lemma collect_options_map: "(\<And>x. x \<in> set xs \<Longrightarrow> f x = Some (g x)) \<Longrightarrow> collect_options (map f xs) = Some (map g xs)"
  by (induction xs) auto

definition block :: "(nat list \<Rightarrow> 'v) \<Rightarrow> nat list list \<Rightarrow> nat \<Rightarrow> 'v list" where
  "block data inner x = map (\<lambda>p. data (x # p)) (product_lists inner)"

lemma map_product_Cons: "map data (product_lists (xs # inner)) = concat (map (block data inner) xs)"
  by (simp add: block_def [abs_def] map_concat comp_def)

lemma concat_block_slice:
  assumes "off < length xs" "\<And>x. x \<in> set xs \<Longrightarrow> length (f x) = n"
  shows "take n (drop (off * n) (concat (map f xs))) = f (xs ! off)" "off * n + n \<le> length (concat (map f xs))"
  using assms
proof (induction xs arbitrary: off)
  case (Cons x xs)
  { case 1 then show ?case using Cons.IH(1) by (cases off) auto }
  { case 2 then show ?case using Cons.IH(2) by (cases off) auto }
qed simp_all

lemma apply_keep_block:
  assumes "offs \<noteq> []" "\<forall>o' \<in> set offs. start + o' < stop"
  shows "apply_keep (concat (map (block data inner) [start..<stop])) (KeepOffsets (stop - start) offs) =
    Inr (concat (map (\<lambda>o'. block data inner (start + o')) offs))"
proof -
  define n where "n = length (product_lists inner)"
  have len: "length (block data inner x) = n" for x by (simp add: block_def n_def)
  have lt: "start < stop" using assms by (cases offs) auto
  have l: "length (concat (map (block data inner) [start..<stop])) = (stop - start) * n"
    by (simp add: length_concat comp_def len sum_list_triv)
  have "slice_array (concat (map (block data inner) [start..<stop])) (o' * n) n = Inr (block data inner (start + o'))"
    if "o' \<in> set offs" for o'
  proof -
    have o: "o' < length [start..<stop]" using assms(2) that by auto
    show ?thesis
      using concat_block_slice [OF o, of "block data inner" n] len o by (simp add: slice_array_def)
  qed
  then show ?thesis
    using lt assms(1) by (simp add: l collect_results_map concat_arrays_def)
qed

lemma read_plans_concat:
  assumes "\<And>p. p \<in> set plans \<Longrightarrow> read_part retrieve name p = Inr (g p)" "plans \<noteq> []"
  shows "read_plans retrieve name plans = Inr (concat (map g plans))"
proof -
  have c: "collect_results (map (read_part retrieve name) plans) = Inr (map g plans)"
    using assms(1) by (rule collect_results_map)
  show ?thesis
  proof (cases "length plans = 1")
    case True
    then obtain p where "plans = [p]" by (auto simp: length_Suc_conv)
    then show ?thesis using c by (simp add: read_plans_def)
  next
    case False
    then show ?thesis using c assms(2) by (simp add: read_plans_def concat_arrays_def)
  qed
qed

fun sel_in :: "CoordSelection \<Rightarrow> nat \<Rightarrow> bool" where
  "sel_in (SelRange s e) d \<longleftrightarrow> s \<le> e \<and> e \<le> d"
| "sel_in (SelIndices v) d \<longleftrightarrow> v \<noteq> [] \<and> sorted v \<and> distinct v \<and> (\<forall>x \<in> set v. x < d)"

lemma as_range_range: "\<not> is_indices s \<Longrightarrow> \<exists>a b. s = SelRange a b"
  by (cases s) auto

lemma ranges_of_ranges:
  assumes "list_all (\<lambda>s. \<not> is_indices s) sels" "length sels = length sh"
  shows "ranges_or_full coord_sizes sels sh = Some (map (\<lambda>s. the (as_range s)) sels)"
proof -
  have "collect_options (map as_range sels) = Some (map (\<lambda>s. the (as_range s)) sels)"
    using assms(1) by (intro collect_options_map) (auto simp: list_all_iff dest!: as_range_range)
  then show ?thesis
    using assms(2) by (simp add: ranges_or_full_def match_ranges_to_data_var_def coord_ranges_to_array_ranges_def case_prod_beta)
qed

lemma range_lists_positions:
  "list_all (\<lambda>s. \<not> is_indices s) sels \<Longrightarrow> range_lists (map (\<lambda>s. the (as_range s)) sels) = map positions sels"
  by (induction sels) (auto dest!: as_range_range)

lemma retrieve_ranges:
  assumes "row_major_store retrieve name sh data" "list_all (\<lambda>s. \<not> is_indices s) sels" "list_all2 sel_in sels sh"
  shows "retrieve name (map (\<lambda>s. the (as_range s)) sels) = Inr (map data (product_lists (map positions sels)))"
proof -
  have "list_all2 (\<lambda>(s, e) d. s \<le> e \<and> e \<le> d) (map (\<lambda>s. the (as_range s)) sels) sh"
    using assms(3,2) by (induction rule: list_all2_induct) (auto dest!: as_range_range)
  then have "retrieve name (map (\<lambda>s. the (as_range s)) sels) =
      Inr (map data (product_lists (range_lists (map (\<lambda>s. the (as_range s)) sels))))"
    using assms(1) unfolding row_major_store_def by blast
  then show ?thesis unfolding range_lists_positions [OF assms(2)] .
qed

text \<open>The scattered outer axis, read window by window.\<close>


lemma outer_window_read:
  assumes "row_major_store retrieve name (d # ds) data" "list_all (\<lambda>s. \<not> is_indices s) rest" "list_all2 sel_in rest ds"
    "a \<le> b" "b \<le> d"
  shows "subset_for coord_sizes (SelIndices v # rest) (d # ds) 0 (SelRange a b) =
      Some ((a, b) # map (\<lambda>s. the (as_range s)) rest)"
    "retrieve name ((a, b) # map (\<lambda>s. the (as_range s)) rest) =
      Inr (concat (map (block data (map positions rest)) [a..<b]))"
proof -
  have len: "length (SelRange a b # rest) = length (d # ds)" using assms(3) by (simp add: list_all2_lengthD)
  show "subset_for coord_sizes (SelIndices v # rest) (d # ds) 0 (SelRange a b) =
      Some ((a, b) # map (\<lambda>s. the (as_range s)) rest)"
    using ranges_of_ranges [of "SelRange a b # rest" "d # ds" coord_sizes] len assms(2) by (simp add: subset_for_def)
  show "retrieve name ((a, b) # map (\<lambda>s. the (as_range s)) rest) =
      Inr (concat (map (block data (map positions rest)) [a..<b]))"
    using retrieve_ranges [OF assms(1), of "SelRange a b # rest"] assms(2-5)
    by (simp add: map_product_Cons [symmetric] del: product_lists.simps)
qed

lemma scattered_read:
  assumes "row_major_store retrieve name (d # ds) data" "list_all (\<lambda>s. \<not> is_indices s) rest" "list_all2 sel_in rest ds"
    "sel_in (SelIndices v) d" "coord_sizes \<noteq> []" "d < index_bound"
  shows "\<exists>plans. scattered_plans (SelIndices v # rest) coord_sizes (d # ds) var_chunks 0 v = Some plans \<and>
    read_plans retrieve name plans = Inr (concat (map (block data (map positions rest)) v))"
proof -
  note w1 = outer_window_read(1) [OF assms(1-3), of _ _ coord_sizes v]
  note w2 = outer_window_read(2) [OF assms(1-3)]
  define B where "B = block data (map positions rest)"
  define rs where "rs = map (\<lambda>s. the (as_range s)) rest"
  have vok: "v \<noteq> []" "sorted v" "distinct v" "\<forall>x \<in> set v. x < d" using assms(4) by simp_all
  define buckets where "buckets = (case outer_chunk_len (d # ds) var_chunks (coord_sizes ! 0) of
      Some c \<Rightarrow> bucket_outer_indices v c | None \<Rightarrow> [])"
  show ?thesis
  proof (cases "buckets = []")
    case True
    define plans where "plans = map (\<lambda>i. \<lparr>subset = (i, i + 1) # rs, keep = KeepAll\<rparr>) v"
    have "scattered_plans (SelIndices v # rest) coord_sizes (d # ds) var_chunks 0 v = Some plans"
    proof -
      have "collect_options (map (\<lambda>idx. map_option (\<lambda>r. \<lparr>subset = r, keep = KeepAll\<rparr>)
          (subset_for coord_sizes (SelIndices v # rest) (d # ds) 0 (SelRange idx (idx + 1)))) v) = Some plans"
        unfolding plans_def using vok(4) by (intro collect_options_map) (auto simp: rs_def w1 Suc_le_eq)
      then show ?thesis
        unfolding scattered_plans_def Let_def buckets_def [symmetric] using True assms(5) by simp
    qed
    moreover have "read_plans retrieve name plans = Inr (concat (map (\<lambda>p. B (fst (hd (subset p)))) plans))"
      using vok w2 by (intro read_plans_concat) (auto simp: plans_def read_part_def rs_def B_def)
    ultimately show ?thesis by (simp add: plans_def B_def comp_def)
  next
    case False
    then obtain c where c: "outer_chunk_len (d # ds) var_chunks (coord_sizes ! 0) = Some c"
      and b: "buckets = bucket_outer_indices v c" by (auto simp: buckets_def split: option.splits)
    have "0 < c" using c by (auto simp: outer_chunk_len_def split: option.splits list.splits nat.splits if_splits)
    moreover have "\<forall>x \<in> set v. x < index_bound" using vok(4) assms(6) by (meson less_trans)
    ultimately have bok: "list_all (bucket_ok c) buckets" "concat (map bucket_indices buckets) = v"
      using buckets_correct(1,2) [OF vok(2,3)] b by simp_all
    have bd: "s < e \<and> e \<le> d \<and> offs \<noteq> [] \<and> (\<forall>o' \<in> set offs. s + o' < e)" if "(s, e, offs) \<in> set buckets" for s e offs
    proof -
      have "bucket_ok c (s, e, offs)" using bok(1) that by (auto simp: list_all_iff)
      moreover have "set (bucket_indices (s, e, offs)) \<subseteq> set v"
        unfolding bok(2) [symmetric] set_concat set_map using that by blast
      ultimately show ?thesis using vok(4) by (fastforce simp: bucket_ok_def)
    qed
    define plans where "plans = map (\<lambda>(s, e, offs). \<lparr>subset = (s, e) # rs, keep = KeepOffsets (e - s) offs\<rparr>) buckets"
    have "scattered_plans (SelIndices v # rest) coord_sizes (d # ds) var_chunks 0 v = Some plans"
    proof -
      have "collect_options (map (\<lambda>(start, stop, offsets).
          map_option (\<lambda>r. \<lparr>subset = r, keep = KeepOffsets (stop - start) offsets\<rparr>)
            (subset_for coord_sizes (SelIndices v # rest) (d # ds) 0 (SelRange start stop))) buckets) = Some plans"
        unfolding plans_def by (intro collect_options_map) (auto simp: rs_def w1 dest!: bd)
      then show ?thesis
        unfolding scattered_plans_def Let_def buckets_def [symmetric] using False assms(5) by simp
    qed
    moreover have "read_plans retrieve name plans =
        Inr (concat (map (\<lambda>p. case keep p of KeepOffsets n offs \<Rightarrow> concat (map (\<lambda>o'. B (fst (hd (subset p)) + o')) offs) | KeepAll \<Rightarrow> []) plans))"
      using False
      by (intro read_plans_concat) (auto simp: plans_def read_part_def rs_def B_def w2 apply_keep_block simp del: apply_keep.simps dest!: bd)
    moreover have "concat (map (\<lambda>p. case keep p of KeepOffsets n offs \<Rightarrow> concat (map (\<lambda>o'. B (fst (hd (subset p)) + o')) offs) | KeepAll \<Rightarrow> []) plans)
        = concat (map B v)"
    proof -
      have "concat (map B v) = concat (map (\<lambda>b. concat (map B (bucket_indices b))) buckets)"
        unfolding bok(2) [symmetric] by (induction buckets) simp_all
      moreover have "bucket_indices b = map ((+) (fst b)) (snd (snd b))" for b by (cases b) auto
      ultimately show ?thesis by (simp add: plans_def comp_def case_prod_beta)
    qed
    ultimately show ?thesis by (simp add: B_def)
  qed
qed

text \<open>A read may be exact for the selections whose scattered axis, if any, is the outermost.\<close>

definition readable :: "CoordSelection list \<Rightarrow> bool" where
  "readable sels \<longleftrightarrow> list_all (\<lambda>s. \<not> is_indices s) (tl sels)"

lemma read_variable_exact:
  assumes "row_major_store retrieve name sh data" "list_all2 sel_in sels sh" "readable sels" "sels \<noteq> []"
    "length coord_sizes = length sh" "list_all (\<lambda>d. d < index_bound) sh"
  shows "read_variable retrieve name sh ck coord_sizes (Some sels) = Inr (map data (product_lists (map positions sels)))"
proof -
  obtain s rest where sels: "sels = s # rest" using assms(4) by (cases sels) auto
  obtain d ds where sh: "sh = d # ds" using assms(2) sels by (cases sh) auto
  show ?thesis
  proof (cases s)
    case (SelRange a b)
    have r: "list_all (\<lambda>s. \<not> is_indices s) sels" using assms(3) sels SelRange by (simp add: readable_def)
    then have "position is_indices sels = None" by (simp add: position_None list_all_iff)
    then show ?thesis
      using ranges_of_ranges [OF r, of sh coord_sizes] retrieve_ranges [OF assms(1) r assms(2)] assms(2)
      by (simp add: read_variable_def build_read_plans_def read_plans_def read_part_def list_all2_lengthD)
  next
    case (SelIndices v)
    obtain plans where p: "scattered_plans sels coord_sizes sh ck 0 v = Some plans"
        "read_plans retrieve name plans = Inr (concat (map (block data (map positions rest)) v))"
      using scattered_read [of retrieve name d ds data rest v coord_sizes ck] assms sels sh SelIndices
      by (cases coord_sizes) (auto simp: readable_def)
    then show ?thesis
      using sels SelIndices by (simp add: read_variable_def build_read_plans_def map_product_Cons del: product_lists.simps)
  qed
qed

lemma bucket_chunks_increase:
  assumes "sorted ixs"
  shows "sorted_wrt (<) (map (\<lambda>b. fst b div c) (bucket_outer_indices ixs c))"
proof -
  have "sorted_wrt (<) (map (\<lambda>b. fst b div c) (foldl (bucket_step c) [] ixs)) \<and>
    (\<forall>b \<in> set (foldl (bucket_step c) [] ixs). fst b \<in> set ixs)"
    using assms
  proof (induction ixs rule: rev_induct)
    case (snoc x xs)
    define bs where "bs = foldl (bucket_step c) [] xs"
    have IH: "sorted_wrt (<) (map (\<lambda>b. fst b div c) bs)" "\<forall>b \<in> set bs. fst b \<in> set xs"
      using snoc by (auto simp: bs_def sorted_append)
    have le: "fst b div c \<le> x div c" if "b \<in> set bs" for b
      using IH(2) that snoc.prems by (auto simp: sorted_append intro: div_le_mono)
    have st: "foldl (bucket_step c) [] (xs @ [x]) = bucket_step c bs x" by (simp add: bs_def)
    have "sorted_wrt (<) (map (\<lambda>b. fst b div c) (bucket_step c bs x)) \<and>
        (\<forall>b \<in> set (bucket_step c bs x). fst b \<in> set (xs @ [x]))"
    proof (cases bs rule: rev_exhaust)
      case Nil
      then show ?thesis by (simp add: bucket_step_def)
    next
      case (snoc rest b)
      obtain s e os where b: "b = (s, e, os)" by (cases b)
      have top: "y div c \<le> s div c" if "(y, z) \<in> set rest" for y z
        using IH(1) snoc b that by (fastforce simp: sorted_wrt_append)
      show ?thesis
      proof (cases "x div c = s div c")
        case True
        then show ?thesis
          using IH snoc b by (simp add: bucket_step_def)
      next
        case False
        then have "s div c < x div c" using le [of b] snoc b by simp
        moreover from this have "fst b' div c < x div c" if "b' \<in> set bs" for b'
          using that snoc b top by (cases b') (auto intro: le_less_trans)
        ultimately show ?thesis
          using IH snoc b False by (auto simp: bucket_step_def sorted_wrt_append)
      qed
    qed
    then show ?case unfolding st .
  qed simp
  then show ?thesis by (simp add: bucket_outer_indices_def)
qed

section \<open>Properties\<close>

text \<open>C26: Reading a data variable under selections of which at most the outermost is scattered, one per dimension in the order
  of the dimensions, from a store in row-major order, yields the variable at exactly the selected cells, in row-major
  order, whether the outer axis is a contiguous range, scattered and bucketed by chunk, or scattered and read one index
  at a time.  A scattered inner axis is outside: see \<open>scattered_inner_axis_misorders\<close> and
  \<open>two_scattered_selections_panic\<close>.\<close>

theorem data_column_exact:
  assumes "row_major_store retrieve name sh data" "list_all2 sel_in sels sh" "readable sels" "sels \<noteq> []"
    "length coord_sizes = length sh" "list_all (\<lambda>d. d < index_bound) sh"
  shows "read_variable retrieve name sh ck coord_sizes (Some sels) = Inr (map data (product_lists (map positions sels)))"
  by (rule read_variable_exact [OF assms])

definition demo_retrieve :: "nat list retrieve" where
  "demo_retrieve name rs = Inr (product_lists (range_lists rs))"

lemma demo_retrieve_row_major: "row_major_store demo_retrieve name sh (\<lambda>p. p)"
  by (simp add: row_major_store_def demo_retrieve_def)

theorem data_column_exact_witness:
  "read_variable demo_retrieve ''t'' [8, 3] (Some [4, 3]) [8, 3] (Some [SelIndices [1, 3, 6], SelRange 0 3]) =
     Inr (map (\<lambda>p. p) (product_lists (map positions [SelIndices [1, 3, 6], SelRange 0 3])))"
  by (rule data_column_exact [OF demo_retrieve_row_major]) (simp_all add: readable_def index_bound_def)

text \<open>C29: Bucketing reads every occupied chunk once: the windows lie within one chunk each, in increasing and
  therefore distinct chunks, and their offsets give back exactly the surviving indices.\<close>

theorem buckets_one_read_per_chunk:
  assumes "sorted ixs" "distinct ixs" "list_all (\<lambda>x. x < index_bound) ixs" "0 < c"
  shows "concat (map (\<lambda>(start, stop, offsets). map ((+) start) offsets) (bucket_outer_indices ixs c)) = ixs \<and>
    list_all (\<lambda>(start, stop, offsets). start < stop \<and> (stop - 1) div c = start div c) (bucket_outer_indices ixs c) \<and>
    sorted_wrt (<) (map (\<lambda>b. fst b div c) (bucket_outer_indices ixs c))"
proof -
  have b: "\<forall>x \<in> set ixs. x < index_bound" using assms(3) by (simp add: list_all_iff)
  have "bucket_indices = (\<lambda>(start, stop, offsets). map ((+) start) offsets)" by (simp add: fun_eq_iff)
  then show ?thesis
    using buckets_correct(1,2) [OF assms(1,2) b assms(4)] bucket_chunks_increase [OF assms(1), of c]
    by (auto simp: list_all_iff bucket_ok_def)
qed

theorem buckets_one_read_per_chunk_witness:
  "concat (map (\<lambda>(start, stop, offsets). map ((+) start) offsets) (bucket_outer_indices [1, 3, 6] 4)) = [1, 3, 6]"
  using buckets_one_read_per_chunk [of "[1, 3, 6]" 4] by (simp add: index_bound_def)

text \<open>A scattered selection on an inner axis, as an IN list on latitude gives, is read one index at a time, and the
  column comes back with the inner axis varying slowest, not in the row-major order of the coordinate columns.\<close>

theorem scattered_inner_axis_misorders:
  "read_variable demo_retrieve ''t'' [2, 3] None [2, 3] (Some [SelRange 0 2, SelIndices [0, 2]]) =
     Inr [[0, 0], [1, 0], [0, 2], [1, 2]] \<and>
   product_lists (map positions [SelRange 0 2, SelIndices [0, 2]]) = [[0, 0], [0, 2], [1, 0], [1, 2]]"
  by (simp add: read_variable_def build_read_plans_def scattered_plans_def outer_chunk_len_def subset_for_def
      ranges_or_full_def match_ranges_to_data_var_def coord_ranges_to_array_ranges_def read_plans_def read_part_def
      demo_retrieve_def concat_arrays_def upt_rec)

text \<open>Two scattered selections, as a date part filter on time and an IN list on latitude give, make the
  read panic.\<close>

theorem two_scattered_selections_panic:
  assumes "i < j" "j < length sels" "is_indices (sels ! i)" "is_indices (sels ! j)" "length coord_sizes = length sels"
    "positions (sels ! i) \<noteq> []" "list_all (\<lambda>k. is_indices (sels ! k) \<longrightarrow> i \<le> k) [0..<length sels]"
  shows "read_variable retrieve name sh None coord_sizes (Some sels) = Inl Panic"
proof -
  have p: "position is_indices sels = Some i"
    using assms by (intro position_eqI) (auto simp: list_all_iff)
  obtain x xs where ix: "positions (sels ! i) = x # xs" using assms(6) by (cases "positions (sels ! i)") auto
  obtain v where "sels ! j = SelIndices v" using assms(4) by (cases "sels ! j") auto
  then have "SelIndices v \<in> set (sels[i := r])" for r
    using assms(1,2) by (metis length_list_update less_not_refl nth_list_update_neq nth_mem)
  then have "None \<in> set (map as_range (sels[i := r]))" for r
    by (metis as_range.simps(2) image_eqI list.set_map)
  then have "match_ranges_to_data_var coord_sizes (sels[i := r]) sh = None" for r
    unfolding match_ranges_to_data_var_def collect_options_iff by simp
  then have "subset_for coord_sizes sels sh i r = None" for r
    by (simp add: subset_for_def ranges_or_full_def)
  then have "build_read_plans sels coord_sizes sh None = None"
    using p ix assms(1,2,5) by (simp add: build_read_plans_def scattered_plans_def outer_chunk_len_def)
  then show ?thesis by (simp add: read_variable_def)
qed

theorem two_scattered_selections_panic_witness:
  "read_variable demo_retrieve ''t'' [4, 3] None [4, 3] (Some [SelIndices [0, 2], SelIndices [1]]) = Inl Panic"
  by (rule two_scattered_selections_panic [of 0 1]) (simp_all add: upt_rec)

end
