(* ===== verification/Cf_Time.thy ===== *)
theory Cf_Time
  imports Coord_Values
begin

text \<open>
  Decoding of CF time coordinates (\<open>src/reader/cf_time.rs\<close>): the units string, the reference date and the
  conversion of raw offsets to microseconds since the Unix epoch.  chrono's parsing of a date under a
  format is the parameter \<open>chrono\<close>, which gives the microseconds of the date.  Strings are
  bytes; trimming and lower case are those of ASCII.
\<close>

section \<open>Units\<close>

record CFTimeUnit =
  multiplier_us :: int
  epoch_offset_us :: int
  is_nanoseconds :: bool

definition cf_attrs_new :: "string \<Rightarrow> string option \<Rightarrow> CFTimeAttrs" where
  "cf_attrs_new u c = \<lparr>units = u, calendar = c\<rparr>"

definition nanoseconds_since_epoch :: CFTimeAttrs where
  "nanoseconds_since_epoch = \<lparr>units = ''nanoseconds since 1970-01-01'', calendar = None\<rparr>"

text \<open>The parts around the first occurrence of a separator.\<close>

fun split_once :: "string \<Rightarrow> string \<Rightarrow> (string \<times> string) option" where
  "split_once pat [] = (if pat = [] then Some ([], []) else None)"
| "split_once pat (c # cs) =
     (if take (length pat) (c # cs) = pat then Some ([], drop (length pat) (c # cs))
      else map_option (\<lambda>(a, b). (c # a, b)) (split_once pat cs))"

definition is_time_coordinate :: "CFTimeAttrs \<Rightarrow> bool" where
  "is_time_coordinate a \<longleftrightarrow> split_once '' since '' (units a) \<noteq> None"

definition is_space :: "char \<Rightarrow> bool" where
  "is_space c \<longleftrightarrow> (let n = (of_char c :: nat) in n = 32 \<or> (9 \<le> n \<and> n \<le> 13))"

definition trim :: "string \<Rightarrow> string" where
  "trim s = rev (dropWhile is_space (rev (dropWhile is_space s)))"

definition to_lower :: "char \<Rightarrow> char" where
  "to_lower c = (if 65 \<le> (of_char c :: nat) \<and> (of_char c :: nat) \<le> 90 then char_of ((of_char c :: nat) + 32) else c)"

datatype CfError = InvalidUnits string | UnsupportedUnit string | InvalidDate string

definition time_unit :: "string \<Rightarrow> (int \<times> bool) option" where
  "time_unit u =
     (if u \<in> {''nanosecond'', ''nanoseconds'', ''ns''} then Some (1, True)
      else if u \<in> {''microsecond'', ''microseconds'', ''us''} then Some (1, False)
      else if u \<in> {''millisecond'', ''milliseconds'', ''ms''} then Some (1000, False)
      else if u \<in> {''second'', ''seconds'', ''s''} then Some (1000000, False)
      else if u \<in> {''minute'', ''minutes'', ''min''} then Some (60000000, False)
      else if u \<in> {''hour'', ''hours'', ''h'', ''hr''} then Some (3600000000, False)
      else if u \<in> {''day'', ''days'', ''d''} then Some (86400000000, False)
      else None)"

text \<open>The formats in the order they are tried.\<close>

definition date_formats :: "string list" where
  "date_formats = [''%Y-%m-%d %H:%M:%S'', ''%Y-%m-%d %H:%M:%S%.f'', ''%Y-%m-%dT%H:%M:%S'', ''%Y-%m-%dT%H:%M:%S%.f'',
     ''%Y-%m-%d'']"

fun first_format :: "(string \<Rightarrow> string \<Rightarrow> int option) \<Rightarrow> string \<Rightarrow> string list \<Rightarrow> int option" where
  "first_format chrono s [] = None"
| "first_format chrono s (f # fs) = (case chrono f s of Some us \<Rightarrow> Some us | None \<Rightarrow> first_format chrono s fs)"

definition parse_reference_date :: "(string \<Rightarrow> string \<Rightarrow> int option) \<Rightarrow> string \<Rightarrow> CfError + int" where
  "parse_reference_date chrono s =
     (case first_format chrono (trim s) date_formats of Some us \<Rightarrow> Inr us | None \<Rightarrow> Inl (InvalidDate (trim s)))"

definition cf_parse :: "(string \<Rightarrow> string \<Rightarrow> int option) \<Rightarrow> CFTimeAttrs \<Rightarrow> CfError + CFTimeUnit" where
  "cf_parse chrono a =
     (case split_once '' since '' (units a) of
        None \<Rightarrow> Inl (InvalidUnits (units a))
      | Some (u, d) \<Rightarrow>
          (case time_unit (map to_lower (trim u)) of
             None \<Rightarrow> Inl (UnsupportedUnit (map to_lower (trim u)))
           | Some (m, ns) \<Rightarrow>
               (case parse_reference_date chrono (trim d) of
                  Inl e \<Rightarrow> Inl e
                | Inr us \<Rightarrow> Inr \<lparr>multiplier_us = m, epoch_offset_us = us, is_nanoseconds = ns\<rparr>)))"

section \<open>Decoding\<close>

definition decode_cf_time :: "int list \<Rightarrow> CFTimeUnit \<Rightarrow> int list" where
  "decode_cf_time vals u =
     (if is_nanoseconds u then map (\<lambda>v. i64 (epoch_offset_us u + v sdiv 1000)) vals
      else map (\<lambda>v. i64 (epoch_offset_us u + i64 (v * multiplier_us u))) vals)"

definition decode_cf_time_f64 :: "'f F64 \<Rightarrow> 'f list \<Rightarrow> CFTimeUnit \<Rightarrow> int list" where
  "decode_cf_time_f64 fl vals u =
     (if is_nanoseconds u
      then map (\<lambda>v. i64 (epoch_offset_us u + as_i64 (f_trunc fl (f_div fl v (f_of_int fl 1000))))) vals
      else map (\<lambda>v. i64 (epoch_offset_us u + as_i64 (f_trunc fl (f_mul fl v (f_of_int fl (multiplier_us u)))))) vals)"

fun convert_values :: "'f F64 \<Rightarrow> CFTimeUnit \<Rightarrow> 'f CoordValues \<Rightarrow> 'f CoordValues" where
  "convert_values fl u (Int64Values v) = TimestampMicros (decode_cf_time v u)"
| "convert_values fl u (Float64Values v) = TimestampMicros (decode_cf_time_f64 fl v u)"
| "convert_values fl u (Float32Values v) = TimestampMicros (decode_cf_time_f64 fl v u)"
| "convert_values fl u (TimestampMicros v) = TimestampMicros v"
| "convert_values fl u (Compact e t) = (if t then Compact e t else TimestampMicros (decode_cf_time (to_vec_i64 fl e) u))"

text \<open>The coordinate's name is used in a log message only.\<close>

definition apply_cf_time_conversion ::
    "'f F64 \<Rightarrow> (string \<Rightarrow> string \<Rightarrow> int option) \<Rightarrow> 'f CoordValues \<Rightarrow> CFTimeAttrs option \<Rightarrow> 'f CoordValues" where
  "apply_cf_time_conversion fl chrono raw attrs =
     (case attrs of
        None \<Rightarrow> raw
      | Some a \<Rightarrow>
          (if \<not> is_time_coordinate a then raw
           else case cf_parse chrono a of Inr u \<Rightarrow> convert_values fl u raw | Inl e \<Rightarrow> raw))"

section \<open>Lemmas\<close>

lemma sdiv_mono: "a \<le> b \<Longrightarrow> 0 < c \<Longrightarrow> a sdiv c \<le> b sdiv (c :: int)"
proof -
  assume ab: "a \<le> b" and c: "0 < c"
  have "a sdiv c = (if 0 \<le> a then a div c else - (- a div c))" for a
    using c by (auto simp: signed_divide_int_def sgn_if)
  then show ?thesis
    using ab c by (auto simp: zdiv_mono1 neg_le_0_iff_le pos_imp_zdiv_nonneg_iff intro: order.trans [of _ 0])
qed

lemma convert_values_len: "cv_len (convert_values fl u c) = cv_len c"
  by (cases c) (auto simp: decode_cf_time_def decode_cf_time_f64_def to_vec_i64_def)

text \<open>
  The meaning of a unit, on its own: the nanoseconds of one step.  Words are matched without regard to case.
\<close>

definition unit_nanos :: "string \<Rightarrow> int option" where
  "unit_nanos w =
     map_of ([(n, 1) . n \<leftarrow> [''nanosecond'', ''nanoseconds'', ''ns'']] @
       [(n, 10 ^ 3) . n \<leftarrow> [''microsecond'', ''microseconds'', ''us'']] @
       [(n, 10 ^ 6) . n \<leftarrow> [''millisecond'', ''milliseconds'', ''ms'']] @
       [(n, 10 ^ 9) . n \<leftarrow> [''second'', ''seconds'', ''s'']] @
       [(n, 60 * 10 ^ 9) . n \<leftarrow> [''minute'', ''minutes'', ''min'']] @
       [(n, 60 * 60 * 10 ^ 9) . n \<leftarrow> [''hour'', ''hours'', ''h'', ''hr'']] @
       [(n, 24 * 60 * 60 * 10 ^ 9) . n \<leftarrow> [''day'', ''days'', ''d'']]) (map to_lower w)"

lemma unit_nanos_unit:
  assumes "unit_nanos w = Some n"
  shows "\<exists>m ns. time_unit (map to_lower w) = Some (m, ns) \<and> n = (if ns then 1 else 1000 * m)"
    "list_all (\<lambda>c. \<not> is_space c) (map to_lower w)"
proof -
  define l where "l = map to_lower w"
  have u: "map_of ([(n, 1) . n \<leftarrow> [''nanosecond'', ''nanoseconds'', ''ns'']] @
       [(n, 10 ^ 3) . n \<leftarrow> [''microsecond'', ''microseconds'', ''us'']] @
       [(n, 10 ^ 6) . n \<leftarrow> [''millisecond'', ''milliseconds'', ''ms'']] @
       [(n, 10 ^ 9) . n \<leftarrow> [''second'', ''seconds'', ''s'']] @
       [(n, 60 * 10 ^ 9) . n \<leftarrow> [''minute'', ''minutes'', ''min'']] @
       [(n, 60 * 60 * 10 ^ 9) . n \<leftarrow> [''hour'', ''hours'', ''h'', ''hr'']] @
       [(n, 24 * 60 * 60 * 10 ^ 9) . n \<leftarrow> [''day'', ''days'', ''d'']]) l = Some n"
    using assms unfolding unit_nanos_def l_def .
  show "\<exists>m ns. time_unit (map to_lower w) = Some (m, ns) \<and> n = (if ns then 1 else 1000 * m)"
    unfolding l_def [symmetric] using u by (auto simp: time_unit_def split: if_splits)
  show "list_all (\<lambda>c. \<not> is_space c) (map to_lower w)"
    unfolding l_def [symmetric] using u by (auto simp: is_space_def split: if_splits)
qed

lemma is_space_to_lower: "is_space (to_lower c) \<longleftrightarrow> is_space c"
  by (auto simp: is_space_def to_lower_def Let_def)

lemma split_once_before:
  assumes "list_all (\<lambda>c. \<not> is_space c) w"
  shows "split_once '' since '' (w @ '' since '' @ d) = Some (w, d)"
  using assms by (induction w) (auto simp: is_space_def Let_def)

lemma trim_id:
  assumes "list_all (\<lambda>c. \<not> is_space c) w"
  shows "trim w = w"
proof -
  have *: "dropWhile is_space xs = xs" if "list_all (\<lambda>c. \<not> is_space c) xs" for xs
    using that by (cases xs) auto
  have "list_all (\<lambda>c. \<not> is_space c) (rev w)" using assms by (simp add: list_all_iff)
  then show ?thesis using * assms by (simp add: trim_def)
qed

lemma trim_trim: "trim (trim d) = trim d"
proof -
  let ?x = "dropWhile is_space d" and ?s = "trim d"
  have s: "?s = rev (dropWhile is_space (rev ?x))" by (simp add: trim_def)
  have x: "?x = ?s @ rev (takeWhile is_space (rev ?x))"
    unfolding s rev_append [symmetric] takeWhile_dropWhile_id by simp
  have "dropWhile is_space ?s = ?s"
  proof (cases ?s)
    case (Cons c cs)
    then have "?x \<noteq> []" "hd ?x = c" using x by (metis append_Cons list.distinct(1), metis append_Cons list.sel(1))
    then have "\<not> is_space c" using hd_dropWhile [of is_space d] by auto
    then show ?thesis using Cons by simp
  qed simp
  moreover have "dropWhile is_space (rev ?s) = rev ?s" by (simp add: s)
  ultimately show ?thesis by (simp add: trim_def [of "trim d"])
qed

text \<open>The units of a coordinate: a word, \<open>since\<close>, and a date chrono reads in one of the formats.\<close>

lemma cf_parse_exact:
  assumes "units a = w @ '' since '' @ d" "unit_nanos w = Some n" "first_format chrono (trim d) date_formats = Some us"
  shows "is_time_coordinate a"
    "\<exists>u. cf_parse chrono a = Inr u \<and> epoch_offset_us u = us \<and> n = (if is_nanoseconds u then 1 else 1000 * multiplier_us u)"
proof -
  obtain m ns where m: "time_unit (map to_lower w) = Some (m, ns)" "n = (if ns then 1 else 1000 * m)"
    using unit_nanos_unit(1) [OF assms(2)] by blast
  have w: "list_all (\<lambda>c. \<not> is_space c) w"
    using unit_nanos_unit(2) [OF assms(2)] by (simp add: list_all_iff is_space_to_lower)
  note sp = split_once_before [OF w, of d]
  show "is_time_coordinate a" by (simp add: is_time_coordinate_def assms(1) sp del: append_Cons)
  have "cf_parse chrono a = Inr \<lparr>multiplier_us = m, epoch_offset_us = us, is_nanoseconds = ns\<rparr>"
    using m(1) assms(3)
    by (simp add: cf_parse_def assms(1) sp trim_id [OF w] parse_reference_date_def trim_trim del: append_Cons)
  then show "\<exists>u. cf_parse chrono a = Inr u \<and> epoch_offset_us u = us \<and> n = (if is_nanoseconds u then 1 else 1000 * multiplier_us u)"
    using m(2) by auto
qed

lemma sdiv_cancel: "k * 1000 sdiv 1000 = (k :: int)"
proof -
  have "\<bar>k * 1000\<bar> div 1000 = \<bar>k\<bar>" by (simp add: abs_mult)
  then show ?thesis by (simp add: signed_divide_int_def sgn_mult sgn_mult_abs)
qed

lemma decode_cf_time_exact:
  assumes n: "n = (if is_nanoseconds u then 1 else 1000 * multiplier_us u)"
    and r: "list_all (\<lambda>v. i64_range (v * n sdiv 1000) \<and> i64_range (epoch_offset_us u + v * n sdiv 1000)) vals"
  shows "decode_cf_time vals u = map (\<lambda>v. epoch_offset_us u + v * n sdiv 1000) vals"
proof (cases "is_nanoseconds u")
  case True
  then show ?thesis using r n by (auto simp: decode_cf_time_def list_all_iff i64_id)
next
  case False
  then have "v * n = v * multiplier_us u * 1000" for v by (simp add: n)
  then have "v * n sdiv 1000 = v * multiplier_us u" for v by (simp only: sdiv_cancel)
  then show ?thesis using r False by (auto simp: decode_cf_time_def list_all_iff i64_id)
qed

text \<open>The decoded instants are in the order of the values.\<close>

lemma decoded_sorted:
  assumes "sorted vals" "0 < (n :: int)"
  shows "sorted (map (\<lambda>v. us + v * n sdiv 1000) vals)"
  using assms by (auto simp: sorted_map intro!: sdiv_mono mult_right_mono elim!: sorted_wrt_mono_rel [rotated])

section \<open>Properties\<close>

text \<open>C30: Decoding an integer time coordinate is exact: for every supported unit word, in any case, and every
  reference date chrono reads, a value \<open>v\<close> becomes the reference instant plus \<open>v\<close> units, in microseconds (truncated towards
  zero for nanoseconds), whether the values are explicit or compact, as long as the result fits 64 bits.  Floating point
  coordinates are not covered.\<close>

theorem cf_decoding_exact:
  assumes "units a = w @ '' since '' @ d" "unit_nanos w = Some n" "first_format chrono (trim d) date_formats = Some us"
    "list_all (\<lambda>v. i64_range (v * n sdiv 1000) \<and> i64_range (us + v * n sdiv 1000)) vals"
    "raw = Int64Values vals \<or> raw = Compact enc False \<and> to_vec_i64 fl enc = vals"
  shows "apply_cf_time_conversion fl chrono raw (Some a) = TimestampMicros (map (\<lambda>v. us + v * n sdiv 1000) vals)"
proof -
  note p = cf_parse_exact [OF assms(1-3)]
  obtain u where u: "cf_parse chrono a = Inr u" "epoch_offset_us u = us" "n = (if is_nanoseconds u then 1 else 1000 * multiplier_us u)"
    using p(2) by blast
  have "decode_cf_time vals u = map (\<lambda>v. us + v * n sdiv 1000) vals"
    using decode_cf_time_exact [OF u(3), of vals] assms(4) u(2) by simp
  then show ?thesis using assms(5) p(1) u(1) by (auto simp: apply_cf_time_conversion_def)
qed

theorem cf_decoding_exact_witness:
  "apply_cf_time_conversion exact_f64 (\<lambda>f s. if s = ''1970-01-02'' then Some 86400000000 else None) (Int64Values [-1, 0, 5])
      (Some \<lparr>units = ''Hours since 1970-01-02 '', calendar = None\<rparr>) =
    TimestampMicros [82800000000, 86400000000, 104400000000]"
proof -
  let ?chrono = "\<lambda>f s. if s = ''1970-01-02'' then Some 86400000000 else None"
  have "units \<lparr>units = ''Hours since 1970-01-02 '', calendar = None\<rparr> = ''Hours'' @ '' since '' @ ''1970-01-02 ''" by simp
  moreover have "unit_nanos ''Hours'' = Some 3600000000000" by code_simp
  moreover have "first_format ?chrono (trim ''1970-01-02 '') date_formats = Some 86400000000" by code_simp
  ultimately show ?thesis
    using cf_decoding_exact [of _ "''Hours''" "''1970-01-02 ''" 3600000000000 ?chrono 86400000000 "[-1, 0, 5]" "Int64Values [-1, 0, 5]"
        _ exact_f64] by (simp add: i64_range_def signed_divide_int_def)
qed

end
