(* ===== verification/Scan_Select.thy ===== *)
theory Scan_Select
  imports Partition Filter_Resolve Var_Dims Cf_Time Read_Plan
begin

text \<open>
  From a partition to the selections of a scan (\<open>src/reader/zarr_reader.rs\<close>, \<open>src/datasource/zarr.rs\<close>): the head
  resolves the filter of the outer coordinate and plans the partitions, fanning out over inner axes; a worker
  reads its window of the outer coordinate and restricts the selections to its partition.  The lemmas
  show that a worker extracts exactly its partition's values, and that the boxes planned for a scan
  cover it without overlap.
\<close>

section \<open>Selections of a scan\<close>

definition full_selections :: "nat list \<Rightarrow> CoordSelection list" where
  "full_selections coord_sizes = map (SelRange 0) coord_sizes"

definition calculate_effective_sizes :: "nat list \<Rightarrow> CoordSelection list option \<Rightarrow> nat list \<times> nat" where
  "calculate_effective_sizes coord_sizes sels =
     (case sels of
        Some ss \<Rightarrow> (map sel_len ss, calculate_filtered_rows ss)
      | None \<Rightarrow> (coord_sizes, product_usize coord_sizes))"

text \<open>\<open>None\<close> is a panic of slicing or gathering out of range.\<close>

fun extract_coord :: "'f F64 \<Rightarrow> 'f CoordValues \<Rightarrow> CoordSelection \<Rightarrow> 'f CoordValues option" where
  "extract_coord fl v (SelRange s e) = cv_slice fl v s e"
| "extract_coord fl v (SelIndices ixs) = cv_gather fl v ixs"

definition extract_filtered_coords ::
    "'f F64 \<Rightarrow> 'f CoordValues list \<Rightarrow> CoordSelection list option \<Rightarrow> 'f CoordValues list option" where
  "extract_filtered_coords fl vals sels =
     (case sels of
        Some ss \<Rightarrow> collect_options (map2 (extract_coord fl) vals ss)
      | None \<Rightarrow> Some vals)"

definition calculate_query_coord_sizes :: "nat list \<Rightarrow> nat list \<Rightarrow> nat list \<Rightarrow> nat \<Rightarrow> nat list \<times> nat" where
  "calculate_query_coord_sizes coord_sizes effective_coord_sizes effective_coord_indices effective_rows =
     (if length effective_coord_indices < length coord_sizes then
        let sizes = map ((!) effective_coord_sizes) effective_coord_indices
        in (sizes, product_usize sizes)
      else (effective_coord_sizes, effective_rows))"

definition restrict_to_partition ::
    "CoordSelection list option \<Rightarrow> nat \<Rightarrow> CoordSelection \<Rightarrow> nat list \<Rightarrow> CoordSelection list option" where
  "restrict_to_partition coord_ranges outer_coord_idx partition_sel coord_sizes =
     (let sels = (case coord_ranges of Some ss \<Rightarrow> ss | None \<Rightarrow> full_selections coord_sizes)
      in Some (sels[outer_coord_idx := partition_sel]))"

definition apply_extra :: "CoordSelection list \<Rightarrow> (nat \<times> CoordSelection) list \<Rightarrow> CoordSelection list" where
  "apply_extra sels ex = foldl (\<lambda>ss (i, s). if i < length ss then ss[i := s] else ss) sels ex"

definition outer_axis_len :: "'f ZarrStoreMeta \<Rightarrow> nat option" where
  "outer_axis_len meta = Option.bind (first_opt (data_vars meta)) (\<lambda>dv. first_opt (shape dv))"

definition apply_partition_selection ::
    "CoordSelection list option \<Rightarrow> CoordSelection option \<Rightarrow> (nat \<times> CoordSelection) list \<Rightarrow> 'f ZarrStoreMeta \<Rightarrow> nat list \<Rightarrow>
     CoordSelection list option" where
  "apply_partition_selection coord_ranges partition_selection partition_extra meta coord_sizes =
     (let after_outer =
        (case partition_selection of
           None \<Rightarrow> coord_ranges
         | Some sel \<Rightarrow>
             (case Option.bind (outer_axis_len meta) (\<lambda>n. position (\<lambda>s. s = n) coord_sizes) of
                None \<Rightarrow> coord_ranges
              | Some idx \<Rightarrow> restrict_to_partition coord_ranges idx sel coord_sizes))
      in if partition_extra = [] then after_outer
         else Some (apply_extra (case after_outer of Some ss \<Rightarrow> ss | None \<Rightarrow> full_selections coord_sizes) partition_extra))"

definition identify_outer_coord :: "'f ZarrStoreMeta \<Rightarrow> nat option" where
  "identify_outer_coord meta =
     Option.bind (outer_axis_len meta) (\<lambda>n. position (\<lambda>c. first_opt (shape c) = Some n) (coords meta))"

section \<open>The worker's window of the outer coordinate\<close>

fun plan_outer_coord_read :: "CoordSelection \<Rightarrow> nat \<times> nat \<times> CoordSelection" where
  "plan_outer_coord_read (SelRange s e) = (s, e, SelRange 0 (e - s))"
| "plan_outer_coord_read (SelIndices v) =
     (if v = [] then (0, 0, SelIndices [])
      else let lo = Min (set v); hi = Max (set v) in (lo, hi + 1, SelIndices (map (\<lambda>i. i - lo) v)))"

definition widen_to_chunks :: "nat \<Rightarrow> nat \<Rightarrow> nat option \<Rightarrow> nat \<Rightarrow> nat \<times> nat" where
  "widen_to_chunks start stop chunk_len len' =
     (case chunk_len of
        Some c \<Rightarrow>
          (if 0 < c \<and> start < stop then (start div c * c, min (saturating_mul (div_ceil stop c) c) len')
           else (start, stop))
      | None \<Rightarrow> (start, stop))"

fun shift_selection :: "CoordSelection \<Rightarrow> nat \<Rightarrow> CoordSelection" where
  "shift_selection (SelRange s e) by' = SelRange (s + by') (e + by')"
| "shift_selection (SelIndices v) by' = SelIndices (map (\<lambda>i. i + by') v)"

definition filters_without_outer :: "'f CoordFilters \<Rightarrow> nat option \<Rightarrow> string list \<Rightarrow> 'f CoordFilters" where
  "filters_without_outer fs outer_idx coord_names =
     (case outer_idx of
        Some i \<Rightarrow> (if map_of fs (coord_names ! i) \<noteq> None then filter (\<lambda>(c, ks). c \<noteq> coord_names ! i) fs else fs)
      | None \<Rightarrow> fs)"

definition make_extract_selections ::
    "CoordSelection list option \<Rightarrow> nat option \<Rightarrow> CoordSelection option \<Rightarrow> CoordSelection list option" where
  "make_extract_selections coord_ranges outer_idx outer_extract_sel =
     (case (coord_ranges, outer_idx, outer_extract_sel) of
        (Some ss, Some oi, Some es) \<Rightarrow> Some (ss[oi := es])
      | _ \<Rightarrow> coord_ranges)"

section \<open>Reading coordinates\<close>

text \<open>
  zarrs' retrieval of a coordinate's elements, as floats or as integers; narrower integers are
  widened to \<open>i64\<close> unchanged.
\<close>

record 'f coord_store =
  retrieve_float :: "string \<Rightarrow> (nat \<times> nat) list \<Rightarrow> 'f list read_result"
  retrieve_int :: "string \<Rightarrow> (nat \<times> nat) list \<Rightarrow> int list read_result"

definition map_result :: "('a \<Rightarrow> 'b) \<Rightarrow> 'a read_result \<Rightarrow> 'b read_result" where
  "map_result f r = (case r of Inl e \<Rightarrow> Inl e | Inr x \<Rightarrow> Inr (f x))"

definition read_coord_values :: "'f coord_store \<Rightarrow> string \<Rightarrow> (nat \<times> nat) list \<Rightarrow> string \<Rightarrow> 'f CoordValues read_result" where
  "read_coord_values st name sub dtype =
     (if dtype = ''float32'' then map_result Float32Values (retrieve_float st name sub)
      else if dtype = ''float64'' then map_result Float64Values (retrieve_float st name sub)
      else map_result Int64Values (retrieve_int st name sub))"

datatype OuterSelection = Resolved CoordSelection | Empty | Unfiltered

definition resolve_outer_selection ::
    "'f::{linorder,zero} F64 \<Rightarrow> (int \<Rightarrow> DateTime option) \<Rightarrow> (string \<Rightarrow> string \<Rightarrow> int option) \<Rightarrow> 'f coord_store \<Rightarrow>
     'f ZarrStoreMeta \<Rightarrow> 'f CoordFilters option \<Rightarrow> OuterSelection read_result" where
  "resolve_outer_selection fl decode chrono st meta filters =
     (case identify_outer_coord meta of
        None \<Rightarrow> Inr Unfiltered
      | Some idx \<Rightarrow>
          let coord = coords meta ! idx in
          (case Option.bind filters (\<lambda>fs. filters_get fs (meta_name coord)) of
             None \<Rightarrow> Inr Unfiltered
           | Some kinds \<Rightarrow>
               (case read_coord_values st (meta_name coord) (full_ranges (shape coord)) (data_type coord) of
                  Inl e \<Rightarrow> Inl e
                | Inr raw \<Rightarrow>
                    let vals = apply_cf_time_conversion fl chrono raw (cf_time_attrs coord) in
                    (case resolve_coord_selection fl decode (Some kinds) (coord_values_to_ref vals) of
                       Some sel \<Rightarrow> Inr (Resolved sel)
                     | None \<Rightarrow> Inr Empty))))"

section \<open>Planning the partitions\<close>

definition coord_index_for_axis :: "'f ZarrArrayMeta \<Rightarrow> nat \<Rightarrow> 'f ZarrStoreMeta \<Rightarrow> nat option" where
  "coord_index_for_axis data_var axis meta =
     Option.bind (dimensions data_var) (\<lambda>ds.
       if axis < length ds then position (\<lambda>c. meta_name c = ds ! axis) (coords meta) else None)"

definition candidate ::
    "'f ZarrStoreMeta \<Rightarrow> 'f ZarrArrayMeta \<Rightarrow> 'f CoordFilters option \<Rightarrow> nat \<Rightarrow> (nat \<times> nat \<times> nat \<times> nat) option" where
  "candidate meta data_var filters axis =
     (case coord_index_for_axis data_var axis meta of
        None \<Rightarrow> None
      | Some ci \<Rightarrow>
          (if Option.bind filters (\<lambda>fs. filters_get fs (meta_name (coords meta ! ci))) \<noteq> None then None
           else
             let ext = shape data_var ! axis;
                 cl = max (case chunks data_var of
                             Some cs \<Rightarrow> (if axis < length cs then cs ! axis else ext) | None \<Rightarrow> ext) 1;
                 n = div_ceil ext cl
             in if n > 1 then Some (ci, n, ext, cl) else None))"

text \<open>Sorting by coordinate index and then, stably, by the number of chunks gives the two-key order.\<close>

definition candidates ::
    "'f ZarrStoreMeta \<Rightarrow> 'f ZarrArrayMeta \<Rightarrow> 'f CoordFilters option \<Rightarrow> (nat \<times> nat \<times> nat \<times> nat) list" where
  "candidates meta data_var filters =
     sort_key (\<lambda>(ci, n, ext, cl). - int n) (sort_key fst
       (List.map_filter (candidate meta data_var filters) [1..<length (shape data_var)]))"

fun split_axes ::
    "nat \<Rightarrow> nat \<Rightarrow> (nat \<times> nat \<times> nat \<times> nat) list \<Rightarrow> (nat \<times> CoordSelection list) list" where
  "split_axes inner_budget acc [] = []"
| "split_axes inner_budget acc ((ci, n, ext, cl) # cs) =
     (let allowed = inner_budget div acc in
      if allowed \<le> 1 then []
      else
        let pieces = map outer (plan_partitions ext cl (min n allowed)) in
        if length pieces \<le> 1 then split_axes inner_budget acc cs
        else (ci, pieces) # split_axes inner_budget (acc * length pieces) cs)"

definition inner_combos :: "(nat \<times> CoordSelection list) list \<Rightarrow> (nat \<times> CoordSelection) list list" where
  "inner_combos axs =
     foldl (\<lambda>combos (ci, pieces). concat (map (\<lambda>combo. map (\<lambda>p. combo @ [(ci, p)]) pieces) combos)) [[]] axs"

definition fan_out_inner ::
    "PartitionSpec list \<Rightarrow> 'f ZarrStoreMeta \<Rightarrow> 'f ZarrArrayMeta \<Rightarrow> 'f CoordFilters option \<Rightarrow> nat \<Rightarrow> PartitionSpec list" where
  "fan_out_inner outer_specs meta data_var filters target =
     (let p_outer = length outer_specs in
      if p_outer \<ge> target \<or> (p_outer = 1 \<and> spec_is_empty (hd outer_specs)) then outer_specs
      else
        let inner_budget = target div p_outer in
        if inner_budget \<le> 1 then outer_specs
        else
          let axs = split_axes inner_budget 1 (candidates meta data_var filters) in
          if axs = [] then outer_specs
          else concat (map (\<lambda>o'. map (\<lambda>combo. with_extra (from_outer (outer o')) combo) (inner_combos axs)) outer_specs))"

text \<open>
  \<open>virtualizarr\<close> is the store's kind and \<open>outer_result\<close> the outcome of \<open>resolve_outer_selection\<close> on the head.  An
  empty list is a single unpartitioned read.
\<close>

definition plan_scan_partitions ::
    "nat option \<Rightarrow> bool \<Rightarrow> 'f ZarrStoreMeta option \<Rightarrow> nat \<Rightarrow> 'f CoordFilters option \<Rightarrow> OuterSelection read_result \<Rightarrow>
     PartitionSpec list" where
  "plan_scan_partitions limit virtualizarr store_meta target_partitions filters outer_result =
     (if limit \<noteq> None \<or> virtualizarr then []
      else case store_meta of None \<Rightarrow> [] | Some meta \<Rightarrow>
        (case first_opt (data_vars meta) of None \<Rightarrow> [] | Some data_var \<Rightarrow>
           let outer_len = unwrap_or (first_opt (shape data_var)) 0 in
           if \<not> list_ex (\<lambda>c. first_opt (shape c) = Some outer_len) (coords meta) then []
           else
             let chunk_len = unwrap_or (Option.bind (chunks data_var) first_opt) outer_len;
                 outer_specs =
                   (case outer_result of
                      Inr (Resolved sel) \<Rightarrow> map from_outer (split_selection sel chunk_len target_partitions)
                    | Inr Empty \<Rightarrow> [spec_range 0 0]
                    | Inr Unfiltered \<Rightarrow> plan_partitions outer_len chunk_len target_partitions
                    | Inl e \<Rightarrow> plan_partitions outer_len chunk_len target_partitions)
             in fan_out_inner outer_specs meta data_var filters target_partitions))"

section \<open>The worker extracts its partition\<close>

lemma plan_outer_coord_read_positions:
  assumes "plan_outer_coord_read sel = (rs, re, es)" "sel_wf sel"
  shows "map ((+) rs) (positions es) = positions sel" "list_all (\<lambda>i. i < re - rs) (positions es)" "rs \<le> re"
proof -
  have "map ((+) rs) (positions es) = positions sel \<and> list_all (\<lambda>i. i < re - rs) (positions es) \<and> rs \<le> re"
  proof (cases sel)
    case (SelRange s e)
    then show ?thesis using assms by (auto simp: list_all_iff map_add_upt intro!: nth_equalityI)
  next
    case (SelIndices v)
    show ?thesis
    proof (cases "v = []")
      case False
      have lo: "Min (set v) \<le> i" and hi: "i \<le> Max (set v)" if "i \<in> set v" for i using that by simp_all
      have v: "rs = Min (set v)" "re = Max (set v) + 1" "es = SelIndices (map (\<lambda>i. i - Min (set v)) v)"
        using assms(1) SelIndices False by (auto simp: Let_def)
      have "map ((+) rs) (positions es) = v" using v lo by (simp add: map_idI)
      moreover have "list_all (\<lambda>i. i < re - rs) (positions es)"
        unfolding list_all_iff
      proof
        fix i assume "i \<in> set (positions es)"
        then obtain k where "k \<in> set v" "i = k - Min (set v)" using v by auto
        then show "i < re - rs" using lo [of k] hi [of k] v by linarith
      qed
      moreover have "Min (set v) \<le> Max (set v)" using False by (meson List.finite_set Max_ge Min_in set_empty)
      ultimately show ?thesis using v SelIndices by simp
    qed (use assms SelIndices in auto)
  qed
  then show "map ((+) rs) (positions es) = positions sel" "list_all (\<lambda>i. i < re - rs) (positions es)" "rs \<le> re" by blast+
qed

section \<open>Updating one axis\<close>

lemma cells_update:
  assumes "i < length sels"
  shows "idx \<in> cells (sels[i := p]) \<longleftrightarrow>
    length idx = length sels \<and> idx ! i \<in> set (positions p) \<and>
    (\<forall>j < length sels. j \<noteq> i \<longrightarrow> idx ! j \<in> set (positions (sels ! j)))"
  using assms by (auto simp: listset_iff nth_list_update)

lemma cells_split_axis:
  assumes "i < length sels" "concat (map positions pieces) = positions (sels ! i)"
  shows "(\<Union>p \<in> set pieces. cells (sels[i := p])) = cells sels"
proof -
  have "(\<Union>p \<in> set pieces. set (positions p)) = set (positions (sels ! i))"
    using arg_cong [OF assms(2), of set] by simp
  then have "idx \<in> (\<Union>p \<in> set pieces. cells (sels[i := p])) \<longleftrightarrow> idx \<in> cells (sels[i := sels ! i])" for idx
    unfolding UN_iff cells_update [OF assms(1)] using assms(1) by (auto simp: set_eq_iff)
  then show ?thesis by (simp add: set_eq_iff)
qed

lemma prod_list_update_factor: "i < length xs \<Longrightarrow> prod_list (xs[i := a]) = a * prod_list (xs[i := 1 :: nat])"
  by (simp add: upd_conv_take_nth_drop ac_simps)

definition spans :: "CoordSelection list \<Rightarrow> nat" where
  "spans sels = prod_list (map (\<lambda>s. length (positions s)) sels)"

lemma spans_split_axis:
  assumes "i < length sels" "concat (map positions pieces) = positions (sels ! i)"
  shows "(\<Sum>p \<leftarrow> pieces. spans (sels[i := p])) = spans sels"
proof -
  define xs where "xs = map (\<lambda>s. length (positions s)) sels"
  have u: "spans (sels[i := p]) = length (positions p) * prod_list (xs[i := 1])" for p
    using assms(1) prod_list_update_factor [of i xs "length (positions p)"] by (simp add: spans_def xs_def map_update)
  have "sum_list (map (length \<circ> positions) pieces) = length (positions (sels ! i))"
    using arg_cong [OF assms(2), of length] by (simp add: length_concat)
  then have "(\<Sum>p \<leftarrow> pieces. spans (sels[i := p])) = length (positions (sels ! i)) * prod_list (xs[i := 1])"
    unfolding u by (simp add: sum_list_mult_const comp_def)
  then show ?thesis using u [of "sels ! i"] by simp
qed

section \<open>Boxes\<close>

text \<open>The axes to split: distinct, in range, and each cut into pieces of its selection.\<close>

definition axes_ok :: "CoordSelection list \<Rightarrow> (nat \<times> CoordSelection list) list \<Rightarrow> bool" where
  "axes_ok sels axs \<longleftrightarrow>
     distinct (map fst axs) \<and>
     list_all (\<lambda>(ci, pieces). ci < length sels \<and> concat (map positions pieces) = positions (sels ! ci)) axs"

lemma inner_combos_snoc:
  "inner_combos (axs @ [(ci, pieces)]) = concat (map (\<lambda>combo. map (\<lambda>p. combo @ [(ci, p)]) pieces) (inner_combos axs))"
  by (simp add: inner_combos_def)

lemma sum_list_concat_map:
  "sum_list (map f (concat (map (\<lambda>c. map (g c) ps) cs))) = (\<Sum>c \<leftarrow> cs. \<Sum>p \<leftarrow> ps. f (g c p) :: nat)"
  by (induction cs) (simp_all add: comp_def)

lemma apply_extra_snoc:
  "apply_extra sels (ex @ [(i, p)]) =
     (let ss = apply_extra sels ex in if i < length ss then ss[i := p] else ss)"
  by (simp add: apply_extra_def Let_def)

lemma length_apply_extra [simp]: "length (apply_extra sels ex) = length sels"
  by (induction ex rule: rev_induct) (auto simp: apply_extra_def Let_def split: prod.splits)

lemma apply_extra_other: "i \<notin> fst ` set ex \<Longrightarrow> apply_extra sels ex ! i = sels ! i"
proof (induction ex rule: rev_induct)
  case (snoc p ex)
  then show ?case by (cases p) (simp add: apply_extra_snoc Let_def)
qed (simp add: apply_extra_def)

lemma combo_axes: "combo \<in> set (inner_combos axs) \<Longrightarrow> map fst combo = map fst axs"
proof (induction axs arbitrary: combo rule: rev_induct)
  case (snoc a axs)
  then show ?case by (cases a) (auto simp: inner_combos_snoc)
qed (simp add: inner_combos_def)

lemma combos_cover:
  assumes "axes_ok sels axs"
  shows "(\<Union>combo \<in> set (inner_combos axs). cells (apply_extra sels combo)) = cells sels"
    "(\<Sum>combo \<leftarrow> inner_combos axs. spans (apply_extra sels combo)) = spans sels"
proof -
  have "(\<Union>combo \<in> set (inner_combos axs). cells (apply_extra sels combo)) = cells sels \<and>
    (\<Sum>combo \<leftarrow> inner_combos axs. spans (apply_extra sels combo)) = spans sels"
    using assms
  proof (induction axs rule: rev_induct)
    case Nil
    then show ?case by (simp add: inner_combos_def apply_extra_def)
  next
    case (snoc a axs)
    obtain ci pieces where a: "a = (ci, pieces)" by (cases a)
    have ok: "axes_ok sels axs" "ci < length sels" "concat (map positions pieces) = positions (sels ! ci)"
        "ci \<notin> fst ` set axs"
      using snoc.prems a by (auto simp: axes_ok_def)
    have at: "apply_extra sels combo ! ci = sels ! ci" if "combo \<in> set (inner_combos axs)" for combo
      using ok(4) combo_axes [OF that] by (intro apply_extra_other) (metis list.set_map)
    have step: "apply_extra sels (combo @ [(ci, p)]) = (apply_extra sels combo)[ci := p]" for combo p
      using ok(2) by (simp add: apply_extra_snoc)
    have c: "(\<Union>p \<in> set pieces. cells (apply_extra sels (combo @ [(ci, p)]))) = cells (apply_extra sels combo)"
      "(\<Sum>p \<leftarrow> pieces. spans (apply_extra sels (combo @ [(ci, p)]))) = spans (apply_extra sels combo)"
      if "combo \<in> set (inner_combos axs)" for combo
      unfolding step using ok(2,3) at [OF that]
      by (simp_all add: cells_split_axis spans_split_axis)
    have "(\<Union>combo \<in> set (inner_combos (axs @ [a])). cells (apply_extra sels combo)) =
        (\<Union>combo \<in> set (inner_combos axs). \<Union>p \<in> set pieces. cells (apply_extra sels (combo @ [(ci, p)])))"
      unfolding a inner_combos_snoc by auto
    moreover have "(\<Sum>combo \<leftarrow> inner_combos (axs @ [a]). spans (apply_extra sels combo)) =
        (\<Sum>combo \<leftarrow> inner_combos axs. \<Sum>p \<leftarrow> pieces. spans (apply_extra sels (combo @ [(ci, p)])))"
      unfolding a inner_combos_snoc by (rule sum_list_concat_map)
    ultimately show ?case
      using snoc.IH [OF ok(1)] c by (simp cong: map_cong SUP_cong_simp)
  qed
  then show "(\<Union>combo \<in> set (inner_combos axs). cells (apply_extra sels combo)) = cells sels"
    "(\<Sum>combo \<leftarrow> inner_combos axs. spans (apply_extra sels combo)) = spans sels" by blast+
qed

section \<open>The inner axes that are split\<close>

lemma plan_partitions_pieces:
  assumes "0 < n"
  shows "concat (map positions (map outer (plan_partitions n cl t))) = [0..<n]"
    "list_all (\<lambda>b. extra b = []) (plan_partitions n cl t)" "length (plan_partitions n cl t) \<le> max t 1"
proof -
  have "concat (map (\<lambda>(s, e). [s..<e]) (split_range 0 n (if cl = 0 then n else cl) t)) = [0..<n]"
    by (rule split_range_correct) simp
  then show "concat (map positions (map outer (plan_partitions n cl t))) = [0..<n]"
    using plan_partitions_split [OF assms, of cl t] by (simp add: from_outer_def comp_def case_prod_unfold)
  show "list_all (\<lambda>b. extra b = []) (plan_partitions n cl t)"
    using plan_partitions_split [OF assms, of cl t] by (auto simp: from_outer_def list_all_iff)
  show "length (plan_partitions n cl t) \<le> max t 1"
    using plan_partitions_split [OF assms, of cl t] split_range_length [of 0 n "if cl = 0 then n else cl" t] assms by simp
qed

lemma split_axes_sound:
  assumes "list_all (\<lambda>(ci, n, ext, cl). 0 < ext) cs"
  shows "set (map fst (split_axes b acc cs)) \<subseteq> fst ` set cs"
    "distinct (map fst cs) \<Longrightarrow> distinct (map fst (split_axes b acc cs))"
    "(ci, pieces) \<in> set (split_axes b acc cs) \<Longrightarrow>
       \<exists>n ext cl. (ci, n, ext, cl) \<in> set cs \<and> concat (map positions pieces) = [0..<ext]"
    "0 < acc \<Longrightarrow> acc \<le> b \<Longrightarrow> acc * prod_list (map (length \<circ> snd) (split_axes b acc cs)) \<le> b"
proof -
  have s: "set (map fst (split_axes b acc cs)) \<subseteq> fst ` set cs" for b acc cs
  proof (induction b acc cs rule: split_axes.induct)
    case (2 b acc ci n ext cl cs)
    then show ?case by (simp add: Let_def subset_insertI2 del: set_map)
  qed simp
  show "set (map fst (split_axes b acc cs)) \<subseteq> fst ` set cs" by (rule s)
  show "distinct (map fst (split_axes b acc cs))" if "distinct (map fst cs)"
    using that
  proof (induction b acc cs rule: split_axes.induct)
    case (2 b acc ci n ext cl cs)
    show ?case
    proof (cases "b div acc \<le> 1 \<or> length (plan_partitions ext cl (min n (b div acc))) \<le> 1")
      case True
      then show ?thesis using 2 by (auto simp: Let_def)
    next
      case False
      have "ci \<notin> set (map fst (split_axes b a cs))" for a using subsetD [OF s [of b a cs], of ci] "2.prems" by auto
      then show ?thesis using 2 False by (simp add: Let_def)
    qed
  qed simp
  show "\<exists>n ext cl. (ci, n, ext, cl) \<in> set cs \<and> concat (map positions pieces) = [0..<ext]"
    if "(ci, pieces) \<in> set (split_axes b acc cs)"
    using that assms
  proof (induction b acc cs rule: split_axes.induct)
    case (2 b acc cj n ext cl cs)
    define pieces' where "pieces' = map outer (plan_partitions ext cl (min n (b div acc)))"
    have p: "concat (map positions pieces') = [0..<ext]"
      unfolding pieces'_def using "2.prems"(2) by (intro plan_partitions_pieces) simp
    consider "b div acc > 1" "length pieces' \<le> 1" "(ci, pieces) \<in> set (split_axes b acc cs)"
      | "b div acc > 1" "length pieces' > 1" "(ci, pieces) = (cj, pieces')"
      | "b div acc > 1" "length pieces' > 1" "(ci, pieces) \<in> set (split_axes b (acc * length pieces') cs)"
      using "2.prems"(1) by (simp add: Let_def pieces'_def split: if_splits) force+
    then show ?case
    proof cases
      case 1
      then show ?thesis using "2.IH"(1) [OF refl _ refl] "2.prems"(2) by (fastforce simp: pieces'_def)
    next
      case 2
      then show ?thesis using p by auto
    next
      case 3
      then show ?thesis using "2.IH"(2) [OF refl _ refl] "2.prems"(2) by (fastforce simp: pieces'_def)
    qed
  qed simp
  show "acc * prod_list (map (length \<circ> snd) (split_axes b acc cs)) \<le> b" if "0 < acc" "acc \<le> b"
    using that assms
  proof (induction b acc cs rule: split_axes.induct)
    case (2 b acc cj n ext cl cs)
    define k where "k = length (plan_partitions ext cl (min n (b div acc)))"
    show ?case
    proof (cases "b div acc \<le> 1 \<or> k \<le> 1")
      case True
      then show ?thesis using 2 by (auto simp: Let_def k_def)
    next
      case False
      have "k \<le> max (min n (b div acc)) 1" unfolding k_def using "2.prems" by (intro plan_partitions_pieces) auto
      then have "k \<le> b div acc" using False by auto
      then have "acc * k \<le> b" using "2.prems"(1) by (metis mult.commute times_div_less_eq_dividend le_trans mult_le_mono1)
      moreover have "0 < k" using False by auto
      ultimately show ?thesis
        using "2.IH"(2) [OF refl _ refl] "2.prems" False by (simp add: Let_def k_def ac_simps)
    qed
  qed simp
qed

lemma length_inner_combos: "length (inner_combos axs) = prod_list (map (length \<circ> snd) axs)"
proof (induction axs rule: rev_induct)
  case (snoc a axs)
  then show ?case by (cases a) (simp add: inner_combos_snoc length_concat comp_def sum_list_triv)
qed (simp add: inner_combos_def)

lemma distinct_map_filter:
  assumes "distinct xs" "\<And>x y a b. x \<in> set xs \<Longrightarrow> y \<in> set xs \<Longrightarrow> f x = Some a \<Longrightarrow> f y = Some b \<Longrightarrow> g a = g b \<Longrightarrow> x = y"
  shows "distinct (map g (List.map_filter f xs))"
  using assms
proof (induction xs)
  case (Cons x xs)
  then have "distinct (map g (List.map_filter f xs))" by simp
  moreover have "g a \<notin> g ` set (List.map_filter f xs)" if "f x = Some a" for a
    using Cons.prems that by (auto simp: set_map_filter)
  ultimately show ?case by (auto simp: List.map_filter_simps split: option.splits)
qed (simp add: List.map_filter_simps)

lemma coord_index_name:
  "coord_index_for_axis dv axis meta = Some ci \<Longrightarrow>
     \<exists>ds. dimensions dv = Some ds \<and> axis < length ds \<and> ci < length (coords meta) \<and> meta_name (coords meta ! ci) = ds ! axis"
  by (auto simp: coord_index_for_axis_def split: bind_splits if_splits dest: position_Some)

lemma candidate_Some:
  assumes "candidate meta dv fs axis = Some (ci, n, ext, cl)"
  shows "coord_index_for_axis dv axis meta = Some ci" "Option.bind fs (\<lambda>f. filters_get f (meta_name (coords meta ! ci))) = None"
    "ext = shape dv ! axis" "0 < ext"
  using assms by (auto simp: candidate_def Let_def div_ceil_def split: option.splits if_splits intro: gr0I)

lemma set_candidates: "set (candidates meta dv fs) = (\<Union>axis \<in> {1..<length (shape dv)}. set_option (candidate meta dv fs axis))"
  by (simp add: candidates_def set_map_filter)

lemma distinct_candidates:
  assumes "dimensions dv = Some ds" "distinct ds"
  shows "distinct (map fst (candidates meta dv fs))"
proof -
  have "distinct (map fst (List.map_filter (candidate meta dv fs) [1..<length (shape dv)]))"
  proof (rule distinct_map_filter)
    fix x y a b
    assume "candidate meta dv fs x = Some a" "candidate meta dv fs y = Some b" "fst a = fst b"
    then have "coord_index_for_axis dv x meta = Some (fst a)" "coord_index_for_axis dv y meta = Some (fst a)"
      by (metis candidate_Some(1) prod.collapse)+
    then show "x = y" using assms coord_index_name by (metis nth_eq_iff_index_eq option.inject)
  qed simp
  then show ?thesis by (simp add: candidates_def distinct_map)
qed

section \<open>The boxes of a scan\<close>

text \<open>
  The outer coordinate \<open>oi\<close> is not an inner axis, dimension names are distinct, and an unfiltered inner axis
  is selected in full.
\<close>

definition splittable ::
    "'f ZarrStoreMeta \<Rightarrow> 'f ZarrArrayMeta \<Rightarrow> 'f CoordFilters option \<Rightarrow> CoordSelection list \<Rightarrow> nat \<Rightarrow> bool" where
  "splittable meta dv filters sels oi \<longleftrightarrow>
     oi < length sels \<and> (case dimensions dv of None \<Rightarrow> True | Some ds \<Rightarrow> distinct ds) \<and>
     list_all (\<lambda>axis.
       case coord_index_for_axis dv axis meta of
         None \<Rightarrow> True
       | Some ci \<Rightarrow> ci \<noteq> oi \<and> ci < length sels \<and>
           (Option.bind filters (\<lambda>fs. filters_get fs (meta_name (coords meta ! ci))) = None \<longrightarrow>
              positions (sels ! ci) = [0..<shape dv ! axis])) [1..<length (shape dv)]"

lemma splittable_candidate:
  assumes "splittable meta dv fs sels oi" "(ci, n, ext, cl) \<in> set (candidates meta dv fs)"
  shows "ci \<noteq> oi" "ci < length sels" "positions (sels ! ci) = [0..<ext]" "0 < ext"
proof -
  obtain axis where a: "axis \<in> {1..<length (shape dv)}" "candidate meta dv fs axis = Some (ci, n, ext, cl)"
    using assms(2) unfolding set_candidates by (auto simp del: atLeastLessThan_iff)
  note c = candidate_Some [OF a(2)]
  show "ci \<noteq> oi" "ci < length sels" "positions (sels ! ci) = [0..<ext]" "0 < ext"
    using assms(1) a(1) c by (auto simp: splittable_def list_all_iff dest!: bspec [of _ _ axis])
qed

lemma candidates_distinct:
  assumes "splittable meta dv fs sels oi"
  shows "distinct (map fst (candidates meta dv fs))"
proof (cases "dimensions dv")
  case None
  then have "candidates meta dv fs = []"
    by (simp add: candidates_def candidate_def coord_index_for_axis_def List.map_filter_def)
  then show ?thesis by simp
qed (use assms in \<open>auto simp: splittable_def intro: distinct_candidates\<close>)

lemma split_axes_ok:
  assumes "splittable meta dv fs sels oi"
  shows "axes_ok (sels[oi := p]) (split_axes b 1 (candidates meta dv fs))"
proof -
  have pos: "list_all (\<lambda>(ci, n, ext, cl). 0 < ext) (candidates meta dv fs)"
    using splittable_candidate(4) [OF assms] by (auto simp: list_all_iff)
  have "ci < length sels \<and> concat (map positions pieces) = positions (sels[oi := p] ! ci)"
    if m: "(ci, pieces) \<in> set (split_axes b 1 (candidates meta dv fs))" for ci pieces
  proof -
    obtain n ext cl where "(ci, n, ext, cl) \<in> set (candidates meta dv fs)" "concat (map positions pieces) = [0..<ext]"
      using split_axes_sound(3) [OF pos m] by blast
    then show ?thesis using splittable_candidate [OF assms, of ci n ext cl] by (simp add: nth_list_update)
  qed
  then show ?thesis
    unfolding axes_ok_def list_all_iff using split_axes_sound(2) [OF pos candidates_distinct [OF assms]] by auto
qed

lemma split_axes_length:
  assumes "splittable meta dv fs sels oi" "0 < b"
  shows "length (inner_combos (split_axes b 1 (candidates meta dv fs))) \<le> b"
proof -
  have "list_all (\<lambda>(ci, n, ext, cl). 0 < ext) (candidates meta dv fs)"
    using splittable_candidate(4) [OF assms(1)] by (auto simp: list_all_iff)
  from split_axes_sound(4) [OF this, of 1 b] show ?thesis using assms(2) by (simp add: length_inner_combos)
qed

text \<open>The selections a worker reads for a box.\<close>

definition box_sels :: "CoordSelection list \<Rightarrow> nat \<Rightarrow> PartitionSpec \<Rightarrow> CoordSelection list" where
  "box_sels sels oi b = apply_extra (sels[oi := outer b]) (extra b)"

lemma apply_partition_selection_box:
  assumes "Option.bind (outer_axis_len meta) (\<lambda>n. position (\<lambda>s. s = n) coord_sizes) = Some oi"
  shows "apply_partition_selection cr (Some (outer b)) (extra b) meta coord_sizes =
    Some (box_sels (case cr of Some ss \<Rightarrow> ss | None \<Rightarrow> full_selections coord_sizes) oi b)"
  using assms by (auto simp: apply_partition_selection_def restrict_to_partition_def box_sels_def apply_extra_def Let_def
      split: option.splits)

lemma outer_boxes_cover:
  assumes "oi < length sels" "list_all (\<lambda>b. extra b = []) specs" "concat (map (positions \<circ> outer) specs) = positions osel"
  shows "(\<Union>b \<in> set specs. cells (box_sels sels oi b)) = cells (sels[oi := osel])"
    "(\<Sum>b \<leftarrow> specs. spans (box_sels sels oi b)) = spans (sels[oi := osel])"
proof -
  have b: "box_sels sels oi b = (sels[oi := osel])[oi := outer b]" if "b \<in> set specs" for b
    using assms(2) that by (auto simp: box_sels_def apply_extra_def list_all_iff)
  have c: "concat (map positions (map outer specs)) = positions (sels[oi := osel] ! oi)"
    using assms(1,3) by simp
  have "(\<Union>b \<in> set specs. cells (box_sels sels oi b)) = (\<Union>p \<in> set (map outer specs). cells ((sels[oi := osel])[oi := p]))"
    by (simp add: b)
  also have "\<dots> = cells (sels[oi := osel])" using assms(1) c by (intro cells_split_axis) simp_all
  finally show "(\<Union>b \<in> set specs. cells (box_sels sels oi b)) = cells (sels[oi := osel])" .
  have "(\<Sum>b \<leftarrow> specs. spans (box_sels sels oi b)) = (\<Sum>p \<leftarrow> map outer specs. spans ((sels[oi := osel])[oi := p]))"
    using b by (simp add: comp_def cong: map_cong)
  also have "\<dots> = spans (sels[oi := osel])" using assms(1) c by (intro spans_split_axis) simp_all
  finally show "(\<Sum>b \<leftarrow> specs. spans (box_sels sels oi b)) = spans (sels[oi := osel])" .
qed

lemma fan_out_cases:
  "fan_out_inner specs meta dv fs t = specs \<or>
   fan_out_inner specs meta dv fs t =
     concat (map (\<lambda>o'. map (\<lambda>combo. with_extra (from_outer (outer o')) combo)
       (inner_combos (split_axes (t div length specs) 1 (candidates meta dv fs)))) specs)"
  unfolding fan_out_inner_def Let_def by (auto simp del: One_nat_def)

lemma fan_out_cover:
  assumes "splittable meta dv fs sels oi" "list_all (\<lambda>b. extra b = []) specs"
    "concat (map (positions \<circ> outer) specs) = positions osel"
  shows "(\<Union>b \<in> set (fan_out_inner specs meta dv fs t). cells (box_sels sels oi b)) = cells (sels[oi := osel])" (is ?cells)
    "(\<Sum>b \<leftarrow> fan_out_inner specs meta dv fs t. spans (box_sels sels oi b)) = spans (sels[oi := osel])" (is ?spans)
proof -
  define axs where "axs = split_axes (t div length specs) 1 (candidates meta dv fs)"
  have oi: "oi < length sels" using assms(1) by (simp add: splittable_def)
  note outer_boxes = outer_boxes_cover [OF oi assms(2,3)]
  consider "fan_out_inner specs meta dv fs t = specs"
    | "fan_out_inner specs meta dv fs t =
        concat (map (\<lambda>o'. map (\<lambda>combo. with_extra (from_outer (outer o')) combo) (inner_combos axs)) specs)"
    using fan_out_cases unfolding axs_def by blast
  then have "?cells \<and> ?spans"
  proof cases
    case 1
    then show ?thesis using outer_boxes by simp
  next
    case 2
    have box: "box_sels sels oi (with_extra (from_outer (outer o')) combo) = apply_extra (box_sels sels oi o') combo"
      if "o' \<in> set specs" for o' combo
      using assms(2) that by (auto simp: box_sels_def with_extra_def from_outer_def list_all_iff apply_extra_def)
    have ok: "axes_ok (box_sels sels oi o') axs" if "o' \<in> set specs" for o'
      using split_axes_ok [OF assms(1)] assms(2) that by (auto simp: box_sels_def apply_extra_def list_all_iff axs_def)
    have "(\<Union>b \<in> set (fan_out_inner specs meta dv fs t). cells (box_sels sels oi b)) =
        (\<Union>o' \<in> set specs. \<Union>combo \<in> set (inner_combos axs). cells (apply_extra (box_sels sels oi o') combo))"
      unfolding 2 by (simp add: box)
    moreover have "(\<Sum>b \<leftarrow> fan_out_inner specs meta dv fs t. spans (box_sels sels oi b)) =
        (\<Sum>o' \<leftarrow> specs. \<Sum>combo \<leftarrow> inner_combos axs. spans (apply_extra (box_sels sels oi o') combo))"
      unfolding 2 sum_list_concat_map by (simp add: box cong: map_cong)
    ultimately show ?thesis
      using outer_boxes combos_cover [OF ok] by (simp cong: map_cong)
  qed
  then show ?cells ?spans by blast+
qed

lemma fan_out_length:
  assumes "splittable meta dv fs sels oi" "length specs \<le> max t 1"
  shows "length (fan_out_inner specs meta dv fs t) \<le> max t 1"
proof -
  have "length specs * length (inner_combos (split_axes (t div length specs) 1 (candidates meta dv fs))) \<le> t"
    if "0 < t div length specs"
    using split_axes_length [OF assms(1) that] by (metis div_times_less_eq_dividend le_trans mult.commute mult_le_mono2)
  then show ?thesis using assms(2)
    by (auto simp: fan_out_inner_def Let_def length_concat comp_def sum_list_triv)
qed

definition scan_outer :: "OuterSelection read_result \<Rightarrow> nat \<Rightarrow> CoordSelection" where
  "scan_outer r n = (case r of Inr (Resolved sel) \<Rightarrow> sel | Inr Empty \<Rightarrow> SelRange 0 0 | _ \<Rightarrow> SelRange 0 n)"

lemma blind_slices:
  "list_all (\<lambda>b. extra b = []) (plan_partitions n cl t) \<and>
   concat (map (positions \<circ> outer) (plan_partitions n cl t)) = [0..<n] \<and> length (plan_partitions n cl t) \<le> max t 1"
proof (cases "n = 0")
  case True
  then show ?thesis by (simp add: plan_partitions_def spec_range_def from_outer_def)
next
  case False
  then show ?thesis using plan_partitions_pieces [of n cl t] by (simp add: comp_def)
qed

lemma split_selection_slices:
  assumes "sel_wf s"
  shows "list_all (\<lambda>b. extra b = []) (map from_outer (split_selection s cl t)) \<and>
    concat (map (positions \<circ> outer) (map from_outer (split_selection s cl t))) = positions s \<and>
    length (split_selection s cl t) \<le> max t 1"
proof -
  have "length (split_selection s cl t) \<le> max t 1"
  proof (cases s)
    case (SelIndices v)
    then show ?thesis using split_indices_correct(4) [of v cl t] assms
      by (cases "v = []") (auto simp: split_indices_def)
  qed (use assms split_range_length in auto)
  then show ?thesis
    using split_sel.split_concat [OF assms] by (simp add: from_outer_def list_all_iff comp_def)
qed

lemma plan_scan_partitions_fan_out:
  assumes "plan_scan_partitions limit vz (Some meta) t fs r \<noteq> []" "first_opt (data_vars meta) = Some dv"
    "outer_axis_len meta = Some n" "case r of Inr (Resolved s) \<Rightarrow> sel_wf s | _ \<Rightarrow> True"
  shows "\<exists>specs. plan_scan_partitions limit vz (Some meta) t fs r = fan_out_inner specs meta dv fs t \<and>
    list_all (\<lambda>b. extra b = []) specs \<and> concat (map (positions \<circ> outer) specs) = positions (scan_outer r n) \<and>
    length specs \<le> max t 1"
proof -
  define cl where "cl = unwrap_or (Option.bind (chunks dv) first_opt) n"
  have n: "unwrap_or (first_opt (shape dv)) 0 = n"
    using assms(2,3) by (simp add: outer_axis_len_def unwrap_or_def)
  define specs where "specs =
    (case r of Inr (Resolved sel) \<Rightarrow> map from_outer (split_selection sel cl t)
       | Inr Empty \<Rightarrow> [spec_range 0 0] | Inr Unfiltered \<Rightarrow> plan_partitions n cl t | Inl e \<Rightarrow> plan_partitions n cl t)"
  have "plan_scan_partitions limit vz (Some meta) t fs r = fan_out_inner specs meta dv fs t"
    using assms(1,2) unfolding plan_scan_partitions_def specs_def cl_def
    by (simp add: n Let_def split: if_splits)
  moreover have "list_all (\<lambda>b. extra b = []) specs \<and> concat (map (positions \<circ> outer) specs) = positions (scan_outer r n) \<and>
      length specs \<le> max t 1"
  proof (cases r)
    case (Inl e)
    then show ?thesis using blind_slices by (simp add: specs_def scan_outer_def)
  next
    case (Inr o')
    show ?thesis
    proof (cases o')
      case (Resolved sel)
      then show ?thesis using split_selection_slices [of sel cl t] assms(4) Inr by (simp add: specs_def scan_outer_def)
    next
      case Empty
      then show ?thesis using Inr by (simp add: specs_def scan_outer_def spec_range_def from_outer_def)
    next
      case Unfiltered
      then show ?thesis using Inr blind_slices by (simp add: specs_def scan_outer_def)
    qed
  qed
  ultimately show ?thesis by blast
qed

section \<open>Properties\<close>

text \<open>C28: The boxes planned for a scan reassemble it: the selections the workers derive from their boxes
  cover exactly the cells of the scan, their row counts add up to the scan's (no row is read twice),
  and there are at most \<open>target_partitions\<close> boxes, whether the outer filter was resolved, matched nothing,
  was absent, or could not be read.  The condition \<open>splittable\<close>: the dimensions of the first variable have distinct names, and
  no inner axis is found by name under the coordinate that the outer axis is found under by its length;
  \<open>square_grid_rows_duplicated\<close> shows what happens otherwise.\<close>

theorem partitions_reassemble:
  assumes "specs = plan_scan_partitions limit virtualizarr (Some meta) t filters r" "specs \<noteq> []"
    "first_opt (data_vars meta) = Some dv" "outer_axis_len meta = Some n" "position (\<lambda>s. s = n) coord_sizes = Some oi"
    "sels = (case coord_ranges of Some ss \<Rightarrow> ss | None \<Rightarrow> full_selections coord_sizes)"
    "splittable meta dv filters sels oi" "case r of Inr (Resolved s) \<Rightarrow> sel_wf s | _ \<Rightarrow> True"
    "worker = (\<lambda>b. the (apply_partition_selection coord_ranges (Some (outer b)) (extra b) meta coord_sizes))"
  shows "(\<Union>b \<in> set specs. cells (worker b)) = cells (sels[oi := scan_outer r n]) \<and>
    (\<Sum>b \<leftarrow> specs. spans (worker b)) = spans (sels[oi := scan_outer r n]) \<and>
    length specs \<le> max t 1"
proof -
  obtain sps where s: "specs = fan_out_inner sps meta dv filters t" "list_all (\<lambda>b. extra b = []) sps"
      "concat (map (positions \<circ> outer) sps) = positions (scan_outer r n)" "length sps \<le> max t 1"
    using plan_scan_partitions_fan_out [of limit virtualizarr meta t filters r dv n] assms(1-4,8) by blast
  have w: "worker b = box_sels sels oi b" for b
    using apply_partition_selection_box [of meta coord_sizes oi coord_ranges b] assms(4,5) by (simp add: assms(6,9))
  show ?thesis
    unfolding w using fan_out_cover [OF assms(7) s(2,3)] fan_out_length [OF assms(7) s(4)] s(1) by simp
qed

definition demo_array :: "string \<Rightarrow> nat list \<Rightarrow> nat list \<Rightarrow> string list \<Rightarrow> rat ZarrArrayMeta" where
  "demo_array name sh ch dims = \<lparr>meta_name = name, data_type = ''float32'', shape = sh, chunks = Some ch, coord_min_max = None,
     cf_time_attrs = None, dimensions = Some dims\<rparr>"

text \<open>A grid in chunks of 2 by 2, and its coordinates in the order given.\<close>

definition demo_store :: "nat \<Rightarrow> nat \<Rightarrow> string list \<Rightarrow> rat ZarrStoreMeta" where
  "demo_store ny nx names = \<lparr>
     coords = map (\<lambda>c. demo_array c [if c = ''y'' then ny else nx] [if c = ''y'' then ny else nx] [c]) names,
     data_vars = [demo_array ''t'' [ny, nx] [2, 2] [''y'', ''x'']], total_rows = ny * nx\<rparr>"

lemmas demo_store_simps = demo_store_def demo_array_def first_opt_def outer_axis_len_def coord_index_for_axis_def full_selections_def

lemma demo_plan:
  "plan_scan_partitions None False (Some (demo_store ny nx cs)) t None (Inr Unfiltered) =
    (if list_ex (\<lambda>c. first_opt (shape c) = Some ny) (coords (demo_store ny nx cs)) then
       fan_out_inner (plan_partitions ny 2 t) (demo_store ny nx cs) (demo_array ''t'' [ny, nx] [2, 2] [''y'', ''x'']) None t
     else [])"
  by (simp add: plan_scan_partitions_def demo_store_simps unwrap_or_def)

lemma demo_slices:
  "plan_partitions 2 2 4 = [from_outer (SelRange 0 2)]"
  "plan_partitions 4 2 4 = [from_outer (SelRange 0 2), from_outer (SelRange 2 4)]"
  "plan_partitions 4 2 2 = [from_outer (SelRange 0 2), from_outer (SelRange 2 4)]"
  by code_simp+

lemma demo_candidates:
  "candidates (demo_store 2 4 [''y'', ''x'']) (demo_array ''t'' [2, 4] [2, 2] [''y'', ''x'']) None = [(1, 2, 4, 2)]"
  "candidates (demo_store 4 4 [''x'', ''y'']) (demo_array ''t'' [4, 4] [2, 2] [''y'', ''x'']) None = [(0, 2, 4, 2)]"
  by code_simp+

lemma demo_boxes:
  "plan_scan_partitions None False (Some (demo_store 2 4 [''y'', ''x''])) 4 None (Inr Unfiltered) \<noteq> []"
  "plan_scan_partitions None False (Some (demo_store 4 4 [''x'', ''y''])) 4 None (Inr Unfiltered) =
    [\<lparr>outer = SelRange 0 2, extra = [(0, SelRange 0 2)]\<rparr>, \<lparr>outer = SelRange 0 2, extra = [(0, SelRange 2 4)]\<rparr>,
     \<lparr>outer = SelRange 2 4, extra = [(0, SelRange 0 2)]\<rparr>, \<lparr>outer = SelRange 2 4, extra = [(0, SelRange 2 4)]\<rparr>]"
proof -
  have "\<not> spec_is_empty (from_outer (SelRange 0 2))" by (simp add: spec_is_empty_def sel_is_empty_def from_outer_def u64_def)
  then have "fan_out_inner (plan_partitions 2 2 4) (demo_store 2 4 [''y'', ''x'']) (demo_array ''t'' [2, 4] [2, 2] [''y'', ''x'']) None 4 \<noteq> []"
    unfolding fan_out_inner_def demo_slices demo_candidates by (simp add: demo_slices inner_combos_def Let_def)
  then show "plan_scan_partitions None False (Some (demo_store 2 4 [''y'', ''x''])) 4 None (Inr Unfiltered) \<noteq> []"
    unfolding demo_plan by (simp add: demo_store_simps)
  have "fan_out_inner (plan_partitions 4 2 4) (demo_store 4 4 [''x'', ''y'']) (demo_array ''t'' [4, 4] [2, 2] [''y'', ''x'']) None 4 =
    [\<lparr>outer = SelRange 0 2, extra = [(0, SelRange 0 2)]\<rparr>, \<lparr>outer = SelRange 0 2, extra = [(0, SelRange 2 4)]\<rparr>,
     \<lparr>outer = SelRange 2 4, extra = [(0, SelRange 0 2)]\<rparr>, \<lparr>outer = SelRange 2 4, extra = [(0, SelRange 2 4)]\<rparr>]"
    unfolding fan_out_inner_def demo_slices demo_candidates
    by (simp add: demo_slices inner_combos_def with_extra_def from_outer_def Let_def flip: numeral_2_eq_2)
  moreover have "list_ex (\<lambda>c. first_opt (shape c) = Some 4) (coords (demo_store 4 4 [''x'', ''y'']))"
    by (simp add: demo_store_simps)
  ultimately show "plan_scan_partitions None False (Some (demo_store 4 4 [''x'', ''y''])) 4 None (Inr Unfiltered) =
    [\<lparr>outer = SelRange 0 2, extra = [(0, SelRange 0 2)]\<rparr>, \<lparr>outer = SelRange 0 2, extra = [(0, SelRange 2 4)]\<rparr>,
     \<lparr>outer = SelRange 2 4, extra = [(0, SelRange 0 2)]\<rparr>, \<lparr>outer = SelRange 2 4, extra = [(0, SelRange 2 4)]\<rparr>]"
    unfolding demo_plan by simp
qed

theorem partitions_reassemble_witness:
  "(\<Sum>b \<leftarrow> plan_scan_partitions None False (Some (demo_store 2 4 [''y'', ''x''])) 4 None (Inr Unfiltered).
      spans (the (apply_partition_selection None (Some (outer b)) (extra b) (demo_store 2 4 [''y'', ''x'']) [2, 4]))) = 8"
  using partitions_reassemble [OF refl demo_boxes(1), of _ 2 "[2, 4]" 0 "full_selections [2, 4]" None, OF _ _ _ _ _ _ refl]
  by (simp add: demo_store_simps splittable_def scan_outer_def spans_def upt_rec)

text \<open>On a square grid whose coordinates are not listed in the order of the dimensions, the outer
  coordinate found by length is the one an inner axis is split along: the inner slice replaces the
  outer one and every row is read once per outer partition.\<close>

lemma square_grid_rows_duplicated:
  "(\<Sum>b \<leftarrow> plan_scan_partitions None False (Some (demo_store 4 4 [''x'', ''y''])) 4 None (Inr Unfiltered).
      spans (the (apply_partition_selection None (Some (outer b)) (extra b) (demo_store 4 4 [''x'', ''y'']) [4, 4]))) = 2 * (4 * 4)"
  unfolding demo_boxes
  by (simp add: apply_partition_selection_def restrict_to_partition_def apply_extra_def spans_def demo_store_simps)

end
