(* ===== verification/Scan.thy ===== *)
theory Scan
  imports Scan_Select Tile_Grid
begin

text \<open>
  The scan of a local store (\<open>src/reader/zarr_reader.rs\<close>): building one batch from a selection, the lazy
  windowed scan that builds one batch per tile and honours the limit, and \<open>read_zarr\<close>, which decides
  between the two.  Opening arrays and retrieving their elements are parameters.  The lemmas show
  that every stream ends whatever the store does, that a limit is never exceeded, and that on a store
  whose variables span all coordinates the streamed rows are those of the one-batch scan.
\<close>

section \<open>Columns and batches\<close>

datatype ('f, 'v) Column =
    DictColumn DataType "nat list" "'f ValueArray"
  | DataColumn DataType "'v list"

datatype ('f, 'v) Cell = IntCell int | Float32Cell 'f | Float64Cell 'f | TimestampCell int | DataCell 'v

fun array_type :: "'f ValueArray \<Rightarrow> DataType" where
  "array_type (Int64Array v) = Int64"
| "array_type (Float32Array v) = Float32"
| "array_type (Float64Array v) = Float64"
| "array_type (TimestampArray v) = Timestamp"

fun array_cell :: "'f ValueArray \<Rightarrow> nat \<Rightarrow> ('f, 'v) Cell" where
  "array_cell (Int64Array v) i = IntCell (v ! i)"
| "array_cell (Float32Array v) i = Float32Cell (v ! i)"
| "array_cell (Float64Array v) i = Float64Cell (v ! i)"
| "array_cell (TimestampArray v) i = TimestampCell (v ! i)"

fun column_cells :: "('f, 'v) Column \<Rightarrow> ('f, 'v) Cell list" where
  "column_cells (DictColumn kt keys arr) = map (array_cell arr) keys"
| "column_cells (DataColumn dt vals) = map DataCell vals"

fun column_type :: "('f, 'v) Column \<Rightarrow> DataType" where
  "column_type (DictColumn kt keys arr) = Dictionary kt (array_type arr)"
| "column_type (DataColumn dt vals) = dt"

fun column_len :: "('f, 'v) Column \<Rightarrow> nat" where
  "column_len (DictColumn kt keys arr) = length keys"
| "column_len (DataColumn dt vals) = length vals"

fun column_slice :: "('f, 'v) Column \<Rightarrow> nat \<Rightarrow> nat \<Rightarrow> ('f, 'v) Column read_result" where
  "column_slice (DictColumn kt keys arr) off n = map_result (\<lambda>ks. DictColumn kt ks arr) (slice_array keys off n)"
| "column_slice (DataColumn dt vals) off n = map_result (DataColumn dt) (slice_array vals off n)"

type_synonym Schema = "(string \<times> DataType) list"

record ('f, 'v) RecordBatch =
  batch_columns :: "('f, 'v) Column list"
  num_rows :: nat

text \<open>\<open>RecordBatch::try_new\<close>: the columns are checked against the schema and must have one length.\<close>

definition try_new :: "Schema \<Rightarrow> ('f, 'v) Column list \<Rightarrow> ('f, 'v) RecordBatch read_result" where
  "try_new schema cols =
     (case cols of
        [] \<Rightarrow> Inl SchemaMismatch
      | c # cs \<Rightarrow>
          if map column_type cols = map snd schema \<and> list_all (\<lambda>d. column_len d = column_len c) cs
          then Inr \<lparr>batch_columns = cols, num_rows = column_len c\<rparr> else Inl SchemaMismatch)"

definition create_result_batch :: "Schema \<Rightarrow> ('f, 'v) Column list \<Rightarrow> nat \<Rightarrow> ('f, 'v) RecordBatch read_result" where
  "create_result_batch projected_schema cols final_rows =
     (if cols = [] then
        (if projected_schema = [] then Inr \<lparr>batch_columns = [], num_rows = final_rows\<rparr> else Inl SchemaMismatch)
      else try_new projected_schema cols)"

definition apply_limit_to_arrays :: "('f, 'v) Column list \<Rightarrow> nat option \<Rightarrow> nat \<Rightarrow> ('f, 'v) Column list read_result" where
  "apply_limit_to_arrays cols limit max_rows =
     (case limit of
        None \<Rightarrow> Inr cols
      | Some l \<Rightarrow> collect_results (map (\<lambda>c. column_slice c 0 (min l max_rows)) cols))"

text \<open>The rows of a batch: from here on a batch in a stream is the list of its rows.\<close>

definition batch_rows :: "('f, 'v) RecordBatch \<Rightarrow> ('f, 'v) Cell list list" where
  "batch_rows b = map (\<lambda>i. map (\<lambda>c. column_cells c ! i) (batch_columns b)) [0..<num_rows b]"

section \<open>Types\<close>

fun dictionary_key_type :: "DataType \<Rightarrow> DataType" where
  "dictionary_key_type (Dictionary kt v) = kt"
| "dictionary_key_type dt = Int16"

text \<open>The element type a data variable is read with.\<close>

definition element_type :: "DataType \<Rightarrow> DataType" where
  "element_type dt = (if dt = Float32 then Float32 else if dt = Float64 then Float64 else Int64)"

text \<open>
  The store: opening an array gives its shape; elements are retrieved with an element type.
\<close>

record ('f, 'v) zarr_store =
  open_shape :: "string \<Rightarrow> nat list read_result"
  elements :: "DataType \<Rightarrow> 'v retrieve"
  coord_elements :: "'f coord_store"

section \<open>One batch\<close>

record ('f, 'v) BatchCtx =
  ctx_store :: "('f, 'v) zarr_store"
  ctx_store_meta :: "'f ZarrStoreMeta"
  ctx_schema :: Schema
  ctx_projected_schema :: Schema
  ctx_projected_indices :: "nat list"
  ctx_coord_names :: "string list"
  ctx_effective_coord_indices :: "nat list"
  ctx_coord_sizes :: "nat list"

definition coord_column ::
    "'f F64 \<Rightarrow> ('f, 'v) BatchCtx \<Rightarrow> nat list \<Rightarrow> 'f CoordValues list \<Rightarrow> nat \<Rightarrow> DataType \<Rightarrow> nat \<Rightarrow>
     ('f, 'v) Column option read_result" where
  "coord_column fl ctx query_coord_sizes filtered_coord_values final_rows dt coord_idx =
     (case position (\<lambda>i. i = coord_idx) (ctx_effective_coord_indices ctx) of
        None \<Rightarrow> Inr None
      | Some query_coord_idx \<Rightarrow>
          (if \<not> coord_idx < length filtered_coord_values then Inl Panic
           else case create_coord_dictionary_typed fl (filtered_coord_values ! coord_idx) query_coord_idx
                  query_coord_sizes final_rows (dictionary_key_type dt) of
               None \<Rightarrow> Inl Panic
             | Some (keys, arr) \<Rightarrow> Inr (Some (DictColumn (dictionary_key_type dt) keys arr))))"

definition data_var_chunks :: "'f ZarrStoreMeta \<Rightarrow> string \<Rightarrow> nat list option" where
  "data_var_chunks meta name = Option.bind (find (\<lambda>v. meta_name v = name) (data_vars meta)) chunks"

definition data_column ::
    "('f, 'v) BatchCtx \<Rightarrow> CoordSelection list option \<Rightarrow> string \<Rightarrow> DataType \<Rightarrow> ('f, 'v) Column read_result" where
  "data_column ctx coord_ranges name dt =
     (case open_shape (ctx_store ctx) name of
        Inl e \<Rightarrow> Inl e
      | Inr sh \<Rightarrow>
          map_result (DataColumn (element_type dt))
            (read_variable (elements (ctx_store ctx) (element_type dt)) name sh
              (data_var_chunks (ctx_store_meta ctx) name) (ctx_coord_sizes ctx) coord_ranges))"

definition build_column ::
    "'f F64 \<Rightarrow> ('f, 'v) BatchCtx \<Rightarrow> CoordSelection list option \<Rightarrow> nat list \<Rightarrow> 'f CoordValues list \<Rightarrow> nat \<Rightarrow> nat \<Rightarrow>
     ('f, 'v) Column option read_result" where
  "build_column fl ctx coord_ranges query_coord_sizes filtered_coord_values final_rows idx =
     (if \<not> idx < length (ctx_schema ctx) then Inl Panic
      else let (name, dt) = ctx_schema ctx ! idx in
        case position (\<lambda>n. n = name) (ctx_coord_names ctx) of
          Some coord_idx \<Rightarrow> coord_column fl ctx query_coord_sizes filtered_coord_values final_rows dt coord_idx
        | None \<Rightarrow> map_result Some (data_column ctx coord_ranges name dt))"

definition build_batch ::
    "'f F64 \<Rightarrow> ('f, 'v) BatchCtx \<Rightarrow> CoordSelection list option \<Rightarrow> nat list \<Rightarrow> 'f CoordValues list \<Rightarrow> nat \<Rightarrow>
     nat option \<Rightarrow> nat \<Rightarrow> ('f, 'v) RecordBatch read_result" where
  "build_batch fl ctx coord_ranges query_coord_sizes filtered_coord_values final_rows limit query_rows =
     (case collect_results (map (build_column fl ctx coord_ranges query_coord_sizes filtered_coord_values final_rows)
          (ctx_projected_indices ctx)) of
        Inl e \<Rightarrow> Inl e
      | Inr cols \<Rightarrow>
          (case apply_limit_to_arrays (List.map_filter (\<lambda>c. c) cols) limit query_rows of
             Inl e \<Rightarrow> Inl e
           | Inr arrays \<Rightarrow> create_result_batch (ctx_projected_schema ctx) arrays final_rows))"

section \<open>The windowed scan\<close>

record ('f, 'v) WindowedScan =
  ws_ctx :: "('f, 'v) BatchCtx"
  ws_query_coord_sizes :: "nat list"
  ws_filtered_coord_values :: "'f CoordValues list"
  ws_coord_ranges :: "CoordSelection list option"
  ws_grid :: TileGrid
  ws_limit :: "nat option"
  ws_emitted :: nat
  ws_batch_size :: nat
  ws_pending :: "('f, 'v) Cell list list list"

text \<open>The coordinate values of a tile: the effective coordinates are sliced to their window.\<close>

definition tile_values ::
    "'f F64 \<Rightarrow> nat list \<Rightarrow> AxisWindow list \<Rightarrow> 'f CoordValues list \<Rightarrow> 'f CoordValues list option" where
  "tile_values fl effective aw vals =
     collect_options (map (\<lambda>(c, v).
       case position (\<lambda>ec. ec = c) effective of
         Some j \<Rightarrow> if j < length aw
                   then cv_slice fl v (win_offset (aw ! j)) (win_offset (aw ! j) + win_len (aw ! j)) else None
       | None \<Rightarrow> Some v) (enumerate 0 vals))"

text \<open>The selections of a tile; \<open>None\<close> is an index out of range.\<close>

definition tile_selections ::
    "nat list \<Rightarrow> AxisWindow list \<Rightarrow> CoordSelection list \<Rightarrow> CoordSelection list option" where
  "tile_selections effective aw sels =
     foldl (\<lambda>acc (j, w). Option.bind acc (\<lambda>ss.
         if j < length effective \<and> effective ! j < length ss then Some (ss[effective ! j := win_sel w]) else None))
       (Some sels) (enumerate 0 aw)"

definition tile_sizes :: "AxisWindow list \<Rightarrow> nat list \<Rightarrow> nat list option" where
  "tile_sizes aw sizes =
     (if length aw \<le> length sizes then Some (map win_len aw @ drop (length aw) sizes) else None)"

definition tile_batch ::
    "'f F64 \<Rightarrow> ('f, 'v) WindowedScan \<Rightarrow> AxisWindow list \<Rightarrow> ('f, 'v) RecordBatch read_result" where
  "tile_batch fl w aw =
     (let ctx = ws_ctx w;
          effective = ctx_effective_coord_indices ctx;
          window_rows = product_usize (map win_len aw);
          sels = (case ws_coord_ranges w of Some ss \<Rightarrow> ss | None \<Rightarrow> full_selections (ctx_coord_sizes ctx))
      in case (tile_sizes aw (ws_query_coord_sizes w), tile_values fl effective aw (ws_filtered_coord_values w),
               tile_selections effective aw sels) of
           (Some sizes, Some vals, Some ss) \<Rightarrow>
             (case ws_limit w of
                Some limit \<Rightarrow>
                  let remaining = limit - ws_emitted w in
                  build_batch fl ctx (Some ss) sizes vals (min remaining window_rows) (Some remaining) window_rows
              | None \<Rightarrow> build_batch fl ctx (Some ss) sizes vals window_rows None window_rows)
         | _ \<Rightarrow> Inl Panic)"

definition next_window ::
    "'f F64 \<Rightarrow> ('f, 'v) WindowedScan \<Rightarrow> ('f, 'v) RecordBatch read_result option \<times> ('f, 'v) WindowedScan" where
  "next_window fl w =
     (if (case ws_limit w of Some limit \<Rightarrow> limit \<le> ws_emitted w | None \<Rightarrow> False) then (None, w)
      else
        let (tile, g) = grid_next (ws_grid w); w' = w\<lparr>ws_grid := g\<rparr> in
        case tile of
          None \<Rightarrow> (None, w')
        | Some aw \<Rightarrow>
            (case tile_batch fl w' aw of
               Inl e \<Rightarrow> (Some (Inl e), w')
             | Inr b \<Rightarrow> (Some (Inr b), w'\<lparr>ws_emitted := ws_emitted w' + num_rows b\<rparr>)))"

definition push_slices :: "('f, 'v) WindowedScan \<Rightarrow> ('f, 'v) RecordBatch \<Rightarrow> ('f, 'v) WindowedScan" where
  "push_slices w window =
     (if num_rows window = 0 then w
      else w\<lparr>ws_pending := ws_pending w @ slice_to_batch_size (batch_rows window) (ws_batch_size w)\<rparr>)"

type_synonym ('f, 'v) row_batch = "('f, 'v) Cell list list"

text \<open>The loop may not end by its shape alone; \<open>None\<close> stands for that.\<close>

partial_function (option) next_batch ::
    "'f F64 \<Rightarrow> ('f, 'v) WindowedScan \<Rightarrow> (('f, 'v) row_batch read_result option \<times> ('f, 'v) WindowedScan) option" where
  "next_batch fl w =
     (case ws_pending w of
        b # rest \<Rightarrow> Some (Some (Inr b), w\<lparr>ws_pending := rest\<rparr>)
      | [] \<Rightarrow>
          (case next_window fl w of
             (None, w') \<Rightarrow> Some (None, w')
           | (Some (Inl e), w') \<Rightarrow> Some (Some (Inl e), w')
           | (Some (Inr window), w') \<Rightarrow> next_batch fl (push_slices w' window)))"

text \<open>\<open>stream::unfold\<close>: the batches, and the errors between them, until the scan reports its end.\<close>

partial_function (option) scan_stream ::
    "'f F64 \<Rightarrow> ('f, 'v) WindowedScan \<Rightarrow> ('f, 'v) row_batch read_result list option" where
  "scan_stream fl w =
     Option.bind (next_batch fl w) (\<lambda>(r, w').
       case r of None \<Rightarrow> Some [] | Some b \<Rightarrow> Option.bind (scan_stream fl w') (\<lambda>bs. Some (b # bs)))"

section \<open>Planning the windows\<close>

definition projected_name :: "Schema \<Rightarrow> nat \<Rightarrow> string" where
  "projected_name schema i = fst (schema ! i)"

definition build_projected_schema :: "Schema \<Rightarrow> nat list \<Rightarrow> string list \<Rightarrow> nat list \<Rightarrow> Schema" where
  "build_projected_schema schema projected_indices coord_names effective =
     List.map_filter (\<lambda>i.
       case position (\<lambda>n. n = projected_name schema i) coord_names of
         Some ci \<Rightarrow> if ci \<in> set effective then Some (schema ! i) else None
       | None \<Rightarrow> Some (schema ! i)) projected_indices"

definition projected_chunk_alignment ::
    "Schema \<Rightarrow> nat list \<Rightarrow> string list \<Rightarrow> 'f ZarrArrayMeta list \<Rightarrow> nat list \<Rightarrow> nat list" where
  "projected_chunk_alignment schema projected_indices coord_names dvs sizes =
     (let per_var = List.map_filter (\<lambda>i.
        let name = projected_name schema i in
        if name \<in> set coord_names then None
        else Option.bind (find (\<lambda>v. meta_name v = name) dvs) (\<lambda>v.
               Option.bind (chunks v) (\<lambda>ch. if length ch = length sizes then Some ch else None))) projected_indices
      in if per_var = [] then replicate (length sizes) 1 else chunk_alignment per_var sizes)"

definition plan_window_tiles ::
    "nat list \<Rightarrow> nat \<Rightarrow> nat \<Rightarrow> nat \<Rightarrow> Schema \<Rightarrow> nat list \<Rightarrow> string list \<Rightarrow> 'f ZarrArrayMeta list \<Rightarrow> nat list option" where
  "plan_window_tiles sizes ceiling_bytes rwidth batch_size schema projected_indices coord_names dvs =
     (let align = projected_chunk_alignment schema projected_indices coord_names dvs sizes;
          target = max (ceiling_bytes div max rwidth 1) batch_size
      in map_option tiles (plan_streaming_chunked sizes target align))"

definition all_full_cube :: "Schema \<Rightarrow> nat list \<Rightarrow> string list \<Rightarrow> 'f ZarrArrayMeta list \<Rightarrow> nat list \<Rightarrow> bool" where
  "all_full_cube schema projected_indices coord_names dvs effective \<longleftrightarrow>
     list_all (\<lambda>i.
       let name = projected_name schema i in
       name \<in> set coord_names \<or>
       (case find (\<lambda>v. meta_name v = name) dvs of
          Some v \<Rightarrow> length (shape v) = length effective | None \<Rightarrow> False)) projected_indices"

section \<open>Reading the coordinates\<close>

definition read_coord ::
    "'f F64 \<Rightarrow> (string \<Rightarrow> string \<Rightarrow> int option) \<Rightarrow> ('f, 'v) zarr_store \<Rightarrow> nat option \<Rightarrow> CoordSelection option \<Rightarrow>
     nat \<times> 'f ZarrArrayMeta \<Rightarrow> (nat \<times> 'f CoordValues) read_result" where
  "read_coord fl chrono st outer_slice_idx partition_selection = (\<lambda>(i, coord).
     case open_shape st (meta_name coord) of
       Inl e \<Rightarrow> Inl e
     | Inr sh \<Rightarrow>
         (case sh of
            [] \<Rightarrow> Inl Panic
          | sz # _ \<Rightarrow>
              let sub = (case (outer_slice_idx, partition_selection) of
                           (Some oi, Some sel) \<Rightarrow>
                             if i = oi then (let (rs, re, es) = plan_outer_coord_read sel in [(rs, re)]) else full_ranges sh
                         | _ \<Rightarrow> full_ranges sh)
              in map_result (\<lambda>raw. (sz, apply_cf_time_conversion fl chrono raw (cf_time_attrs coord)))
                   (read_coord_values (coord_elements st) (meta_name coord) sub (data_type coord))))"

section \<open>The scan\<close>

text \<open>The stream of a scan: \<open>None\<close> would be a stream that never ends.\<close>

type_synonym ('f, 'v) stream = "('f, 'v) row_batch read_result list option"

definition scan_grid ::
    "MemoryBudget option \<Rightarrow> Schema \<Rightarrow> Schema \<Rightarrow> nat list \<Rightarrow> string list \<Rightarrow> 'f ZarrArrayMeta list \<Rightarrow> nat list \<Rightarrow> nat list \<Rightarrow>
     CoordSelection list option \<Rightarrow> nat \<Rightarrow> nat option \<Rightarrow> TileGrid option read_result" where
  "scan_grid env_budget schema projected_schema projected_indices coord_names dvs effective query_coord_sizes
      coord_ranges batch_size stream_budget_bytes =
     (if all_full_cube schema projected_indices coord_names dvs effective \<and> effective \<noteq> [] \<and> query_coord_sizes \<noteq> [] then
        let rwidth = max (row_width (map snd projected_schema)) 1;
            explicit = (case stream_budget_bytes of Some b \<Rightarrow> Some b | None \<Rightarrow> map_option budget_bytes env_budget);
            ceiling_bytes = resolve_scan_ceiling explicit 1;
            effective_sels = map (\<lambda>j. case coord_ranges of
                Some ss \<Rightarrow> ss ! (effective ! j) | None \<Rightarrow> SelRange 0 (query_coord_sizes ! j)) [0..<length effective]
        in case plan_window_tiles query_coord_sizes ceiling_bytes rwidth batch_size schema projected_indices coord_names dvs of
             None \<Rightarrow> Inl Panic
           | Some ts \<Rightarrow> Inr (Some (TileGrid_new effective_sels ts))
      else Inr None)"

text \<open>From the resolved selections to the stream: one batch, or a lazy windowed scan.\<close>

definition scan_batches ::
    "'f F64 \<Rightarrow> MemoryBudget option \<Rightarrow> bool \<Rightarrow> ('f, 'v) zarr_store \<Rightarrow> 'f ZarrStoreMeta \<Rightarrow> Schema \<Rightarrow> nat list \<Rightarrow> nat option \<Rightarrow>
     nat \<Rightarrow> nat option \<Rightarrow> nat list \<Rightarrow> CoordSelection list option \<Rightarrow> 'f CoordValues list \<Rightarrow> ('f, 'v) stream read_result" where
  "scan_batches fl env_budget enforce st meta schema projected_indices limit batch_size stream_budget_bytes
      coord_sizes coord_ranges filtered_coord_values =
     (let coord_names = map meta_name (coords meta);
          (effective_coord_sizes, effective_rows) = calculate_effective_sizes coord_sizes coord_ranges;
          names = map (projected_name schema) projected_indices;
          projected_coord_names = filter (\<lambda>n. n \<in> set coord_names) names;
          projected_var_names = filter (\<lambda>n. n \<notin> set coord_names) names
      in case determine_effective_coords projected_var_names projected_coord_names (data_vars meta) coord_names coord_sizes limit of
           Inl e \<Rightarrow> Inl (PlanError e)
         | Inr effective \<Rightarrow>
             let (query_coord_sizes, query_rows) =
                   calculate_query_coord_sizes coord_sizes effective_coord_sizes effective effective_rows;
                 final_rows = (case limit of Some l \<Rightarrow> min l query_rows | None \<Rightarrow> query_rows);
                 projected_schema = build_projected_schema schema projected_indices coord_names effective;
                 ctx = \<lparr>ctx_store = st, ctx_store_meta = meta, ctx_schema = schema, ctx_projected_schema = projected_schema,
                        ctx_projected_indices = projected_indices, ctx_coord_names = coord_names,
                        ctx_effective_coord_indices = effective, ctx_coord_sizes = coord_sizes\<rparr>
             in case scan_grid env_budget schema projected_schema projected_indices coord_names (data_vars meta) effective
                  query_coord_sizes coord_ranges batch_size stream_budget_bytes of
                  Inl e \<Rightarrow> Inl e
                | Inr grid \<Rightarrow>
                    (case (case grid of Some g \<Rightarrow> (if grid_n_batches g \<le> 1 then None else Some g) | None \<Rightarrow> None) of
                       None \<Rightarrow>
                         (case decide_single_batch enforce env_budget final_rows (row_width (map snd projected_schema)) of
                            Inl i \<Rightarrow> Inl (ResourcesExhausted (inf_peak_bytes i) (inf_budget_bytes i))
                          | Inr _ \<Rightarrow>
                              map_result (\<lambda>b. Some (map Inr (slice_to_batch_size (batch_rows b) batch_size)))
                                (build_batch fl ctx coord_ranges query_coord_sizes filtered_coord_values final_rows limit query_rows))
                     | Some g \<Rightarrow>
                         Inr (scan_stream fl \<lparr>ws_ctx = ctx, ws_query_coord_sizes = query_coord_sizes,
                           ws_filtered_coord_values = filtered_coord_values, ws_coord_ranges = coord_ranges, ws_grid = g,
                           ws_limit = limit, ws_emitted = 0, ws_batch_size = batch_size, ws_pending = []\<rparr>)))"

text \<open>\<open>create_empty_result_stream\<close>: one batch without rows; projecting out of range panics.\<close>

definition create_empty_result_stream :: "Schema \<Rightarrow> nat list option \<Rightarrow> ('f, 'v) stream read_result" where
  "create_empty_result_stream schema projection =
     (case projection of
        Some ixs \<Rightarrow> (if list_all (\<lambda>i. i < length schema) ixs then Inr (Some [Inr []]) else Inl Panic)
      | None \<Rightarrow> Inr (Some [Inr []]))"

definition read_zarr ::
    "'f::{linorder,zero} F64 \<Rightarrow> (int \<Rightarrow> DateTime option) \<Rightarrow> (string \<Rightarrow> string \<Rightarrow> int option) \<Rightarrow> MemoryBudget option \<Rightarrow> bool \<Rightarrow>
     ('f, 'v) zarr_store \<Rightarrow> 'f ZarrStoreMeta read_result \<Rightarrow> Schema \<Rightarrow> nat list option \<Rightarrow> nat option \<Rightarrow> 'f CoordFilters option \<Rightarrow>
     CoordSelection option \<Rightarrow> (nat \<times> CoordSelection) list \<Rightarrow> nat \<Rightarrow> nat option \<Rightarrow> ('f, 'v) stream read_result" where
  "read_zarr fl decode chrono env_budget enforce st discovered schema projection limit coord_filters
      partition_selection partition_extra batch_size stream_budget_bytes =
     (case discovered of
        Inl e \<Rightarrow> Inl e
      | Inr meta \<Rightarrow>
          let coord_names = map meta_name (coords meta);
              outer_slice_idx = (if partition_selection = None then None else identify_outer_coord meta);
              outer_extract_sel = (case (outer_slice_idx, partition_selection) of
                  (Some _, Some sel) \<Rightarrow> Some (snd (snd (plan_outer_coord_read sel))) | _ \<Rightarrow> None)
          in case collect_results (map (read_coord fl chrono st outer_slice_idx partition_selection) (enumerate 0 (coords meta))) of
               Inl e \<Rightarrow> Inl e
             | Inr cs \<Rightarrow>
                 let coord_sizes = map fst cs; coord_values = map snd cs;
                     resolved = (case coord_filters of
                       None \<Rightarrow> Some None
                     | Some fs \<Rightarrow> map_option Some (calculate_coord_ranges fl decode
                         (filters_without_outer fs outer_slice_idx coord_names) coord_names (map coord_values_to_ref coord_values)))
                 in case resolved of
                      None \<Rightarrow> create_empty_result_stream schema projection
                    | Some ranges \<Rightarrow>
                        let coord_ranges = apply_partition_selection ranges partition_selection partition_extra meta coord_sizes in
                        (case extract_filtered_coords fl coord_values
                           (make_extract_selections coord_ranges outer_slice_idx outer_extract_sel) of
                           None \<Rightarrow> Inl Panic
                         | Some filtered_coord_values \<Rightarrow>
                             let projected_indices = (case projection of Some ixs \<Rightarrow> ixs | None \<Rightarrow> [0..<length schema]) in
                             if \<not> list_all (\<lambda>i. i < length schema) projected_indices then Inl Panic
                             else scan_batches fl env_budget enforce st meta schema projected_indices limit batch_size
                                    stream_budget_bytes coord_sizes coord_ranges filtered_coord_values))"

section \<open>The stream of a windowed scan\<close>

definition emit :: "nat \<Rightarrow> ('f, 'v) RecordBatch read_result \<Rightarrow> ('f, 'v) row_batch read_result list" where
  "emit batch_size r =
     (case r of
        Inl e \<Rightarrow> [Inl e]
      | Inr b \<Rightarrow> if num_rows b = 0 then [] else map Inr (slice_to_batch_size (batch_rows b) batch_size))"

text \<open>The windows a scan builds, with a bound on their number.\<close>

fun scan_windows :: "nat \<Rightarrow> 'f F64 \<Rightarrow> ('f, 'v) WindowedScan \<Rightarrow> ('f, 'v) RecordBatch read_result list" where
  "scan_windows 0 fl w = []"
| "scan_windows (Suc n) fl w =
     (case next_window fl w of (None, w') \<Rightarrow> [] | (Some r, w') \<Rightarrow> r # scan_windows n fl w')"

abbreviation tiles_left :: "('f, 'v) WindowedScan \<Rightarrow> nat" where
  "tiles_left w \<equiv> length (remaining (ws_grid w))"

lemma tile_batch_pending [simp]: "tile_batch fl (w\<lparr>ws_pending := p\<rparr>) aw = tile_batch fl w aw"
  by (simp add: tile_batch_def Let_def split: option.split)

lemma next_window_pending:
  "next_window fl (w\<lparr>ws_pending := p\<rparr>) = (case next_window fl w of (r, w') \<Rightarrow> (r, w'\<lparr>ws_pending := p\<rparr>))"
proof -
  have "tile_batch fl (w\<lparr>ws_pending := p, ws_grid := g\<rparr>) aw = tile_batch fl (w\<lparr>ws_grid := g\<rparr>) aw" for g aw
    by (simp add: tile_batch_def Let_def split: option.split)
  then show ?thesis
    by (auto simp: next_window_def Let_def split: prod.splits option.splits sum.splits)
qed

lemma scan_windows_pending [simp]: "scan_windows n fl (w\<lparr>ws_pending := p\<rparr>) = scan_windows n fl w"
proof (induction n arbitrary: w)
  case (Suc n)
  then show ?case by (auto simp: next_window_pending split: prod.splits option.splits)
qed simp

lemma next_window_fields:
  assumes "next_window fl w = (r, w')"
  shows "ws_pending w' = ws_pending w" "ws_batch_size w' = ws_batch_size w" "ws_limit w' = ws_limit w" "ws_ctx w' = ws_ctx w"
    "ws_query_coord_sizes w' = ws_query_coord_sizes w" "ws_filtered_coord_values w' = ws_filtered_coord_values w"
    "ws_coord_ranges w' = ws_coord_ranges w"
  using assms by (auto simp: next_window_def Let_def split: prod.splits option.splits sum.splits if_splits)

lemma next_window_grid:
  assumes "next_window fl w = (Some r, w')" "grid_ok (ws_grid w)"
  shows "grid_ok (ws_grid w')" "tiles_left w' < tiles_left w"
proof -
  obtain tile g where g: "grid_next (ws_grid w) = (tile, g)" by fastforce
  then have "tile \<noteq> None" "ws_grid w' = g"
    using assms(1) by (auto simp: next_window_def Let_def split: option.splits sum.splits if_splits)
  then show "grid_ok (ws_grid w')" "tiles_left w' < tiles_left w"
    using grid_next_correct [OF assms(2) g] by auto
qed

lemma next_batch_cases:
  assumes "ws_pending w = []"
  shows "next_batch fl w =
    (case next_window fl w of
       (None, w') \<Rightarrow> Some (None, w')
     | (Some (Inl e), w') \<Rightarrow> Some (Some (Inl e), w')
     | (Some (Inr window), w') \<Rightarrow> next_batch fl (push_slices w' window))"
  using assms by (subst next_batch.simps) simp

lemma scan_stream_pending:
  "ws_pending w = b # rest \<Longrightarrow>
     scan_stream fl w = Option.bind (scan_stream fl (w\<lparr>ws_pending := rest\<rparr>)) (\<lambda>bs. Some (Inr b # bs))"
  by (subst scan_stream.simps, subst next_batch.simps) simp

lemma scan_stream_window:
  assumes "ws_pending w = []"
  shows "scan_stream fl w =
    (case next_window fl w of
       (None, w') \<Rightarrow> Some []
     | (Some (Inl e), w') \<Rightarrow> Option.bind (scan_stream fl w') (\<lambda>bs. Some (Inl e # bs))
     | (Some (Inr window), w') \<Rightarrow> scan_stream fl (push_slices w' window))"
  unfolding scan_stream.simps [of fl w] next_batch_cases [OF assms]
  by (auto split: prod.splits option.splits sum.splits simp: scan_stream.simps [symmetric])

lemma push_slices_pending:
  assumes "ws_pending w = []"
  shows "push_slices w b = w\<lparr>ws_pending := if num_rows b = 0 then [] else slice_to_batch_size (batch_rows b) (ws_batch_size w)\<rparr>"
  using assms by (simp add: push_slices_def)

lemma scan_stream_eq:
  fixes w :: "('f, 'v) WindowedScan"
  assumes "grid_ok (ws_grid w)" "tiles_left w < n"
  shows "scan_stream fl w =
    Some (map Inr (ws_pending w) @ concat (map (emit (ws_batch_size w)) (scan_windows n fl w)))"
  using assms
proof (induction n arbitrary: w)
  case (Suc n)
  have base: "scan_stream fl v = Some (concat (map (emit (ws_batch_size v)) (scan_windows (Suc n) fl v)))"
    if v: "ws_pending v = []" "grid_ok (ws_grid v)" "tiles_left v < Suc n" for v :: "('f, 'v) WindowedScan"
  proof -
    obtain r v' where nw: "next_window fl v = (r, v')" by fastforce
    note fields = next_window_fields [OF nw]
    show ?thesis
    proof (cases r)
      case None
      then show ?thesis using nw v(1) by (simp add: scan_stream_window)
    next
      case (Some res)
      note g = next_window_grid [OF nw [unfolded Some] v(2)]
      have IH: "scan_stream fl u = Some (map Inr (ws_pending u) @ concat (map (emit (ws_batch_size u)) (scan_windows n fl u)))"
        if "u = v'\<lparr>ws_pending := p\<rparr>" for u p
        using Suc.IH [of u] g v(3) that by simp
      show ?thesis
      proof (cases res)
        case (Inl e)
        then show ?thesis using nw Some v(1) fields IH [of v' "ws_pending v'"] by (simp add: scan_stream_window emit_def)
      next
        case (Inr b)
        then show ?thesis
          using nw Some v(1) fields IH [OF push_slices_pending [of v' b]]
          by (simp add: scan_stream_window emit_def push_slices_pending)
      qed
    qed
  qed
  have "scan_stream fl (w\<lparr>ws_pending := p\<rparr>) =
      Some (map Inr p @ concat (map (emit (ws_batch_size w)) (scan_windows (Suc n) fl w)))" for p
  proof (induction p)
    case Nil
    show ?case using base [of "w\<lparr>ws_pending := []\<rparr>"] Suc.prems by (simp del: scan_windows.simps)
  next
    case (Cons b p)
    then show ?case using scan_stream_pending [of "w\<lparr>ws_pending := b # p\<rparr>" b p fl] by (simp del: scan_windows.simps)
  qed
  from this [of "ws_pending w"] show ?case by simp
qed simp

section \<open>Limits and batch sizes\<close>

definition stream_rows :: "('f, 'v) row_batch read_result list \<Rightarrow> ('f, 'v) Cell list list" where
  "stream_rows bs = concat (map (\<lambda>r. case r of Inl e \<Rightarrow> [] | Inr b \<Rightarrow> b) bs)"

lemma stream_rows_append [simp]: "stream_rows (xs @ ys) = stream_rows xs @ stream_rows ys"
  by (simp add: stream_rows_def)

lemma stream_rows_Nil [simp]: "stream_rows [] = []"
  by (simp add: stream_rows_def)

lemma stream_rows_Inr [simp]: "stream_rows (map Inr bs) = concat bs"
  by (simp add: stream_rows_def comp_def)

lemma length_batch_rows [simp]: "length (batch_rows b) = num_rows b"
  by (simp add: batch_rows_def)

lemma slices_correct:
  "concat (slice_to_batch_size batch bs) = batch" "s \<in> set (slice_to_batch_size batch bs) \<Longrightarrow> length s \<le> max bs 1"
  using slice_loop_correct [of "max bs 1" batch 0] by (auto simp: slice_to_batch_size_def Let_def split: if_splits)

lemma stream_rows_emit [simp]: "stream_rows (emit bs r) = (case r of Inl e \<Rightarrow> [] | Inr b \<Rightarrow> batch_rows b)"
  by (cases r) (auto simp: emit_def slices_correct(1), auto simp: batch_rows_def stream_rows_def)

definition within_batch_size :: "nat \<Rightarrow> ('f, 'v) row_batch read_result \<Rightarrow> bool" where
  "within_batch_size batch_size r = (case r of Inl e \<Rightarrow> True | Inr b \<Rightarrow> length b \<le> max batch_size 1)"

lemma emit_within: "r \<in> set (emit bs x) \<Longrightarrow> within_batch_size bs r"
  using slices_correct(2) by (auto simp: emit_def within_batch_size_def split: sum.splits if_splits)

lemma column_slice_len: "column_slice c 0 n = Inr d \<Longrightarrow> column_len d = n"
  by (cases c) (auto simp: slice_array_def map_result_def split: if_splits)

lemma build_batch_limit:
  assumes "build_batch fl ctx cr sizes vals (min l qr) (Some l) qr = Inr b"
  shows "num_rows b \<le> min l qr"
proof -
  obtain cols arrays where a: "collect_results (map (\<lambda>c. column_slice c 0 (min l qr)) cols) = Inr arrays"
      "create_result_batch (ctx_projected_schema ctx) arrays (min l qr) = Inr b"
    using assms by (auto simp: build_batch_def apply_limit_to_arrays_def split: sum.splits)
  have "column_len c = min l qr" if "c \<in> set arrays" for c
  proof -
    have "Inr c \<in> set (map (\<lambda>c. column_slice c 0 (min l qr)) cols)" using a(1) that by (simp add: collect_results_Inr)
    then show ?thesis by (auto dest!: column_slice_len [OF sym])
  qed
  then show ?thesis
    using a(2) by (auto simp: create_result_batch_def try_new_def split: if_splits list.splits)
qed

lemma tile_batch_limit:
  assumes "tile_batch fl w aw = Inr b" "ws_limit w = Some l"
  shows "num_rows b \<le> l - ws_emitted w"
proof -
  obtain ctx cr sizes vals qr where "build_batch fl ctx cr sizes vals (min (l - ws_emitted w) qr) (Some (l - ws_emitted w)) qr = Inr b"
    using assms by (auto simp: tile_batch_def Let_def split: option.splits)
  from build_batch_limit [OF this] show ?thesis by simp
qed

lemma scan_windows_limit:
  assumes "ws_limit w = Some l"
  shows "length (stream_rows (concat (map (emit bs) (scan_windows n fl w)))) \<le> l - ws_emitted w"
  using assms
proof (induction n arbitrary: w)
  case (Suc n)
  obtain r w' where nw: "next_window fl w = (r, w')" by fastforce
  note fields = next_window_fields [OF nw]
  show ?case
  proof (cases r)
    case (Some res)
    have IH: "length (stream_rows (concat (map (emit bs) (scan_windows n fl w')))) \<le> l - ws_emitted w'"
      using Suc.IH [of w'] Suc.prems fields by simp
    show ?thesis
    proof (cases res)
      case (Inl e)
      then have "ws_emitted w' = ws_emitted w" using nw Some
        by (auto simp: next_window_def Let_def split: prod.splits option.splits sum.splits if_splits)
      then show ?thesis using IH nw Some Inl by simp
    next
      case (Inr b)
      then obtain g aw where "tile_batch fl (w\<lparr>ws_grid := g\<rparr>) aw = Inr b" "ws_emitted w' = ws_emitted w + num_rows b"
        using nw Some by (auto simp: next_window_def Let_def split: prod.splits option.splits sum.splits if_splits)
      then show ?thesis
        using IH nw Some Inr tile_batch_limit [of fl "w\<lparr>ws_grid := g\<rparr>" aw b l] Suc.prems by simp
    qed
  qed (use nw in simp)
qed simp

text \<open>A scan that starts on a fresh grid.\<close>

lemma scan_stream_ends:
  assumes "ws_grid w = TileGrid_new ss ts" "ws_pending w = []"
  shows "\<exists>bs. scan_stream fl w = Some bs \<and> list_all (within_batch_size (ws_batch_size w)) bs \<and>
    (case ws_limit w of Some l \<Rightarrow> length (stream_rows bs) \<le> l - ws_emitted w | None \<Rightarrow> True)"
proof -
  define xs where "xs = concat (map (emit (ws_batch_size w)) (scan_windows (Suc (tiles_left w)) fl w))"
  have "scan_stream fl w = Some xs"
    using scan_stream_eq [of w "Suc (tiles_left w)" fl] TileGrid_new_remaining [of ss ts] assms by (simp add: xs_def)
  moreover have "list_all (within_batch_size (ws_batch_size w)) xs"
    using emit_within by (auto simp: list_all_iff xs_def simp del: scan_windows.simps)
  moreover have "case ws_limit w of Some l \<Rightarrow> length (stream_rows xs) \<le> l - ws_emitted w | None \<Rightarrow> True"
    using scan_windows_limit by (auto simp: xs_def simp del: scan_windows.simps split: option.splits)
  ultimately show ?thesis by blast
qed

lemma build_batch_limit_query:
  assumes "build_batch fl ctx cr sizes vals (case limit of Some l \<Rightarrow> min l qr | None \<Rightarrow> qr) limit qr = Inr b"
  shows "case limit of Some l \<Rightarrow> num_rows b \<le> l | None \<Rightarrow> True"
proof (cases limit)
  case (Some l)
  then show ?thesis using build_batch_limit [of fl ctx cr sizes vals l qr b] assms by simp
qed simp

definition ends_within :: "nat option \<Rightarrow> nat \<Rightarrow> ('f, 'v) stream \<Rightarrow> bool" where
  "ends_within limit batch_size s \<longleftrightarrow>
     (case s of
        None \<Rightarrow> False
      | Some bs \<Rightarrow> list_all (within_batch_size batch_size) bs \<and>
          (case limit of Some l \<Rightarrow> length (stream_rows bs) \<le> l | None \<Rightarrow> True))"

lemma one_batch_ends:
  assumes "case limit of Some l \<Rightarrow> num_rows b \<le> l | None \<Rightarrow> True"
  shows "ends_within limit batch_size (Some (map Inr (slice_to_batch_size (batch_rows b) batch_size)))"
  using assms slices_correct(2) [of _ "batch_rows b" batch_size]
  by (auto simp: ends_within_def within_batch_size_def list_all_iff slices_correct(1) split: option.splits)

lemma scan_batches_ends:
  assumes "scan_batches fl eb en st meta schema pix limit batch_size budget sizes cr vals = Inr s"
  shows "ends_within limit batch_size s"
proof -
  obtain effective where e: "determine_effective_coords
      (filter (\<lambda>n. n \<notin> set (map meta_name (coords meta))) (map (projected_name schema) pix))
      (filter (\<lambda>n. n \<in> set (map meta_name (coords meta))) (map (projected_name schema) pix))
      (data_vars meta) (map meta_name (coords meta)) sizes limit = Inr effective"
    using assms by (auto simp: scan_batches_def Let_def split: prod.splits sum.splits)
  obtain es er where es: "calculate_effective_sizes sizes cr = (es, er)" by fastforce
  obtain qs qr where qs: "calculate_query_coord_sizes sizes es effective er = (qs, qr)" by fastforce
  define ps where "ps = build_projected_schema schema pix (map meta_name (coords meta)) effective"
  obtain grid where g: "scan_grid eb schema ps pix (map meta_name (coords meta)) (data_vars meta) effective qs cr batch_size budget = Inr grid"
    using assms e es qs by (auto simp: scan_batches_def Let_def ps_def split: sum.splits)
  show ?thesis
  proof (cases "case grid of Some g \<Rightarrow> (if grid_n_batches g \<le> 1 then None else Some g) | None \<Rightarrow> None")
    case None
    then show ?thesis
      using assms e es qs g one_batch_ends [OF build_batch_limit_query]
      by (auto simp: scan_batches_def Let_def ps_def [symmetric] map_result_def split: sum.splits)
  next
    case (Some h)
    then have h: "grid = Some h" by (auto split: option.splits if_splits)
    then obtain ss ts where fresh: "h = TileGrid_new ss ts"
      using g by (auto simp: scan_grid_def Let_def split: option.splits if_splits)
    define w where "w = \<lparr>ws_ctx = \<lparr>ctx_store = st, ctx_store_meta = meta, ctx_schema = schema, ctx_projected_schema = ps,
        ctx_projected_indices = pix, ctx_coord_names = map meta_name (coords meta), ctx_effective_coord_indices = effective,
        ctx_coord_sizes = sizes\<rparr>, ws_query_coord_sizes = qs, ws_filtered_coord_values = vals, ws_coord_ranges = cr,
        ws_grid = h, ws_limit = limit, ws_emitted = 0, ws_batch_size = batch_size, ws_pending = []\<rparr>"
    have "s = scan_stream fl w"
      using assms e es qs g Some by (simp add: scan_batches_def Let_def ps_def [symmetric] w_def)
    then show ?thesis
      using scan_stream_ends [of w ss ts fl] fresh by (auto simp: w_def ends_within_def split: option.splits)
  qed
qed

lemma empty_stream_ends: "create_empty_result_stream schema projection = Inr s \<Longrightarrow> ends_within limit batch_size s"
  by (auto simp: create_empty_result_stream_def ends_within_def within_batch_size_def stream_rows_def split: option.splits if_splits)

lemma read_zarr_ends:
  assumes "read_zarr fl decode chrono eb en st disc schema projection limit filters psel pextra batch_size budget = Inr s"
  shows "ends_within limit batch_size s"
  using assms unfolding read_zarr_def Let_def
  by (auto split: sum.splits option.splits if_splits intro: scan_batches_ends empty_stream_ends)

section \<open>The values of a coordinate and its windows\<close>

definition value_cells :: "'f F64 \<Rightarrow> 'f CoordValues \<Rightarrow> ('f, 'v) Cell list" where
  "value_cells fl v = map (array_cell (coord_values_to_array fl v)) [0..<cv_len v]"

text \<open>Slicing a compact floating-point coordinate recomputes its values; all others keep them.\<close>

fun sliceable :: "'f CoordValues \<Rightarrow> bool" where
  "sliceable (Compact (Arithmetic f s n) t) = False"
| "sliceable v = True"

lemma map_nth_slice: "s + n \<le> length v \<Longrightarrow> map (\<lambda>i. f (take n (drop s v) ! i)) [0..<n] = take n (drop s (map (\<lambda>i. f (v ! i)) [0..<length v]))"
  by (intro nth_equalityI) auto

lemma cv_slice_cells:
  assumes "sliceable v" "s \<le> e" "e \<le> cv_len v" "e < index_bound"
  shows "\<exists>v'. cv_slice fl v s e = Some v' \<and> sliceable v' \<and>
    (value_cells fl v' :: ('f, 'v) Cell list) = take (e - s) (drop s (value_cells fl v)) \<and>
    array_type (coord_values_to_array fl v') = array_type (coord_values_to_array fl v)"
proof -
  show ?thesis
  proof (cases v)
    case (Compact c t)
    then obtain f st n where c: "c = ArithmeticInt f st n" using assms(1) by (cases c) auto
    obtain v' where v': "cv_slice fl v s e = Some v'" "cv_len v' = e - s"
        "as_i64_vec fl v' = take (e - s) (drop s (as_i64_vec fl v))"
      using cv_slice_values [of v s e fl] assms Compact c by auto
    then obtain f' n' where d: "v' = Compact (ArithmeticInt f' st n') t" using Compact c by (auto simp: Let_def)
    have cells: "value_cells fl (Compact (ArithmeticInt g k m) t) =
        map (if t then TimestampCell else IntCell) (to_vec_i64 fl (ArithmeticInt g k m))" for g k m
      by (auto simp: value_cells_def to_vec_i64_def)
    show ?thesis using v' Compact c unfolding d by (simp add: cells take_map drop_map)
  next
    case (Int64Values xs)
    then show ?thesis using assms by (auto simp: value_cells_def slice_vec_def intro!: nth_equalityI)
  next
    case (Float32Values xs)
    then show ?thesis using assms by (auto simp: value_cells_def slice_vec_def intro!: nth_equalityI)
  next
    case (Float64Values xs)
    then show ?thesis using assms by (auto simp: value_cells_def slice_vec_def intro!: nth_equalityI)
  next
    case (TimestampMicros xs)
    then show ?thesis using assms by (auto simp: value_cells_def slice_vec_def intro!: nth_equalityI)
  qed
qed

text \<open>The rows of a product, one digit per axis.\<close>

lemma product_lists_digit_map:
  "product_lists xss = map (map2 (!) xss) (product_lists (map (\<lambda>xs. [0..<length xs]) xss))"
proof (induction xss)
  case (Cons xs xss)
  have "xs = map ((!) xs) [0..<length xs]" by (simp add: map_nth)
  then have "product_lists (xs # xss) =
      concat (map (\<lambda>x. map ((#) x) (product_lists xss)) (map ((!) xs) [0..<length xs]))" by simp
  also have "\<dots> = map (map2 (!) (xs # xss)) (product_lists (map (\<lambda>xs. [0..<length xs]) (xs # xss)))"
    by (subst Cons.IH) (simp add: map_concat comp_def)
  finally show ?case .
qed simp

lemma product_lists_row:
  assumes "r < prod_list (map length xss)" "i < length xss"
  shows "product_lists xss ! r ! i = xss ! i ! (row_digits (map length xss) r ! i)"
proof -
  have "product_lists (map (\<lambda>xs. [0..<length xs]) xss) ! r = row_digits (map length xss) r"
    using product_lists_digits [OF assms(1)] by (simp add: comp_def)
  moreover have "r < length (product_lists (map (\<lambda>xs. [0..<length xs]) xss))"
    using assms(1) by (simp add: length_product_lists comp_def)
  moreover have "length (row_digits (map length xss) r) = length xss" by (simp add: row_digits_def)
  ultimately show ?thesis
    using assms(2) by (subst product_lists_digit_map) simp
qed

lemma row_digit_less:
  assumes "i < length sizes" "0 < sizes ! i"
  shows "row_digits sizes r ! i < sizes ! i"
  using assms by (simp add: row_digits_def)

section \<open>What a scan should return\<close>

text \<open>
  \<open>cv i p\<close> is the cell of coordinate \<open>i\<close> at position \<open>p\<close>, \<open>data\<close> the contents of the variables: a row of the scan
  at an index tuple holds a cell for every projected field.
\<close>

definition field_cell ::
    "string list \<Rightarrow> (nat \<Rightarrow> nat \<Rightarrow> ('f, 'v) Cell) \<Rightarrow> (string \<Rightarrow> nat list \<Rightarrow> 'v) \<Rightarrow> nat list \<Rightarrow> string \<Rightarrow> ('f, 'v) Cell" where
  "field_cell names cv data p name =
     (case position (\<lambda>n. n = name) names of Some ci \<Rightarrow> cv ci (p ! ci) | None \<Rightarrow> DataCell (data name p))"

definition scan_row ::
    "('f, 'v) BatchCtx \<Rightarrow> (nat \<Rightarrow> nat \<Rightarrow> ('f, 'v) Cell) \<Rightarrow> (string \<Rightarrow> nat list \<Rightarrow> 'v) \<Rightarrow> nat list \<Rightarrow> ('f, 'v) Cell list" where
  "scan_row ctx cv data p =
     map (\<lambda>i. field_cell (ctx_coord_names ctx) cv data p (fst (ctx_schema ctx ! i))) (ctx_projected_indices ctx)"

fun dictionary_ok :: "DataType \<Rightarrow> DataType \<Rightarrow> nat \<Rightarrow> bool" where
  "dictionary_ok (Dictionary kt value_type) vt n \<longleftrightarrow> value_type = vt \<and> key_fits kt n"
| "dictionary_ok dt vt n \<longleftrightarrow> False"

text \<open>
  Every variable spans all coordinates in their order and is stored with the type the schema declares;
  the dictionary keys of every coordinate fit.
\<close>

definition field_ok ::
    "('f, 'v) BatchCtx \<Rightarrow> (string \<Rightarrow> nat list \<Rightarrow> 'v) \<Rightarrow> (nat \<Rightarrow> DataType) \<Rightarrow> string \<times> DataType \<Rightarrow> bool" where
  "field_ok ctx data vt = (\<lambda>(name, dt).
     case position (\<lambda>n. n = name) (ctx_coord_names ctx) of
       Some ci \<Rightarrow> dictionary_ok dt (vt ci) (ctx_coord_sizes ctx ! ci)
     | None \<Rightarrow> element_type dt = dt \<and> open_shape (ctx_store ctx) name = Inr (ctx_coord_sizes ctx) \<and>
         row_major_store (elements (ctx_store ctx) dt) name (ctx_coord_sizes ctx) (data name))"

definition sound_ctx :: "('f, 'v) BatchCtx \<Rightarrow> (string \<Rightarrow> nat list \<Rightarrow> 'v) \<Rightarrow> (nat \<Rightarrow> DataType) \<Rightarrow> bool" where
  "sound_ctx ctx data vt \<longleftrightarrow>
     ctx_effective_coord_indices ctx = [0..<length (ctx_coord_sizes ctx)] \<and>
     length (ctx_coord_names ctx) = length (ctx_coord_sizes ctx) \<and>
     ctx_projected_schema ctx = map ((!) (ctx_schema ctx)) (ctx_projected_indices ctx) \<and>
     list_all (\<lambda>i. i < length (ctx_schema ctx) \<and> field_ok ctx data vt (ctx_schema ctx ! i)) (ctx_projected_indices ctx)"

definition sound_values ::
    "'f F64 \<Rightarrow> (nat \<Rightarrow> nat \<Rightarrow> ('f, 'v) Cell) \<Rightarrow> (nat \<Rightarrow> DataType) \<Rightarrow> CoordSelection list \<Rightarrow> 'f CoordValues list \<Rightarrow> bool" where
  "sound_values fl cv vt sels vals \<longleftrightarrow>
     length vals = length sels \<and>
     (\<forall>i < length sels. sliceable (vals ! i) \<and> value_cells fl (vals ! i) = map (cv i) (positions (sels ! i)) \<and>
        array_type (coord_values_to_array fl (vals ! i)) = vt i)"

abbreviation sel_sizes :: "CoordSelection list \<Rightarrow> nat list" where
  "sel_sizes sels \<equiv> map (length \<circ> positions) sels"

definition sound_sels :: "CoordSelection list \<Rightarrow> nat list \<Rightarrow> bool" where
  "sound_sels sels sizes \<longleftrightarrow>
     sels \<noteq> [] \<and> list_all2 sel_in sels sizes \<and> readable sels \<and> list_all (\<lambda>d. d < index_bound) sizes \<and>
     (\<forall>s \<in> set sels. positions s \<noteq> []) \<and> prod_list (sel_sizes sels) < 2 ^ 64"

definition limited :: "nat option \<Rightarrow> 'a list \<Rightarrow> 'a list" where
  "limited limit xs = (case limit of Some l \<Rightarrow> take l xs | None \<Rightarrow> xs)"

section \<open>One batch holds the rows of its selection\<close>

lemma sel_in_length: "sel_in s d \<Longrightarrow> length (positions s) \<le> d"
proof (cases s)
  case (SelIndices v)
  assume "sel_in s d"
  then have "set v \<subseteq> {..<d}" "distinct v" using SelIndices by auto
  then have "card (set v) \<le> card {..<d}" "distinct v" using card_mono [of "{..<d}" "set v"] by auto
  then show ?thesis using SelIndices by (simp add: distinct_card)
qed auto

lemma coord_column_cells:
  assumes "sound_ctx ctx data vt" "sound_values fl cv vt sels vals" "sound_sels sels (ctx_coord_sizes ctx)"
    "ci < length sels" "dictionary_ok dt (vt ci) (ctx_coord_sizes ctx ! ci)" "n \<le> prod_list (sel_sizes sels)"
  shows "\<exists>c. coord_column fl ctx (sel_sizes sels) vals n dt ci = Inr (Some c) \<and> column_type c = dt \<and>
    column_cells c = take n (map (\<lambda>p. cv ci (p ! ci)) (product_lists (map positions sels))) \<and> column_len c = n"
proof -
  let ?sz = "sel_sizes sels"
  obtain kt where dt: "dt = Dictionary kt (vt ci)" "key_fits kt (ctx_coord_sizes ctx ! ci)"
    using assms(5) by (cases dt) auto
  have l2: "list_all2 sel_in sels (ctx_coord_sizes ctx)" and pos: "\<forall>x \<in> set ?sz. 0 < x" and lt: "prod_list ?sz < 2 ^ 64"
    using assms(3) by (auto simp: sound_sels_def)
  have len: "length (ctx_coord_sizes ctx) = length sels" using l2 by (simp add: list_all2_lengthD)
  have p: "position (\<lambda>i. i = ci) (ctx_effective_coord_indices ctx) = Some ci"
    using assms(1,4) len by (intro position_eqI) (auto simp: sound_ctx_def)
  define keys where "keys = map (\<lambda>r. row_digits ?sz r ! ci) [0..<n]"
  have k: "build_coord_keys_range ci ?sz 0 n = Some keys"
    using build_coord_keys_digits [OF lt pos, of ci 0 n] assms(4) by (simp add: keys_def)
  have "length (positions (sels ! ci)) \<le> ctx_coord_sizes ctx ! ci"
    using l2 assms(4) by (intro sel_in_length) (auto simp: list_all2_conv_all_nth)
  then have fit: "key_fits kt (?sz ! ci)" using dt(2) assms(4) by (auto simp: key_fits_def)
  define arr where "arr = coord_values_to_array fl (vals ! ci)"
  have v: "value_cells fl (vals ! ci) = map (cv ci) (positions (sels ! ci))" "array_type arr = vt ci" "ci < length vals"
    using assms(2,4) by (auto simp: sound_values_def arr_def)
  have "create_coord_dictionary_typed fl (vals ! ci) ci ?sz n kt = Some (keys, arr)"
    using fit k by (auto simp: create_coord_dictionary_typed_def build_dictionary_with_key_type_def key_fits_def arr_def Let_def)
  moreover have "map (array_cell arr) keys = take n (map (\<lambda>p. cv ci (p ! ci)) (product_lists (map positions sels)))"
  proof (rule nth_equalityI)
    show "length (map (array_cell arr) keys) = length (take n (map (\<lambda>p. cv ci (p ! ci)) (product_lists (map positions sels))))"
      using assms(6) by (simp add: keys_def length_product_lists comp_def)
    fix r assume "r < length (map (array_cell arr) keys)"
    then have r: "r < n" "r < prod_list ?sz" using assms(6) by (simp_all add: keys_def)
    define k where "k = row_digits ?sz r ! ci"
    have "0 < ?sz ! ci" using pos assms(4) by (metis length_map nth_mem)
    then have kl: "k < length (positions (sels ! ci))" using row_digit_less [of ci ?sz r] assms(4) by (simp add: k_def)
    have lv: "cv_len (vals ! ci) = length (positions (sels ! ci))" using arg_cong [OF v(1), of length] by (simp add: value_cells_def)
    have "array_cell arr k = value_cells fl (vals ! ci) ! k" using kl lv by (simp add: value_cells_def arr_def)
    also have "\<dots> = cv ci (positions (sels ! ci) ! k)" using kl v(1) by simp
    also have "\<dots> = cv ci (product_lists (map positions sels) ! r ! ci)"
      using product_lists_row [of r "map positions sels" ci] r(2) assms(4) by (simp add: k_def comp_def)
    finally show "map (array_cell arr) keys ! r = take n (map (\<lambda>p. cv ci (p ! ci)) (product_lists (map positions sels))) ! r"
      using r by (simp add: keys_def k_def length_product_lists comp_def)
  qed
  ultimately show ?thesis
    using p v(2,3) dt(1) by (simp add: coord_column_def keys_def)
qed

lemma data_column_cells:
  assumes "sound_ctx ctx data vt" "sound_sels sels (ctx_coord_sizes ctx)" "field_ok ctx data vt (name, dt)"
    "position (\<lambda>n. n = name) (ctx_coord_names ctx) = None"
  shows "\<exists>c. data_column ctx (Some sels) name dt = Inr c \<and> column_type c = dt \<and>
    column_cells c = map (\<lambda>p. DataCell (data name p)) (product_lists (map positions sels)) \<and>
    column_len c = prod_list (sel_sizes sels)"
proof -
  have f: "element_type dt = dt" "open_shape (ctx_store ctx) name = Inr (ctx_coord_sizes ctx)"
      "row_major_store (elements (ctx_store ctx) dt) name (ctx_coord_sizes ctx) (data name)"
    using assms(3,4) by (auto simp: field_ok_def)
  have "read_variable (elements (ctx_store ctx) dt) name (ctx_coord_sizes ctx) ck (ctx_coord_sizes ctx) (Some sels) =
      Inr (map (data name) (product_lists (map positions sels)))" for ck
    using assms(2) by (intro read_variable_exact [OF f(3)]) (auto simp: sound_sels_def)
  then show ?thesis using f by (simp add: data_column_def map_result_def length_product_lists comp_def)
qed

lemma build_column_cells:
  assumes "sound_ctx ctx data vt" "sound_values fl cv vt sels vals" "sound_sels sels (ctx_coord_sizes ctx)"
    "idx \<in> set (ctx_projected_indices ctx)" "n \<le> prod_list (sel_sizes sels)"
  shows "\<exists>c. build_column fl ctx (Some sels) (sel_sizes sels) vals n idx = Inr (Some c) \<and>
    column_type c = snd (ctx_schema ctx ! idx) \<and> n \<le> column_len c \<and> column_len c \<le> prod_list (sel_sizes sels) \<and>
    column_cells c = take (column_len c)
      (map (\<lambda>p. field_cell (ctx_coord_names ctx) cv data p (fst (ctx_schema ctx ! idx))) (product_lists (map positions sels)))"
proof -
  obtain name dt where nd: "ctx_schema ctx ! idx = (name, dt)" by fastforce
  have i: "idx < length (ctx_schema ctx)" and f: "field_ok ctx data vt (name, dt)"
    using assms(1,4) nd by (auto simp: sound_ctx_def list_all_iff)
  show ?thesis
  proof (cases "position (\<lambda>n. n = name) (ctx_coord_names ctx)")
    case (Some ci)
    have "ci < length (ctx_coord_sizes ctx)" using position_Some [OF Some] assms(1) by (simp add: sound_ctx_def)
    then have ci: "ci < length sels" using assms(3) by (auto simp: sound_sels_def dest: list_all2_lengthD)
    obtain c where "coord_column fl ctx (sel_sizes sels) vals n dt ci = Inr (Some c)" "column_type c = dt"
        "column_cells c = take n (map (\<lambda>p. cv ci (p ! ci)) (product_lists (map positions sels)))" "column_len c = n"
      using coord_column_cells [OF assms(1-3) ci _ assms(5), of dt] f Some by (auto simp: field_ok_def)
    then show ?thesis using i nd Some assms(5) by (simp add: build_column_def field_cell_def)
  next
    case None
    obtain c where "data_column ctx (Some sels) name dt = Inr c" "column_type c = dt"
        "column_cells c = map (\<lambda>p. DataCell (data name p)) (product_lists (map positions sels))"
        "column_len c = prod_list (sel_sizes sels)"
      using data_column_cells [OF assms(1,3) f None] by blast
    then show ?thesis using i nd None assms(5)
      by (simp add: build_column_def field_cell_def map_result_def length_product_lists comp_def)
  qed
qed

lemma length_column_cells: "length (column_cells c) = column_len c"
  by (cases c) simp_all

lemma column_slice_cells:
  assumes "n \<le> column_len c"
  shows "\<exists>d. column_slice c 0 n = Inr d \<and> column_type d = column_type c \<and> column_len d = n \<and> column_cells d = take n (column_cells c)"
  using assms by (cases c) (auto simp: slice_array_def map_result_def take_map)

lemma apply_limit_cells:
  assumes "\<And>c. c \<in> set cols \<Longrightarrow> (case limit of Some l \<Rightarrow> min l qr \<le> column_len c | None \<Rightarrow> True)"
  shows "\<exists>ds. apply_limit_to_arrays cols limit qr = Inr ds \<and> map column_type ds = map column_type cols \<and>
    (case limit of Some l \<Rightarrow> list_all2 (\<lambda>c d. column_len d = min l qr \<and> column_cells d = take (min l qr) (column_cells c)) cols ds
     | None \<Rightarrow> ds = cols)"
proof (cases limit)
  case None
  then show ?thesis by (simp add: apply_limit_to_arrays_def)
next
  case (Some l)
  have "\<exists>d. column_slice c 0 (min l qr) = Inr d \<and> column_type d = column_type c \<and> column_len d = min l qr \<and>
      column_cells d = take (min l qr) (column_cells c)" if "c \<in> set cols" for c
    using assms [OF that] Some by (intro column_slice_cells) simp
  then obtain g where g: "\<And>c. c \<in> set cols \<Longrightarrow> column_slice c 0 (min l qr) = Inr (g c) \<and> column_type (g c) = column_type c \<and>
      column_len (g c) = min l qr \<and> column_cells (g c) = take (min l qr) (column_cells c)" by metis
  have "collect_results (map (\<lambda>c. column_slice c 0 (min l qr)) cols) = Inr (map g cols)"
    using g by (intro collect_results_map) simp
  then show ?thesis using Some g
    by (intro exI [of _ "map g cols"]) (simp add: apply_limit_to_arrays_def list_all2_conv_all_nth)
qed

lemma rows_of_columns:
  assumes "\<And>c. c \<in> set cols \<Longrightarrow> length (column_cells c) = n"
    "list_all2 (\<lambda>c f. column_cells c = map f ps) cols fs" "length ps = n"
  shows "batch_rows \<lparr>batch_columns = cols, num_rows = n\<rparr> = map (\<lambda>p. map (\<lambda>f. f p) fs) ps"
proof (rule nth_equalityI)
  fix i assume "i < length (batch_rows \<lparr>batch_columns = cols, num_rows = n\<rparr>)"
  then have i: "i < length ps" using assms(3) by (simp add: batch_rows_def)
  have "map (\<lambda>c. column_cells c ! i) cols = map (\<lambda>f. f (ps ! i)) fs"
    using assms(2) i by (intro nth_equalityI) (auto simp: list_all2_conv_all_nth)
  then show "batch_rows \<lparr>batch_columns = cols, num_rows = n\<rparr> ! i = map (\<lambda>p. map (\<lambda>f. f p) fs) ps ! i"
    using i assms(3) by (simp add: batch_rows_def)
qed (simp add: batch_rows_def assms(3))

lemma limited_take: "limited limit xs = take (case limit of Some l \<Rightarrow> min l (length xs) | None \<Rightarrow> length xs) xs"
  by (auto simp: limited_def min_def split: option.split)

lemma build_batch_rows:
  fixes ctx :: "('f, 'v) BatchCtx"
  assumes "sound_ctx ctx data vt" "sound_values fl cv vt sels vals" "sound_sels sels (ctx_coord_sizes ctx)"
    "qr = prod_list (sel_sizes sels)" "n = (case limit of Some l \<Rightarrow> min l qr | None \<Rightarrow> qr)"
  shows "\<exists>b. build_batch fl ctx (Some sels) (sel_sizes sels) vals n limit qr = Inr b \<and>
    batch_rows b = map (scan_row ctx cv data) (limited limit (product_lists (map positions sels)))"
proof -
  let ?P = "product_lists (map positions sels)" and ?pix = "ctx_projected_indices ctx"
  define cell where "cell i p = field_cell (ctx_coord_names ctx) cv data p (fst (ctx_schema ctx ! i))" for i p
  have lenP: "length ?P = qr" using assms(4) by (simp add: length_product_lists comp_def)
  have n: "n \<le> qr" using assms(5) by (simp split: option.splits)
  have "\<exists>c. build_column fl ctx (Some sels) (sel_sizes sels) vals n i = Inr (Some c) \<and> column_type c = snd (ctx_schema ctx ! i) \<and>
      n \<le> column_len c \<and> column_len c \<le> qr \<and> column_cells c = take (column_len c) (map (cell i) ?P)"
    if "i \<in> set ?pix" for i
    using build_column_cells [OF assms(1-3) that, of n] n assms(4) unfolding cell_def by simp
  then obtain g :: "nat \<Rightarrow> ('f, 'v) Column" where g: "\<And>i. i \<in> set ?pix \<Longrightarrow> build_column fl ctx (Some sels) (sel_sizes sels) vals n i = Inr (Some (g i)) \<and>
      column_type (g i) = snd (ctx_schema ctx ! i) \<and>
      n \<le> column_len (g i) \<and> column_len (g i) \<le> qr \<and> column_cells (g i) = take (column_len (g i)) (map (cell i) ?P)"
    by metis
  have cols: "collect_results (map (build_column fl ctx (Some sels) (sel_sizes sels) vals n) ?pix) = Inr (map (Some \<circ> g) ?pix)"
    using g by (intro collect_results_map) simp
  have filter_cols: "List.map_filter (\<lambda>c. c) (map (Some \<circ> g) xs) = map g xs" for xs
    by (induction xs) (simp_all add: List.map_filter_simps)
  obtain ds where ds: "apply_limit_to_arrays (map g ?pix) limit qr = Inr ds" "map column_type ds = map column_type (map g ?pix)"
      "case limit of Some l \<Rightarrow> list_all2 (\<lambda>c d. column_len d = min l qr \<and> column_cells d = take (min l qr) (column_cells c)) (map g ?pix) ds
       | None \<Rightarrow> ds = map g ?pix"
    using apply_limit_cells [where cols = "map g ?pix" and limit = limit and qr = qr] g assms(5) by (auto split: option.splits)
  have cells: "list_all2 (\<lambda>c f. column_cells c = map f (take n ?P)) ds (map cell ?pix) \<and> (\<forall>c \<in> set ds. column_len c = n)"
  proof (cases limit)
    case None
    then have d: "ds = map g ?pix" "n = qr" using ds(3) assms(5) by simp_all
    have "column_len (g i) = n" if "i \<in> set ?pix" for i using g [OF that] d(2) by linarith
    then show ?thesis using g d(1) by (auto simp: list_all2_conv_all_nth take_map)
  next
    case (Some l)
    then have "list_all2 (\<lambda>c d. column_len d = n \<and> column_cells d = take n (column_cells c)) (map g ?pix) ds"
      using ds(3) assms(5) by simp
    then have len: "length ds = length ?pix"
      and d: "\<And>k. k < length ?pix \<Longrightarrow> column_len (ds ! k) = n \<and> column_cells (ds ! k) = take n (column_cells (g (?pix ! k)))"
      by (auto simp: list_all2_conv_all_nth)
    have "column_cells (ds ! k) = map (cell (?pix ! k)) (take n ?P)" if "k < length ?pix" for k
    proof -
      have "n \<le> column_len (g (?pix ! k))" "column_cells (g (?pix ! k)) = take (column_len (g (?pix ! k))) (map (cell (?pix ! k)) ?P)"
        using g [of "?pix ! k"] that by simp_all
      then show ?thesis using d [OF that] by (metis min.absorb1 take_map take_take)
    qed
    then show ?thesis using len d by (auto simp: list_all2_conv_all_nth in_set_conv_nth)
  qed
  have schema: "ctx_projected_schema ctx = map ((!) (ctx_schema ctx)) ?pix" using assms(1) by (simp add: sound_ctx_def)
  have types: "map column_type ds = map snd (ctx_projected_schema ctx)"
    unfolding ds(2) schema using g by (simp add: comp_def)
  have "create_result_batch (ctx_projected_schema ctx) ds n = Inr \<lparr>batch_columns = ds, num_rows = n\<rparr>"
  proof (cases ds)
    case Nil
    then show ?thesis using types by (simp add: create_result_batch_def)
  next
    case (Cons c cs)
    then show ?thesis using types cells by (auto simp: create_result_batch_def try_new_def list_all_iff)
  qed
  then have b: "build_batch fl ctx (Some sels) (sel_sizes sels) vals n limit qr = Inr \<lparr>batch_columns = ds, num_rows = n\<rparr>"
    using cols ds(1) by (simp add: build_batch_def filter_cols)
  have "batch_rows \<lparr>batch_columns = ds, num_rows = n\<rparr> = map (\<lambda>p. map (\<lambda>f. f p) (map cell ?pix)) (take n ?P)"
    using cells lenP n by (intro rows_of_columns) (auto simp: length_column_cells)
  then have "batch_rows \<lparr>batch_columns = ds, num_rows = n\<rparr> = map (scan_row ctx cv data) (limited limit ?P)"
    unfolding limited_take lenP assms(5) [symmetric] by (simp add: scan_row_def [abs_def] cell_def comp_def)
  then show ?thesis using b by blast
qed

section \<open>A tile is a selection of its own\<close>

lemma number_windows_positions:
  assumes "w \<in> set (number_windows off ws)" "\<And>v. v \<in> set ws \<Longrightarrow> sel_len v = length (positions v)"
  shows "off \<le> win_offset w \<and> win_len w = length (positions (win_sel w)) \<and> win_sel w \<in> set ws \<and>
    win_offset w - off + win_len w \<le> length (concat (map positions ws)) \<and>
    positions (win_sel w) = take (win_len w) (drop (win_offset w - off) (concat (map positions ws)))"
  using assms
proof (induction ws arbitrary: off)
  case (Cons v ws)
  have v: "sel_len v = length (positions v)" using Cons.prems(2) by simp
  show ?case
  proof (cases "w = \<lparr>win_sel = v, win_offset = off, win_len = sel_len v\<rparr>")
    case False
    then have "w \<in> set (number_windows (off + sel_len v) ws)" using Cons.prems(1) by simp
    then have IH: "off + sel_len v \<le> win_offset w" "win_len w = length (positions (win_sel w))" "win_sel w \<in> set ws"
      "win_offset w - (off + sel_len v) + win_len w \<le> length (concat (map positions ws))"
      "positions (win_sel w) = take (win_len w) (drop (win_offset w - (off + sel_len v)) (concat (map positions ws)))"
      using Cons.IH [of "off + sel_len v", OF _ Cons.prems(2)] by (meson list.set_intros(2))+
    moreover have "win_offset w - off = length (positions v) + (win_offset w - (off + sel_len v))"
      using IH(1) v by simp
    ultimately show ?thesis using v by simp
  qed (simp add: v)
qed simp

lemma window_kind:
  assumes "w \<in> set (window_outer_selection s n)"
  shows "is_indices w = is_indices s"
proof (cases s)
  case (SelRange a b)
  show ?thesis
  proof (cases "b \<le> a")
    case False
    then have "w \<in> set (window_range a b (max n 1))" using assms SelRange by (simp add: Let_def)
    then show ?thesis using window_range_correct [of a b "max n 1"] False SelRange by force
  qed (use assms SelRange in \<open>simp add: Let_def\<close>)
qed (use assms in \<open>auto simp: Let_def split: if_splits\<close>)

lemma sel_in_subset:
  assumes "sel_in s d" "sel_wf v" "positions v \<noteq> []" "set (positions v) \<subseteq> set (positions s)"
  shows "sel_in v d"
proof -
  have lt: "\<forall>x \<in> set (positions v). x < d"
  proof (cases s)
    case (SelRange a b)
    then show ?thesis using assms(1,4) by auto
  next
    case (SelIndices u)
    then show ?thesis using assms(1,4) by auto
  qed
  show ?thesis
  proof (cases v)
    case (SelRange a b)
    then have "b - 1 \<in> set (positions v)" using assms(3) by auto
    then have "b - 1 < d" using lt by blast
    then show ?thesis using SelRange assms(2) by auto
  qed (use assms lt in auto)
qed

lemma sel_in_wf: "sel_in s d \<Longrightarrow> d < index_bound \<Longrightarrow> sel_wf s"
  by (cases s) auto

lemma axis_window_facts:
  assumes "w \<in> set (axis_windows s t)" "sel_in s d" "d < index_bound" "positions s \<noteq> []"
  shows "win_offset w + win_len w \<le> length (positions s)"
    "positions (win_sel w) = take (win_len w) (drop (win_offset w) (positions s))"
    "win_len w = length (positions (win_sel w))" "positions (win_sel w) \<noteq> []" "sel_in (win_sel w) d"
    "is_indices (win_sel w) = is_indices s"
proof -
  have wf: "sel_wf s" using assms(2,3) by (rule sel_in_wf)
  have l: "sel_len v = length (positions v)" if "v \<in> set (window_outer_selection s t)" for v
    using window_sizes(1) [OF wf that] by (rule sel_len_positions)
  note f = number_windows_positions [OF assms(1) [unfolded axis_windows_def] l]
  have c: "concat (map positions (window_outer_selection s t)) = positions s" using wf by (rule window_concat)
  have v: "win_sel w \<in> set (window_outer_selection s t)" using f by blast
  show "win_offset w + win_len w \<le> length (positions s)"
    "positions (win_sel w) = take (win_len w) (drop (win_offset w) (positions s))"
    "win_len w = length (positions (win_sel w))" using f unfolding c diff_zero by blast+
  show ne: "positions (win_sel w) \<noteq> []" using window_sizes(3) [OF wf v assms(4)] .
  have "set (positions (win_sel w)) \<subseteq> set (positions s)" using v unfolding c [symmetric] by auto
  then show "sel_in (win_sel w) d" using sel_in_subset [OF assms(2) window_sizes(1) [OF wf v] ne] by blast
  show "is_indices (win_sel w) = is_indices s" using v by (rule window_kind)
qed

lemma in_product_lists: "xs \<in> set (product_lists xss) \<longleftrightarrow> list_all2 (\<lambda>x ys. x \<in> set ys) xs xss"
  by (simp add: product_lists_set)

lemma tile_selections_all:
  assumes "length aw = length sels"
  shows "tile_selections [0..<length sels] aw sels = Some (map win_sel aw)"
proof -
  have "foldl (\<lambda>acc (j, w). Option.bind acc (\<lambda>ss.
      if j < length [0..<length sels] \<and> [0..<length sels] ! j < length ss then Some (ss[[0..<length sels] ! j := win_sel w]) else None))
      (Some ss) (enumerate k vs) = Some (take k ss @ map win_sel vs)"
    if "length ss = length sels" "k + length vs = length sels" for k vs ss
    using that
  proof (induction vs arbitrary: k ss)
    case (Cons v vs)
    have "take (Suc k) (ss[k := win_sel v]) = take k ss @ [win_sel v]"
      using Cons.prems by (simp add: take_Suc_conv_app_nth)
    then show ?case using Cons.IH [of "ss[k := win_sel v]" "Suc k"] Cons.prems by simp
  qed simp
  from this [of sels 0 aw] show ?thesis using assms by (simp add: tile_selections_def)
qed

text \<open>The tiles of a grid over the selections of a scan.\<close>

definition tile_of :: "CoordSelection list \<Rightarrow> AxisWindow list \<Rightarrow> bool" where
  "tile_of sels aw \<longleftrightarrow> length aw = length sels \<and> (\<forall>j < length sels. \<exists>t. aw ! j \<in> set (axis_windows (sels ! j) t))"

lemma grid_tiles:
  assumes "aw \<in> set (product_lists (map2 axis_windows sels ts))" "length ts = length sels"
  shows "tile_of sels aw"
  using assms by (auto simp: tile_of_def in_product_lists list_all2_conv_all_nth) blast

lemma tile_facts:
  assumes "tile_of sels aw" "sound_sels sels sizes" "j < length sels"
  shows "win_offset (aw ! j) + win_len (aw ! j) \<le> length (positions (sels ! j))"
    "positions (win_sel (aw ! j)) = take (win_len (aw ! j)) (drop (win_offset (aw ! j)) (positions (sels ! j)))"
    "win_len (aw ! j) = length (positions (win_sel (aw ! j)))" "positions (win_sel (aw ! j)) \<noteq> []"
    "sel_in (win_sel (aw ! j)) (sizes ! j)" "is_indices (win_sel (aw ! j)) = is_indices (sels ! j)"
proof -
  obtain t where t: "aw ! j \<in> set (axis_windows (sels ! j) t)" using assms(1,3) by (auto simp: tile_of_def)
  have s: "sel_in (sels ! j) (sizes ! j)" "sizes ! j < index_bound" "positions (sels ! j) \<noteq> []"
    using assms(2,3) by (auto simp: sound_sels_def list_all2_conv_all_nth list_all_length)
  from axis_window_facts [OF t s]
  show "win_offset (aw ! j) + win_len (aw ! j) \<le> length (positions (sels ! j))"
    "positions (win_sel (aw ! j)) = take (win_len (aw ! j)) (drop (win_offset (aw ! j)) (positions (sels ! j)))"
    "win_len (aw ! j) = length (positions (win_sel (aw ! j)))" "positions (win_sel (aw ! j)) \<noteq> []"
    "sel_in (win_sel (aw ! j)) (sizes ! j)" "is_indices (win_sel (aw ! j)) = is_indices (sels ! j)" by blast+
qed

lemma prod_list_le: "list_all2 (\<le>) xs ys \<Longrightarrow> prod_list xs \<le> prod_list (ys :: nat list)"
  by (induction rule: list_all2_induct) (simp_all add: mult_le_mono)

lemma tile_sound:
  assumes "tile_of sels aw" "sound_sels sels sizes"
  shows "sound_sels (map win_sel aw) sizes" "map win_len aw = sel_sizes (map win_sel aw)"
    "product_usize (map win_len aw) = prod_list (sel_sizes (map win_sel aw))"
proof -
  note f = tile_facts [OF assms]
  have len: "length aw = length sels" using assms(1) by (simp add: tile_of_def)
  show w: "map win_len aw = sel_sizes (map win_sel aw)" using f(3) len by (intro nth_equalityI) simp_all
  have "list_all2 (\<le>) (sel_sizes (map win_sel aw)) (sel_sizes sels)"
    using f(1,3) len by (auto simp: list_all2_conv_all_nth intro: add_leD2)
  from prod_list_le [OF this] have lt: "prod_list (sel_sizes (map win_sel aw)) < 2 ^ 64"
    using assms(2) by (auto simp: sound_sels_def)
  have "readable (map win_sel aw)"
    using assms(2) f(6) len by (auto simp: readable_def sound_sels_def list_all_length nth_tl)
  then show s: "sound_sels (map win_sel aw) sizes"
    using assms(2) f(4,5) len lt by (auto simp: sound_sels_def list_all2_conv_all_nth in_set_conv_nth)
  show "product_usize (map win_len aw) = prod_list (sel_sizes (map win_sel aw))"
    unfolding w using s by (intro product_usize) (auto simp: sound_sels_def)
qed

lemma tile_values_sound:
  fixes fl :: "'f F64" and cv :: "nat \<Rightarrow> nat \<Rightarrow> ('f, 'v) Cell"
  assumes "tile_of sels aw" "sound_sels sels sizes" "sound_values fl cv vt sels vals"
  shows "\<exists>vs. tile_values fl [0..<length sels] aw vals = Some vs \<and> sound_values fl cv vt (map win_sel aw) vs"
proof -
  note f = tile_facts [OF assms(1,2)]
  have len: "length aw = length sels" "length vals = length sels"
    using assms(1,3) by (simp_all add: tile_of_def sound_values_def)
  have "\<exists>v. cv_slice fl (vals ! i) (win_offset (aw ! i)) (win_offset (aw ! i) + win_len (aw ! i)) = Some v \<and> sliceable v \<and>
      (value_cells fl v :: ('f, 'v) Cell list) = map (cv i) (positions (win_sel (aw ! i))) \<and> array_type (coord_values_to_array fl v) = vt i"
    if i: "i < length sels" for i
  proof -
    have v: "sliceable (vals ! i)" "(value_cells fl (vals ! i) :: ('f, 'v) Cell list) = map (cv i) (positions (sels ! i))"
        "array_type (coord_values_to_array fl (vals ! i)) = vt i"
      using assms(3) i by (auto simp: sound_values_def)
    have l: "cv_len (vals ! i) = length (positions (sels ! i))" using arg_cong [OF v(2), of length] by (simp add: value_cells_def)
    have "sel_in (sels ! i) (sizes ! i)" "sizes ! i < index_bound"
      using assms(2) i by (auto simp: sound_sels_def list_all2_conv_all_nth list_all_length)
    then have "length (positions (sels ! i)) < index_bound" using sel_in_length [of "sels ! i" "sizes ! i"] by linarith
    then show ?thesis
      using cv_slice_cells [OF v(1), of "win_offset (aw ! i)" "win_offset (aw ! i) + win_len (aw ! i)" fl, where 'v = 'v]
        f(1,2) [OF i] l v(2,3) by (auto simp: take_map drop_map)
  qed
  then obtain g where g: "\<And>i. i < length sels \<Longrightarrow>
      cv_slice fl (vals ! i) (win_offset (aw ! i)) (win_offset (aw ! i) + win_len (aw ! i)) = Some (g i) \<and> sliceable (g i) \<and>
      (value_cells fl (g i) :: ('f, 'v) Cell list) = map (cv i) (positions (win_sel (aw ! i))) \<and> array_type (coord_values_to_array fl (g i)) = vt i"
    by metis
  have p: "position (\<lambda>ec. ec = i) [0..<length sels] = Some i" if "i < length sels" for i
    using that by (intro position_eqI) auto
  have "tile_values fl [0..<length sels] aw vals = Some (map (\<lambda>(i, v). g i) (enumerate 0 vals))"
    unfolding tile_values_def using g p len by (intro collect_options_map) (auto simp: in_set_enumerate_eq)
  moreover have "sound_values fl cv vt (map win_sel aw) (map (\<lambda>(i, v). g i) (enumerate 0 vals))"
    using g len by (auto simp: sound_values_def nth_enumerate_eq)
  ultimately show ?thesis by blast
qed

section \<open>The streamed rows\<close>

text \<open>A windowed scan over the selections \<open>sels\<close>.\<close>

definition scan_over ::
    "('f, 'v) BatchCtx \<Rightarrow> CoordSelection list \<Rightarrow> 'f CoordValues list \<Rightarrow> ('f, 'v) WindowedScan \<Rightarrow> bool" where
  "scan_over ctx sels vals w \<longleftrightarrow>
     ws_ctx w = ctx \<and> ws_query_coord_sizes w = sel_sizes sels \<and> ws_filtered_coord_values w = vals \<and>
     (case ws_coord_ranges w of Some ss \<Rightarrow> ss | None \<Rightarrow> full_selections (ctx_coord_sizes ctx)) = sels"

definition rows_owed :: "('f, 'v) WindowedScan \<Rightarrow> nat option" where
  "rows_owed w = map_option (\<lambda>l. l - ws_emitted w) (ws_limit w)"

lemma tile_batch_rows:
  fixes ctx :: "('f, 'v) BatchCtx"
  assumes "sound_ctx ctx data vt" "sound_values fl cv vt sels vals" "sound_sels sels (ctx_coord_sizes ctx)"
    "scan_over ctx sels vals w" "tile_of sels aw"
  shows "\<exists>b. tile_batch fl w aw = Inr b \<and> batch_rows b = map (scan_row ctx cv data) (limited (rows_owed w) (tile_rows aw))"
proof -
  obtain vs where vs: "tile_values fl [0..<length sels] aw vals = Some vs" "sound_values fl cv vt (map win_sel aw) vs"
    using tile_values_sound [OF assms(5,3,2)] by blast
  note t = tile_sound [OF assms(5,3)]
  have len: "length aw = length sels" "length sels = length (ctx_coord_sizes ctx)"
    using assms(3,5) by (auto simp: tile_of_def sound_sels_def list_all2_lengthD)
  have e: "ctx_effective_coord_indices ctx = [0..<length sels]" using assms(1) len by (simp add: sound_ctx_def)
  have s: "tile_selections [0..<length sels] aw sels = Some (map win_sel aw)" using len by (intro tile_selections_all)
  have z: "tile_sizes aw (sel_sizes sels) = Some (sel_sizes (map win_sel aw))"
    unfolding t(2) [symmetric] using len by (simp add: tile_sizes_def)
  let ?qr = "prod_list (sel_sizes (map win_sel aw))"
  define n where "n = (case rows_owed w of Some l \<Rightarrow> min l ?qr | None \<Rightarrow> ?qr)"
  have "tile_batch fl w aw = build_batch fl ctx (Some (map win_sel aw)) (sel_sizes (map win_sel aw)) vs n (rows_owed w) ?qr"
    using assms(4) vs(1) e s z t(3)
    by (cases "ws_limit w") (simp_all add: tile_batch_def scan_over_def Let_def rows_owed_def n_def)
  then show ?thesis
    using build_batch_rows [OF assms(1) vs(2) t(1) refl, of n "rows_owed w"] n_def by (simp add: tile_rows_def)
qed

lemma limited_append:
  "limited m xs @ limited (map_option (\<lambda>l. l - length (limited m xs)) m) ys = limited m (xs @ ys)"
  by (auto simp: limited_def min_def split: option.split)

lemma map_limited: "map f (limited m xs) = limited m (map f xs)"
  by (auto simp: limited_def take_map split: option.split)

lemma windows_rows:
  fixes ctx :: "('f, 'v) BatchCtx"
  assumes ctx: "sound_ctx ctx data vt" "sound_values fl cv vt sels vals" "sound_sels sels (ctx_coord_sizes ctx)"
  shows "scan_over ctx sels vals w \<Longrightarrow> grid_ok (ws_grid w) \<Longrightarrow> (\<forall>aw \<in> set (remaining (ws_grid w)). tile_of sels aw) \<Longrightarrow>
    tiles_left w < n \<Longrightarrow>
    (\<forall>r \<in> set (scan_windows n fl w). \<exists>b. r = Inr b) \<and>
    stream_rows (concat (map (emit bs) (scan_windows n fl w))) =
      limited (rows_owed w) (map (scan_row ctx cv data) (grid_rows (remaining (ws_grid w))))"
proof (induction n arbitrary: w)
  case (Suc n)
  let ?row = "scan_row ctx cv data"
  obtain r w' where nw: "next_window fl w = (r, w')" by fastforce
  note fields = next_window_fields [OF nw]
  obtain tile g where g: "grid_next (ws_grid w) = (tile, g)" by fastforce
  note gr = grid_next_correct [OF Suc.prems(2) g]
  consider l where "ws_limit w = Some l" "l \<le> ws_emitted w"
    | "tile = None" "\<not> (case ws_limit w of Some l \<Rightarrow> l \<le> ws_emitted w | None \<Rightarrow> False)"
    | aw where "tile = Some aw" "\<not> (case ws_limit w of Some l \<Rightarrow> l \<le> ws_emitted w | None \<Rightarrow> False)"
    by (cases tile; cases "ws_limit w") force+
  then show ?case
  proof cases
    case 1
    then have "r = None" using nw by (simp add: next_window_def)
    then show ?thesis using nw 1 by (simp add: rows_owed_def limited_def)
  next
    case 2
    then have "r = None" using nw g by (simp add: next_window_def)
    moreover have "remaining (ws_grid w) = []" using gr 2 by simp
    ultimately show ?thesis using nw by (simp add: grid_rows_def limited_def split: option.split)
  next
    case (3 aw)
    have rem: "remaining (ws_grid w) = aw # remaining g" using gr 3 by simp
    have so: "scan_over ctx sels vals (w\<lparr>ws_grid := g\<rparr>)" using Suc.prems(1) by (simp add: scan_over_def)
    obtain b where b: "tile_batch fl (w\<lparr>ws_grid := g\<rparr>) aw = Inr b"
        "batch_rows b = map ?row (limited (rows_owed w) (tile_rows aw))"
      using tile_batch_rows [OF ctx so, of aw] Suc.prems(3) rem by (auto simp: rows_owed_def)
    have w': "r = Some (Inr b)" "w' = w\<lparr>ws_grid := g, ws_emitted := ws_emitted w + num_rows b\<rparr>"
      using nw g 3 b(1) by (simp_all add: next_window_def)
    have IH: "\<forall>r \<in> set (scan_windows n fl w'). \<exists>b. r = Inr b"
      "stream_rows (concat (map (emit bs) (scan_windows n fl w'))) =
        limited (rows_owed w') (map ?row (grid_rows (remaining g)))"
      using Suc.IH [of w'] Suc.prems gr rem w'(2) by (auto simp: scan_over_def)
    have "num_rows b = length (limited (rows_owed w) (tile_rows aw))"
      using arg_cong [OF b(2), of length] by simp
    then have owed: "rows_owed w' = map_option (\<lambda>l. l - length (limited (rows_owed w) (map ?row (tile_rows aw)))) (rows_owed w)"
      using w'(2) by (cases "ws_limit w") (simp_all add: rows_owed_def map_limited [symmetric])
    have "stream_rows (concat (map (emit bs) (scan_windows (Suc n) fl w))) =
        limited (rows_owed w) (map ?row (tile_rows aw)) @ limited (rows_owed w') (map ?row (grid_rows (remaining g)))"
      using nw w'(1) IH(2) b(2) by (simp add: map_limited)
    also have "\<dots> = limited (rows_owed w) (map ?row (tile_rows aw) @ map ?row (grid_rows (remaining g)))"
      unfolding owed by (rule limited_append)
    finally show ?thesis using nw w'(1) IH(1) by (simp add: rem grid_rows_def)
  qed
qed simp

lemma sound_sels_wf: "sound_sels sels sizes \<Longrightarrow> \<forall>s \<in> set sels. sel_wf s \<and> 0 < length (positions s)"
  by (auto simp: sound_sels_def list_all2_conv_all_nth list_all_length in_set_conv_nth) (blast intro: sel_in_wf)

lemma scan_sizes_ok:
  assumes "sound_sels sels sizes"
  shows "sizes_ok (sel_sizes sels)"
proof -
  have pos: "\<forall>s \<in> set sels. 0 < length (positions s)" using sound_sels_wf [OF assms] by blast
  have "length (positions s) < index_bound" if s: "s \<in> set sels" for s
  proof -
    obtain i where i: "i < length sels" "s = sels ! i" using s by (metis in_set_conv_nth)
    then have "sel_in s (sizes ! i)" "sizes ! i < index_bound"
      using assms by (auto simp: sound_sels_def list_all2_conv_all_nth list_all_length)
    then show ?thesis using sel_in_length by (meson le_less_trans)
  qed
  moreover have "prod_list (sel_sizes sels) < 2 ^ 128"
    using assms by (auto simp: sound_sels_def intro: less_trans)
  ultimately show ?thesis using pos by (auto simp: sizes_ok_def)
qed

lemma scan_rows_streamed:
  fixes ctx :: "('f, 'v) BatchCtx"
  assumes "sound_ctx ctx data vt" "sound_values fl cv vt sels vals" "sound_sels sels (ctx_coord_sizes ctx)"
    "scan_over ctx sels vals w" "plan_streaming_chunked (sel_sizes sels) target ck = Some p"
    "ws_grid w = TileGrid_new sels (tiles p)" "ws_pending w = []"
  shows "\<exists>bs. scan_stream fl w = Some (map Inr bs) \<and>
    concat bs = limited (rows_owed w) (map (scan_row ctx cv data) (product_lists (map positions sels)))"
proof -
  have wf: "\<forall>s \<in> set sels. sel_wf s" and pos: "\<forall>s \<in> set sels. 0 < length (positions s)" and ne: "sels \<noteq> []"
    using sound_sels_wf [OF assms(3)] assms(3) by (auto simp: sound_sels_def)
  have lens: "map sel_len sels = sel_sizes sels" using wf by (simp add: sel_len_positions)
  have ok: "sizes_ok (map sel_len sels)" using scan_sizes_ok [OF assms(3)] unfolding lens .
  obtain i t where p: "i < length sels" "tiles p = replicate i 1 @ t # drop (Suc i) (map sel_len sels)"
    using chunked_plan_shape [OF ok, of target ck] ne assms(5) unfolding lens by auto
  let ?ts = "replicate i 1 @ t # map sel_len (drop (Suc i) sels)"
  have ts: "tiles p = ?ts" "length ?ts = length sels" using p by (simp_all add: drop_map)
  have sp: "\<forall>s \<in> set sels. sel_wf s \<and> 0 < sel_len s" using wf pos by (simp add: sel_len_positions)
  have rows: "grid_rows (product_lists (map2 axis_windows sels ?ts)) = product_lists (map positions sels)"
    using row_major_rows [OF wf ts(2)] pivot_row_major [OF sp p(1)] by simp
  note rem = TileGrid_new_remaining [of sels ?ts]
  have grid: "grid_ok (ws_grid w)" "remaining (ws_grid w) = product_lists (map2 axis_windows sels ?ts)"
    using rem assms(6) ts(1) by simp_all
  have tiles_ok: "\<forall>aw \<in> set (remaining (ws_grid w)). tile_of sels aw"
    unfolding grid(2) using grid_tiles [OF _ ts(2)] by blast
  define xs where "xs = scan_windows (Suc (tiles_left w)) fl w"
  have x: "\<forall>r \<in> set xs. \<exists>b. r = Inr b" "stream_rows (concat (map (emit (ws_batch_size w)) xs)) =
      limited (rows_owed w) (map (scan_row ctx cv data) (product_lists (map positions sels)))"
    using windows_rows [OF assms(1-4) grid(1) tiles_ok lessI, of "ws_batch_size w"] rows
    by (auto simp: xs_def grid(2) simp del: scan_windows.simps)
  have "\<exists>bs. concat (map (emit (ws_batch_size w)) xs) = map Inr bs"
    using x(1)
  proof (induction xs)
    case (Cons r xs)
    then obtain b bs where "r = Inr b" "concat (map (emit (ws_batch_size w)) xs) = map Inr bs" by auto
    moreover have "\<exists>cs. emit (ws_batch_size w) (Inr b) = map Inr cs"
    proof (cases "num_rows b = 0")
      case True
      then show ?thesis by (intro exI [of _ "[]"]) (simp add: emit_def)
    qed (auto simp: emit_def)
    ultimately show ?case by (auto simp flip: map_append)
  qed simp
  then obtain bs where bs: "concat (map (emit (ws_batch_size w)) xs) = map Inr bs" by blast
  have "scan_stream fl w = Some (map Inr bs)"
    using scan_stream_eq [OF grid(1) lessI, of fl] assms(7) bs by (simp add: xs_def del: scan_windows.simps)
  then show ?thesis using x(2) bs by auto
qed

lemma read_variable_whole:
  assumes "sels = full_selections sizes"
  shows "read_variable retrieve name sizes ck sizes None = read_variable retrieve name sizes ck sizes (Some sels)"
proof -
  have r: "list_all (\<lambda>s. \<not> is_indices s) sels" by (simp add: assms full_selections_def list_all_iff)
  then have "position is_indices sels = None" by (simp add: position_None list_all_iff)
  moreover have "ranges_or_full sizes sels sizes = Some (full_ranges sizes)"
    using ranges_of_ranges [OF r, of sizes sizes] by (simp add: assms full_selections_def full_ranges_def comp_def)
  ultimately show ?thesis by (simp add: read_variable_def build_read_plans_def)
qed

lemma build_batch_whole:
  assumes "sound_ctx ctx data vt"
  shows "build_batch fl ctx None sz vals n limit qr = build_batch fl ctx (Some (full_selections (ctx_coord_sizes ctx))) sz vals n limit qr"
proof -
  have "build_column fl ctx None sz vals n i = build_column fl ctx (Some (full_selections (ctx_coord_sizes ctx))) sz vals n i"
    if "i \<in> set (ctx_projected_indices ctx)" for i
  proof -
    have "field_ok ctx data vt (ctx_schema ctx ! i)" using assms that by (auto simp: sound_ctx_def list_all_iff)
    then show ?thesis
      by (auto simp: build_column_def field_ok_def data_column_def read_variable_whole [OF refl] split: option.splits prod.splits)
  qed
  then have "map (build_column fl ctx None sz vals n) (ctx_projected_indices ctx) =
      map (build_column fl ctx (Some (full_selections (ctx_coord_sizes ctx))) sz vals n) (ctx_projected_indices ctx)" by simp
  then show ?thesis unfolding build_batch_def by (rule arg_cong)
qed

text \<open>The context \<open>scan_batches\<close> builds when every coordinate is effective.\<close>

definition full_ctx :: "('f, 'v) zarr_store \<Rightarrow> 'f ZarrStoreMeta \<Rightarrow> Schema \<Rightarrow> nat list \<Rightarrow> nat list \<Rightarrow> ('f, 'v) BatchCtx" where
  "full_ctx st meta schema pix sizes =
     \<lparr>ctx_store = st, ctx_store_meta = meta, ctx_schema = schema,
      ctx_projected_schema = build_projected_schema schema pix (map meta_name (coords meta)) [0..<length sizes],
      ctx_projected_indices = pix, ctx_coord_names = map meta_name (coords meta),
      ctx_effective_coord_indices = [0..<length sizes], ctx_coord_sizes = sizes\<rparr>"

definition spans_all_coords :: "'f ZarrStoreMeta \<Rightarrow> Schema \<Rightarrow> nat list \<Rightarrow> nat list \<Rightarrow> nat option \<Rightarrow> bool" where
  "spans_all_coords meta schema pix sizes limit \<longleftrightarrow>
     determine_effective_coords
       (filter (\<lambda>n. n \<notin> set (map meta_name (coords meta))) (map (projected_name schema) pix))
       (filter (\<lambda>n. n \<in> set (map meta_name (coords meta))) (map (projected_name schema) pix))
       (data_vars meta) (map meta_name (coords meta)) sizes limit = Inr [0..<length sizes]"

lemma effective_sizes:
  assumes "sound_sels sels sizes" "sels = (case cr of Some ss \<Rightarrow> ss | None \<Rightarrow> full_selections sizes)"
  shows "calculate_effective_sizes sizes cr = (sel_sizes sels, prod_list (sel_sizes sels))"
proof -
  have wf: "\<forall>s \<in> set sels. sel_wf s \<and> 0 < length (positions s)" by (rule sound_sels_wf [OF assms(1)])
  have z: "map sel_len sels = sel_sizes sels" using wf by (simp add: sel_len_positions)
  have prod: "product_usize (sel_sizes sels) = prod_list (sel_sizes sels)"
    using assms(1) by (intro product_usize) (auto simp: sound_sels_def)
  show ?thesis
  proof (cases cr)
    case None
    then have "sel_sizes sels = sizes" using assms(2) by (simp add: full_selections_def comp_def)
    then show ?thesis using None prod by (simp add: calculate_effective_sizes_def)
  next
    case (Some ss)
    have "calculate_filtered_rows sels = product_usize (map sel_len sels)"
      by (simp add: calculate_filtered_rows_def product_usize_def foldl_map)
    then have "calculate_filtered_rows ss = prod_list (sel_sizes sels)"
      using Some assms(2) prod unfolding z by simp
    then show ?thesis using Some assms(2) z by (simp add: calculate_effective_sizes_def)
  qed
qed

lemma scan_batches_rows:
  fixes st :: "('f, 'v) zarr_store" and meta :: "'f ZarrStoreMeta"
  assumes ctx: "sound_ctx (full_ctx st meta schema pix sizes) data vt"
    and vals: "sound_values fl cv vt sels vals" and sels: "sound_sels sels sizes"
    and cr: "sels = (case cr of Some ss \<Rightarrow> ss | None \<Rightarrow> full_selections sizes)"
    and eff: "spans_all_coords meta schema pix sizes limit" and admitted: "\<not> enforce"
  shows "\<exists>bs. scan_batches fl env enforce st meta schema pix limit batch_size budget sizes cr vals = Inr (Some (map Inr bs)) \<and>
    concat bs = limited limit (map (scan_row (full_ctx st meta schema pix sizes) cv data) (product_lists (map positions sels)))"
proof -
  define names where "names = map meta_name (coords meta)"
  define ps where "ps = build_projected_schema schema pix names [0..<length sizes]"
  let ?ctx = "full_ctx st meta schema pix sizes" and ?qs = "sel_sizes sels" and ?qr = "prod_list (sel_sizes sels)"
  define n where "n = (case limit of Some l \<Rightarrow> min l ?qr | None \<Rightarrow> ?qr)"
  have len: "length sels = length sizes" using sels by (auto simp: sound_sels_def dest: list_all2_lengthD)
  have es: "calculate_effective_sizes sizes cr = (?qs, ?qr)" by (rule effective_sizes [OF sels cr])
  have qs: "calculate_query_coord_sizes sizes ?qs [0..<length sizes] ?qr = (?qs, ?qr)"
    by (simp add: calculate_query_coord_sizes_def)
  have C: "?ctx = \<lparr>ctx_store = st, ctx_store_meta = meta, ctx_schema = schema, ctx_projected_schema = ps,
      ctx_projected_indices = pix, ctx_coord_names = names, ctx_effective_coord_indices = [0..<length sizes],
      ctx_coord_sizes = sizes\<rparr>"
    by (simp add: full_ctx_def ps_def names_def)
  have cs: "ctx_coord_sizes ?ctx = sizes" by (simp add: full_ctx_def)
  define single where "single = build_batch fl ?ctx cr ?qs vals n limit ?qr"
  have "single = build_batch fl ?ctx (Some sels) ?qs vals n limit ?qr"
    using cr build_batch_whole [OF ctx, of fl ?qs vals n limit ?qr] cs by (auto simp: single_def split: option.splits)
  then obtain b where b: "single = Inr b"
      "batch_rows b = map (scan_row ?ctx cv data) (limited limit (product_lists (map positions sels)))"
    using build_batch_rows [OF ctx vals, of ?qr n limit] sels cs n_def by auto
  define grid where "grid = scan_grid env schema ps pix names (data_vars meta) [0..<length sizes] ?qs cr batch_size budget"
  have grid: "grid = Inr None \<or> (\<exists>p target ck. grid = Inr (Some (TileGrid_new sels (tiles p))) \<and>
      plan_streaming_chunked ?qs target ck = Some p)"
  proof (cases "all_full_cube schema pix names (data_vars meta) [0..<length sizes] \<and> sizes \<noteq> []")
    case False
    then show ?thesis using len by (auto simp: grid_def scan_grid_def)
  next
    case True
    define rw where "rw = max (row_width (map snd ps)) 1"
    define ceil where "ceil = resolve_scan_ceiling (case budget of Some b \<Rightarrow> Some b | None \<Rightarrow> map_option budget_bytes env) 1"
    define align where "align = projected_chunk_alignment schema pix names (data_vars meta) ?qs"
    have eff_sels: "map (\<lambda>j. case cr of Some ss \<Rightarrow> ss ! ([0..<length sizes] ! j) | None \<Rightarrow> SelRange 0 (?qs ! j)) [0..<length [0..<length sizes]] = sels"
      using cr len by (intro nth_equalityI) (auto simp: full_selections_def split: option.splits)
    have wf: "\<forall>s \<in> set sels. sel_wf s \<and> 0 < length (positions s)" by (rule sound_sels_wf [OF sels])
    have z: "map sel_len sels = ?qs" using wf by (simp add: sel_len_positions)
    have "sizes_ok ?qs"
      using scan_sizes_ok [OF sels] .
    then obtain q where q: "plan_streaming_chunked ?qs (max (ceil div max rw 1) batch_size) align = Some q"
      using chunked_plan_shape [of ?qs "max (ceil div max rw 1) batch_size" align] sels by (auto simp: sound_sels_def)
    have "?qs \<noteq> []" "[0..<length sizes] \<noteq> []" using True len by auto
    then have "grid = Inr (Some (TileGrid_new sels (tiles q)))"
      unfolding grid_def scan_grid_def Let_def plan_window_tiles_def eff_sels
      using True q by (simp add: rw_def [symmetric] ceil_def [symmetric] align_def [symmetric] del: One_nat_def)
    then show ?thesis using q by blast
  qed
  define branch where "branch =
    (case (case projr grid of Some g \<Rightarrow> (if grid_n_batches g \<le> 1 then None else Some g) | None \<Rightarrow> None) of
       None \<Rightarrow> map_result (\<lambda>b. Some (map Inr (slice_to_batch_size (batch_rows b) batch_size))) single
     | Some g \<Rightarrow> Inr (scan_stream fl \<lparr>ws_ctx = ?ctx, ws_query_coord_sizes = ?qs, ws_filtered_coord_values = vals,
         ws_coord_ranges = cr, ws_grid = g, ws_limit = limit, ws_emitted = 0, ws_batch_size = batch_size, ws_pending = []\<rparr>))"
  have scan: "scan_batches fl env enforce st meta schema pix limit batch_size budget sizes cr vals = branch"
    using grid eff admitted es qs
    unfolding scan_batches_def spans_all_coords_def names_def [symmetric] branch_def single_def C
    by (auto simp: Let_def ps_def [symmetric] grid_def [symmetric] n_def decide_single_batch_def split: option.splits)
  show ?thesis
  proof (cases "case projr grid of Some g \<Rightarrow> (if grid_n_batches g \<le> 1 then None else Some g) | None \<Rightarrow> None")
    case None
    then have "branch = Inr (Some (map Inr (slice_to_batch_size (batch_rows b) batch_size)))"
      by (simp add: branch_def b(1) map_result_def)
    then show ?thesis unfolding scan using b(2) by (simp add: slices_correct(1) map_limited)
  next
    case (Some g)
    then obtain p target ck where g: "g = TileGrid_new sels (tiles p)" "plan_streaming_chunked ?qs target ck = Some p"
      using grid by (auto split: if_splits)
    define w where "w = \<lparr>ws_ctx = ?ctx, ws_query_coord_sizes = ?qs, ws_filtered_coord_values = vals,
         ws_coord_ranges = cr, ws_grid = g, ws_limit = limit, ws_emitted = 0, ws_batch_size = batch_size, ws_pending = []\<rparr>"
    have so: "scan_over ?ctx sels vals w" using cr cs by (cases cr) (simp_all add: scan_over_def w_def)
    have "rows_owed w = limit" by (cases limit) (simp_all add: rows_owed_def w_def)
    then show ?thesis
      unfolding scan branch_def Some
      using scan_rows_streamed [OF ctx vals _ so g(2)] sels g(1) cs by (simp add: w_def)
  qed
qed

section \<open>Declared and delivered types\<close>

text \<open>The types a column can be delivered with.\<close>

fun deliverable :: "bool \<Rightarrow> DataType \<Rightarrow> bool" where
  "deliverable True (Dictionary kt vt) \<longleftrightarrow> vt \<in> {Int64, Float32, Float64, Timestamp}"
| "deliverable True dt \<longleftrightarrow> False"
| "deliverable False dt \<longleftrightarrow> dt \<in> {Int64, Float32, Float64}"

definition projected_ctx :: "('f, 'v) BatchCtx \<Rightarrow> ('f, 'v) BatchCtx" where
  "projected_ctx ctx = ctx\<lparr>ctx_projected_schema :=
     build_projected_schema (ctx_schema ctx) (ctx_projected_indices ctx) (ctx_coord_names ctx) (ctx_effective_coord_indices ctx)\<rparr>"

definition delivered :: "('f, 'v) BatchCtx \<Rightarrow> nat \<Rightarrow> bool" where
  "delivered ctx i \<longleftrightarrow>
     (case position (\<lambda>n. n = projected_name (ctx_schema ctx) i) (ctx_coord_names ctx) of
        Some ci \<Rightarrow> ci \<notin> set (ctx_effective_coord_indices ctx) \<or> deliverable True (snd (ctx_schema ctx ! i))
      | None \<Rightarrow> deliverable False (snd (ctx_schema ctx ! i)))"

lemma array_type_deliverable: "array_type arr \<in> {Int64, Float32, Float64, Timestamp}"
  by (cases arr) simp_all

lemma element_type_deliverable: "element_type dt = dt \<Longrightarrow> deliverable False dt"
  by (auto simp: element_type_def split: if_splits)

lemma dictionary_deliverable: "Dictionary kt (array_type arr) = dt \<Longrightarrow> deliverable True dt"
  using array_type_deliverable [of arr] by auto

lemma position_eq_None: "position (\<lambda>i. i = x) xs = None \<longleftrightarrow> x \<notin> set xs"
  by (auto simp: position_None)

lemma build_column_type:
  assumes "build_column fl ctx cr sz vals n i = Inr oc"
    "kept = (case position (\<lambda>n. n = projected_name (ctx_schema ctx) i) (ctx_coord_names ctx) of
       Some ci \<Rightarrow> if ci \<in> set (ctx_effective_coord_indices ctx) then Some (ctx_schema ctx ! i) else None
     | None \<Rightarrow> Some (ctx_schema ctx ! i))"
  shows "(oc = None \<longleftrightarrow> kept = None) \<and> (\<forall>c. oc = Some c \<longrightarrow> column_type c = snd (ctx_schema ctx ! i) \<longrightarrow> delivered ctx i) \<and>
    (\<forall>f. kept = Some f \<longrightarrow> f = ctx_schema ctx ! i) \<and> (oc = None \<longrightarrow> delivered ctx i)"
proof -
  obtain name dt where nd: "ctx_schema ctx ! i = (name, dt)" by fastforce
  show ?thesis
  proof (cases "position (\<lambda>n. n = name) (ctx_coord_names ctx)")
    case (Some ci)
    then have cc: "coord_column fl ctx sz vals n dt ci = Inr oc"
      using assms(1) nd by (simp add: build_column_def split: if_splits)
    show ?thesis
    proof (cases "ci \<in> set (ctx_effective_coord_indices ctx)")
      case True
      then obtain q where "position (\<lambda>i. i = ci) (ctx_effective_coord_indices ctx) = Some q"
        using position_eq_None [of ci "ctx_effective_coord_indices ctx"] by (cases "position (\<lambda>i. i = ci) (ctx_effective_coord_indices ctx)") auto
      then obtain keys arr where "oc = Some (DictColumn (dictionary_key_type dt) keys arr)"
        using cc by (auto simp: coord_column_def split: option.splits if_splits)
      then show ?thesis
        using assms(2) nd Some True dictionary_deliverable [of "dictionary_key_type dt" arr dt]
        by (auto simp: delivered_def projected_name_def)
    next
      case False
      then have "oc = None" using cc position_eq_None [of ci "ctx_effective_coord_indices ctx"] by (simp add: coord_column_def)
      then show ?thesis using assms(2) nd Some False by (simp add: delivered_def projected_name_def)
    qed
  next
    case None
    then obtain c where c: "oc = Some c" "data_column ctx cr name dt = Inr c"
      using assms(1) nd by (auto simp: build_column_def map_result_def split: if_splits sum.splits)
    then have "column_type c = element_type dt"
      by (auto simp: data_column_def map_result_def split: sum.splits)
    then show ?thesis
      using assms(2) nd None c(1) element_type_deliverable [of dt] by (auto simp: delivered_def projected_name_def)
  qed
qed

lemma columns_delivered:
  assumes "map (build_column fl ctx cr sz vals n) pix = map Inr cols"
    "map column_type (List.map_filter (\<lambda>c. c) cols) =
       map snd (build_projected_schema (ctx_schema ctx) pix (ctx_coord_names ctx) (ctx_effective_coord_indices ctx))"
  shows "list_all (delivered ctx) pix"
  using assms
proof (induction pix arbitrary: cols)
  case (Cons i pix)
  then obtain oc cs where cols: "cols = oc # cs" and b: "build_column fl ctx cr sz vals n i = Inr oc"
      "map (build_column fl ctx cr sz vals n) pix = map Inr cs"
    by (cases cols) auto
  define kept where "kept = (case position (\<lambda>n. n = projected_name (ctx_schema ctx) i) (ctx_coord_names ctx) of
       Some ci \<Rightarrow> if ci \<in> set (ctx_effective_coord_indices ctx) then Some (ctx_schema ctx ! i) else None
     | None \<Rightarrow> Some (ctx_schema ctx ! i))"
  note t = build_column_type [OF b(1) kept_def]
  have s: "build_projected_schema (ctx_schema ctx) (i # pix) (ctx_coord_names ctx) (ctx_effective_coord_indices ctx) =
      (case kept of None \<Rightarrow> [] | Some f \<Rightarrow> [f]) @
      build_projected_schema (ctx_schema ctx) pix (ctx_coord_names ctx) (ctx_effective_coord_indices ctx)"
    by (simp add: build_projected_schema_def List.map_filter_simps kept_def split: option.split)
  show ?case
  proof (cases oc)
    case None
    then have "kept = None" using t by simp
    then show ?thesis using Cons.IH [OF b(2)] Cons.prems(2) t None s by (simp add: cols List.map_filter_simps)
  next
    case (Some c)
    then obtain f where "kept = Some f" using t by (cases kept) auto
    then show ?thesis using Cons.IH [OF b(2)] Cons.prems(2) t Some s by (simp add: cols List.map_filter_simps)
  qed
qed simp

lemma apply_limit_types: "apply_limit_to_arrays cols limit qr = Inr ds \<Longrightarrow> map column_type ds = map column_type cols"
proof -
  have slice: "column_slice c 0 n = Inr d \<Longrightarrow> column_type d = column_type c" for c d :: "('a, 'b) Column" and n
    by (cases c) (auto simp: map_result_def split: sum.splits)
  assume a: "apply_limit_to_arrays cols limit qr = Inr ds"
  show ?thesis
  proof (cases limit)
    case (Some l)
    then have "map (\<lambda>c. column_slice c 0 (min l qr)) cols = map Inr ds"
      using a by (simp add: apply_limit_to_arrays_def collect_results_Inr)
    then show ?thesis using slice
      by (induction cols arbitrary: ds) auto
  qed (use a in \<open>simp add: apply_limit_to_arrays_def\<close>)
qed

lemma build_column_projected [simp]: "build_column fl (projected_ctx ctx) cr sz vals n = build_column fl ctx cr sz vals n"
  by (auto simp: fun_eq_iff build_column_def projected_ctx_def coord_column_def data_column_def split: option.split prod.split sum.split)

lemma build_batch_types:
  assumes "build_batch fl (projected_ctx ctx) cr sz vals n limit qr = Inr b"
  shows "list_all (delivered ctx) (ctx_projected_indices ctx)"
proof -
  have pi: "ctx_projected_indices (projected_ctx ctx) = ctx_projected_indices ctx" by (simp add: projected_ctx_def)
  obtain cols arrays where c: "map (build_column fl ctx cr sz vals n) (ctx_projected_indices ctx) = map Inr cols"
      "apply_limit_to_arrays (List.map_filter (\<lambda>c. c) cols) limit qr = Inr arrays"
      "create_result_batch (ctx_projected_schema (projected_ctx ctx)) arrays n = Inr b"
    using assms by (auto simp: build_batch_def pi collect_results_Inr split: sum.splits)
  have "map column_type arrays = map snd (ctx_projected_schema (projected_ctx ctx))"
    using c(3) by (auto simp: create_result_batch_def try_new_def split: if_splits list.splits)
  then have "map column_type (List.map_filter (\<lambda>c. c) cols) =
      map snd (build_projected_schema (ctx_schema ctx) (ctx_projected_indices ctx) (ctx_coord_names ctx) (ctx_effective_coord_indices ctx))"
    using apply_limit_types [OF c(2)] by (simp add: projected_ctx_def)
  then show ?thesis using columns_delivered [OF c(1)] by blast
qed

section \<open>A concrete store\<close>

definition demo_coord :: "string \<Rightarrow> nat \<Rightarrow> rat ZarrArrayMeta" where
  "demo_coord name n = \<lparr>meta_name = name, data_type = ''int64'', shape = [n], chunks = None, coord_min_max = None,
     cf_time_attrs = None, dimensions = Some [name]\<rparr>"

definition demo_meta :: "rat ZarrStoreMeta" where
  "demo_meta = \<lparr>coords = [demo_coord ''y'' 2, demo_coord ''x'' 3],
     data_vars = [\<lparr>meta_name = ''t'', data_type = ''float64'', shape = [2, 3], chunks = Some [1, 3], coord_min_max = None,
       cf_time_attrs = None, dimensions = Some [''y'', ''x'']\<rparr>], total_rows = 6\<rparr>"

definition demo_zarr :: "(rat, nat list) zarr_store" where
  "demo_zarr = \<lparr>open_shape = (\<lambda>name. Inr [2, 3]), elements = (\<lambda>dt. demo_retrieve),
     coord_elements = \<lparr>retrieve_float = (\<lambda>name sub. Inl Panic), retrieve_int = (\<lambda>name sub. Inr [0])\<rparr>\<rparr>"

definition demo_schema :: Schema where
  "demo_schema = [(''y'', Dictionary Int16 Int64), (''x'', Dictionary Int16 Int64), (''t'', Float64)]"

definition demo_cells :: "nat \<Rightarrow> nat \<Rightarrow> (rat, nat list) Cell" where
  "demo_cells i p = IntCell (if i = 0 then 10 * int p else int p)"

lemma demo_sound:
  "sound_ctx (full_ctx demo_zarr demo_meta demo_schema [0, 1, 2] [2, 3]) (\<lambda>name p. p) (\<lambda>i. Int64)"
  "sound_values exact_f64 demo_cells (\<lambda>i. Int64) (full_selections [2, 3]) [Int64Values [0, 10], Int64Values [0, 1, 2]]"
  "sound_sels (full_selections [2, 3]) [2, 3]"
  "spans_all_coords demo_meta demo_schema [0, 1, 2] [2, 3] (Some 4)"
proof -
  have two: "[0..<2] = [0, Suc 0]" "[0..<3] = [0, Suc 0, 2]" by (simp_all add: upt_rec)
  show "sound_ctx (full_ctx demo_zarr demo_meta demo_schema [0, 1, 2] [2, 3]) (\<lambda>name p. p) (\<lambda>i. Int64)"
    by (simp add: sound_ctx_def full_ctx_def demo_zarr_def demo_meta_def demo_schema_def demo_coord_def field_ok_def key_fits_def
        build_projected_schema_def projected_name_def List.map_filter_simps element_type_def demo_retrieve_row_major)
  show "sound_values exact_f64 demo_cells (\<lambda>i. Int64) (full_selections [2, 3]) [Int64Values [0, 10], Int64Values [0, 1, 2]]"
    by (simp add: sound_values_def full_selections_def value_cells_def demo_cells_def two less_Suc_eq numeral_2_eq_2)
  show "sound_sels (full_selections [2, 3]) [2, 3]"
    by (simp add: sound_sels_def full_selections_def readable_def index_bound_def)
  show "spans_all_coords demo_meta demo_schema [0, 1, 2] [2, 3] (Some 4)"
    by (simp add: spans_all_coords_def demo_meta_def demo_schema_def demo_coord_def projected_name_def determine_effective_coords_def
        variable_coord_sets_def get_variable_coords_def List.map_filter_simps two)
qed

section \<open>Properties\<close>



text \<open>C2: every scan ends: whatever the store returns, errors included, a scan that starts produces a stream
  that terminates, never returns more rows than the limit and no batch above the batch size.\<close>

theorem scan_stream_terminates:
  "case read_zarr fl decode chrono env enforce st discovered schema projection limit coord_filters partition_selection
      partition_extra batch_size stream_budget_bytes of
     Inl e \<Rightarrow> True
   | Inr s \<Rightarrow> ends_within limit batch_size s"
  using read_zarr_ends by (auto split: sum.split)

text \<open>C25: a column whose declared type the reader cannot deliver makes every read of it fail: a batch is only
  returned when all its data columns are declared as 64-bit integers or floats and the values of
  its coordinates as 64-bit integers, floats or timestamps, although the schema declares the narrow types.\<close>

theorem batch_has_deliverable_types:
  "case build_batch fl (projected_ctx ctx) coord_ranges sizes vals final_rows limit query_rows of
     Inl e \<Rightarrow> True
   | Inr b \<Rightarrow> list_all (delivered ctx) (ctx_projected_indices ctx)"
  using build_batch_types by (auto split: sum.split)

text \<open>A scan of a variable that does not use the partitioned coordinate has as many rows in every partition:
  the selection of the partition is not among the sizes of the query, so that the rows of the variable
  are returned once per partition.\<close>

lemma static_variable_once_per_partition:
  assumes "oi \<notin> set effective" "length effective < length sizes" "length ss = length sizes" "list_all (\<lambda>i. i < length sizes) effective"
  shows "calculate_query_coord_sizes sizes (fst (calculate_effective_sizes sizes (restrict_to_partition (Some ss) oi p sizes))) effective r =
    calculate_query_coord_sizes sizes (fst (calculate_effective_sizes sizes (Some ss))) effective r'"
proof -
  have eq: "map ((!) (map sel_len (ss[oi := p]))) effective = map ((!) (map sel_len ss)) effective"
    using assms by (auto simp: list_all_iff) (metis nth_list_update_neq)
  then show ?thesis
    using assms(2)
    by (simp only: calculate_query_coord_sizes_def calculate_effective_sizes_def restrict_to_partition_def Let_def
        option.case fst_conv if_True eq)
qed

end
