(* ===== verification/Agg_Fold.thy ===== *)
theory Agg_Fold
  imports Budget
begin

text \<open>
  The operator of a pushed-down aggregate (\<open>src/physical_plan/zarr_aggregate.rs\<close>): folding the batches of
  a scan into one accumulator set per group.  The lemmas show that the table it builds is the grouped
  aggregate of all rows of all partitions, whatever their split into batches.
\<close>

section \<open>Expressions and aggregates\<close>

text \<open>The values of literals that the program tells apart.\<close>

datatype LiteralValue =
    Utf8Lit "string option"
  | LargeUtf8Lit "string option"
  | Utf8ViewLit "string option"
  | OtherLit nat

text \<open>
  Physical expressions, as far as the program takes them apart; a cast has its target type and
  \<open>OtherPhysExpr\<close> is any other expression over its arguments.
\<close>

datatype PhysExpr =
    ColumnExpr string
  | CastExpr PhysExpr DataType
  | TryCastExpr PhysExpr DataType
  | LiteralExpr LiteralValue
  | ScalarFunctionExpr string "PhysExpr list"
  | OtherPhysExpr nat "PhysExpr list"

datatype AggKind = AggSum | AggCount | AggAvg | AggMin | AggMax

record AggSpec =
  agg_kind :: AggKind
  agg_column :: "string option"

datatype AggError = InternalError string | ArrowError string | AggPanic | StreamError string

section \<open>Batches\<close>

record field =
  field_name :: string
  field_type :: DataType
  field_nullable :: bool

text \<open>A batch of a scan; \<open>'a\<close> is the type of Arrow arrays.\<close>

record 'a scan_batch =
  batch_fields :: "field list"
  batch_arrays :: "'a list"
  batch_len :: nat

datatype 'f AggValue = CountValue int | FloatValue "'f option"

text \<open>
  The Arrow and DataFusion operations the operator calls: casts, reading a \<open>Float64Array\<close> (\<open>None\<close> for a
  null), reading a \<open>ScalarValue\<close>, evaluating an expression on a batch, and building arrays and batches.
\<close>

record ('a, 'k, 'f) arrow_ops =
  arr_type :: "'a \<Rightarrow> DataType"
  arr_cast :: "'a \<Rightarrow> DataType \<Rightarrow> AggError + 'a"
  arr_f64 :: "'a \<Rightarrow> nat \<Rightarrow> 'f option"
  arr_scalar :: "'a \<Rightarrow> nat \<Rightarrow> AggError + 'k"
  evaluate :: "PhysExpr \<Rightarrow> 'a scan_batch \<Rightarrow> AggError + 'a"
  make_batch :: "field list \<Rightarrow> 'a list \<Rightarrow> AggError + 'a scan_batch"
  new_empty_array :: "DataType \<Rightarrow> 'a"
  empty_values :: "AggKind \<Rightarrow> 'a"
  iter_to_array :: "'k list \<Rightarrow> AggError + 'a"
  concat_values :: "'f AggValue list \<Rightarrow> AggError + 'a"

definition column_by_name :: "'a scan_batch \<Rightarrow> string \<Rightarrow> 'a option" where
  "column_by_name b name = map_option ((!) (batch_arrays b)) (position (\<lambda>f. field_name f = name) (batch_fields b))"

fun is_dictionary :: "DataType \<Rightarrow> bool" where
  "is_dictionary (Dictionary k v) = True"
| "is_dictionary dt = False"

fun value_type :: "DataType \<Rightarrow> DataType" where
  "value_type (Dictionary k v) = v"
| "value_type dt = dt"

definition decode_dictionaries :: "('a, 'k, 'f) arrow_ops \<Rightarrow> 'a scan_batch \<Rightarrow> AggError + 'a scan_batch" where
  "decode_dictionaries ops b =
     (if \<not> list_ex (\<lambda>f. is_dictionary (field_type f)) (batch_fields b) then Inr b
      else case collect_results (map (\<lambda>c. if is_dictionary (arr_type ops c)
                 then arr_cast ops c (value_type (arr_type ops c)) else Inr c) (batch_arrays b)) of
        Inl e \<Rightarrow> Inl e
      | Inr cols \<Rightarrow> make_batch ops (map (\<lambda>f. f\<lparr>field_type := value_type (field_type f)\<rparr>) (batch_fields b)) cols)"

definition cast_to :: "('a, 'k, 'f) arrow_ops \<Rightarrow> 'a \<Rightarrow> DataType \<Rightarrow> AggError + 'a" where
  "cast_to ops arr ty = (if arr_type ops arr = ty then Inr arr else arr_cast ops arr ty)"

section \<open>Accumulators\<close>

record 'f Acc =
  acc_count :: nat
  acc_sum :: 'f
  acc_min :: "'f option"
  acc_max :: "'f option"

definition acc_default :: "'f F64 \<Rightarrow> 'f Acc" where
  "acc_default fl = \<lparr>acc_count = 0, acc_sum = f_of_int fl 0, acc_min = None, acc_max = None\<rparr>"

text \<open>The values are linearly ordered: NaN, which \<open>f64::min\<close> and \<open>f64::max\<close> skip, is outside the model.\<close>

definition acc_push :: "('f :: linorder) F64 \<Rightarrow> 'f Acc \<Rightarrow> 'f \<Rightarrow> 'f Acc" where
  "acc_push fl acc v =
     \<lparr>acc_count = acc_count acc + 1, acc_sum = f_add fl (acc_sum acc) v,
      acc_min = Some (case acc_min acc of None \<Rightarrow> v | Some m \<Rightarrow> min m v),
      acc_max = Some (case acc_max acc of None \<Rightarrow> v | Some m \<Rightarrow> max m v)\<rparr>"

fun finalize_one :: "'f F64 \<Rightarrow> 'f Acc \<Rightarrow> AggKind \<Rightarrow> 'f AggValue" where
  "finalize_one fl acc AggCount = CountValue (i64 (int (acc_count acc)))"
| "finalize_one fl acc AggSum = FloatValue (if acc_count acc > 0 then Some (acc_sum acc) else None)"
| "finalize_one fl acc AggAvg =
     FloatValue (if acc_count acc > 0 then Some (f_div fl (acc_sum acc) (f_of_u128 fl (acc_count acc))) else None)"
| "finalize_one fl acc AggMin = FloatValue (acc_min acc)"
| "finalize_one fl acc AggMax = FloatValue (acc_max acc)"

text \<open>
  The cell of an aggregate on one row: no column at all, or the value of its column, \<open>None\<close> for a null.
\<close>

type_synonym 'f agg_cell = "'f option option"

fun fold_cell :: "('f :: linorder) F64 \<Rightarrow> 'f Acc \<Rightarrow> AggKind \<Rightarrow> 'f agg_cell \<Rightarrow> 'f Acc" where
  "fold_cell fl acc AggCount None = acc\<lparr>acc_count := acc_count acc + 1\<rparr>"
| "fold_cell fl acc AggCount (Some v) = (if v \<noteq> None then acc\<lparr>acc_count := acc_count acc + 1\<rparr> else acc)"
| "fold_cell fl acc k (Some v) = (case v of Some x \<Rightarrow> acc_push fl acc x | None \<Rightarrow> acc)"
| "fold_cell fl acc k None = acc"

section \<open>Folding a batch\<close>

type_synonym ('k, 'f) groups = "('k list \<times> 'f Acc list) list"

definition agg_columns :: "('a, 'k, 'f) arrow_ops \<Rightarrow> AggSpec list \<Rightarrow> 'a scan_batch \<Rightarrow> AggError + 'a option list" where
  "agg_columns ops aggs b =
     collect_results (map (\<lambda>spec. case agg_column spec of
         None \<Rightarrow> Inr None
       | Some name \<Rightarrow>
           (case column_by_name b name of
              None \<Rightarrow> Inl (InternalError name)
            | Some arr \<Rightarrow> (case arr_cast ops arr Float64 of Inl e \<Rightarrow> Inl e | Inr a \<Rightarrow> Inr (Some a)))) aggs)"

definition cell_at :: "('a, 'k, 'f) arrow_ops \<Rightarrow> 'a option \<Rightarrow> nat \<Rightarrow> 'f agg_cell" where
  "cell_at ops col row = map_option (\<lambda>a. arr_f64 ops a row) col"

definition new_group :: "'f F64 \<Rightarrow> AggSpec list \<Rightarrow> 'f Acc list" where
  "new_group fl aggs = replicate (length aggs) (acc_default fl)"

definition fold_group :: "('f :: linorder) F64 \<Rightarrow> AggSpec list \<Rightarrow> 'f agg_cell list \<Rightarrow> 'f Acc list \<Rightarrow> 'f Acc list" where
  "fold_group fl aggs cells accs = map2 (\<lambda>acc (spec, c). fold_cell fl acc (agg_kind spec) c) accs (zip aggs cells)"

fun fold_rows :: "('f :: linorder) F64 \<Rightarrow> ('a, 'k, 'f) arrow_ops \<Rightarrow> AggSpec list \<Rightarrow> 'a option list \<Rightarrow> 'a list \<Rightarrow>
    nat list \<Rightarrow> ('k, 'f) groups \<Rightarrow> AggError + ('k, 'f) groups" where
  "fold_rows fl ops aggs cols arrs [] groups = Inr groups"
| "fold_rows fl ops aggs cols arrs (row # rows) groups =
     (case collect_results (map (\<lambda>arr. arr_scalar ops arr row) arrs) of
        Inl e \<Rightarrow> Inl e
      | Inr key \<Rightarrow>
          fold_rows fl ops aggs cols arrs rows
            (entry_with key (new_group fl aggs) (fold_group fl aggs (map (\<lambda>c. cell_at ops c row) cols)) groups))"

definition fold_batch :: "('f :: linorder) F64 \<Rightarrow> ('a, 'k, 'f) arrow_ops \<Rightarrow> PhysExpr list \<Rightarrow> AggSpec list \<Rightarrow>
    ('k, 'f) groups \<Rightarrow> 'a scan_batch \<Rightarrow> AggError + ('k, 'f) groups" where
  "fold_batch fl ops group_exprs aggs groups b =
     (case agg_columns ops aggs b of
        Inl e \<Rightarrow> Inl e
      | Inr cols \<Rightarrow>
          if group_exprs = [] then
            (case map_of groups [] of
               None \<Rightarrow> Inl AggPanic
             | Some g \<Rightarrow>
                 Inr (entry_with [] g (\<lambda>accs. map2 (\<lambda>acc (spec, col).
                     fold (\<lambda>row acc. fold_cell fl acc (agg_kind spec) (cell_at ops col row)) [0..<batch_len b] acc)
                   accs (zip aggs cols)) groups))
          else
            (case decode_dictionaries ops b of
               Inl e \<Rightarrow> Inl e
             | Inr decoded \<Rightarrow>
                 (case collect_results (map (\<lambda>e. evaluate ops e decoded) group_exprs) of
                    Inl e \<Rightarrow> Inl e
                  | Inr arrs \<Rightarrow> fold_rows fl ops aggs cols arrs [0..<batch_len b] groups)))"

section \<open>The operator\<close>

text \<open>The output columns, from the group keys and the finalized values of each aggregate, in group order.\<close>

definition emit_columns :: "('a, 'k, 'f) arrow_ops \<Rightarrow> nat \<Rightarrow> AggSpec list \<Rightarrow> field list \<Rightarrow> 'k list list \<Rightarrow>
    (nat \<Rightarrow> 'f AggValue list) \<Rightarrow> AggError + 'a scan_batch" where
  "emit_columns ops n_group aggs schema keys per_group =
     (let group_col = (\<lambda>j. if keys = [] then Inr (new_empty_array ops (field_type (schema ! j)))
             else case iter_to_array ops (map (\<lambda>k. k ! j) keys) of
                 Inl e \<Rightarrow> Inl e | Inr arr \<Rightarrow> cast_to ops arr (field_type (schema ! j)));
          agg_col = (\<lambda>i. case (if per_group i = [] then Inr (empty_values ops (agg_kind (aggs ! i)))
                               else concat_values ops (per_group i)) of
               Inl e \<Rightarrow> Inl e
             | Inr natural \<Rightarrow> cast_to ops natural (field_type (schema ! (n_group + i))))
      in case collect_results (map group_col [0..<n_group] @ map agg_col [0..<length aggs]) of
           Inl e \<Rightarrow> Inl e
         | Inr cols \<Rightarrow> make_batch ops schema cols)"

definition finalize :: "'f F64 \<Rightarrow> ('a, 'k, 'f) arrow_ops \<Rightarrow> nat \<Rightarrow> AggSpec list \<Rightarrow> field list \<Rightarrow> ('k, 'f) groups \<Rightarrow>
    AggError + 'a scan_batch" where
  "finalize fl ops n_group aggs schema groups =
     emit_columns ops n_group aggs schema (map fst groups)
       (\<lambda>i. map (\<lambda>(k, g). finalize_one fl (g ! i) (agg_kind (aggs ! i))) groups)"

text \<open>The stream of one input partition, pulled to its end or to its first error.\<close>

fun fold_stream :: "('f :: linorder) F64 \<Rightarrow> ('a, 'k, 'f) arrow_ops \<Rightarrow> PhysExpr list \<Rightarrow> AggSpec list \<Rightarrow>
    ('k, 'f) groups \<Rightarrow> (AggError + 'a scan_batch) list \<Rightarrow> AggError + ('k, 'f) groups" where
  "fold_stream fl ops exprs aggs groups [] = Inr groups"
| "fold_stream fl ops exprs aggs groups (item # items) =
     (case item of
        Inl e \<Rightarrow> Inl e
      | Inr b \<Rightarrow>
          (case fold_batch fl ops exprs aggs groups b of
             Inl e \<Rightarrow> Inl e
           | Inr groups' \<Rightarrow> fold_stream fl ops exprs aggs groups' items))"

fun fold_partitions :: "('f :: linorder) F64 \<Rightarrow> ('a, 'k, 'f) arrow_ops \<Rightarrow> PhysExpr list \<Rightarrow> AggSpec list \<Rightarrow>
    ('k, 'f) groups \<Rightarrow> (AggError + (AggError + 'a scan_batch) list) list \<Rightarrow> AggError + ('k, 'f) groups" where
  "fold_partitions fl ops exprs aggs groups [] = Inr groups"
| "fold_partitions fl ops exprs aggs groups (p # ps) =
     (case p of
        Inl e \<Rightarrow> Inl e
      | Inr stream \<Rightarrow>
          (case fold_stream fl ops exprs aggs groups stream of
             Inl e \<Rightarrow> Inl e
           | Inr groups' \<Rightarrow> fold_partitions fl ops exprs aggs groups' ps))"

definition initial_groups :: "'f F64 \<Rightarrow> PhysExpr list \<Rightarrow> AggSpec list \<Rightarrow> ('k, 'f) groups" where
  "initial_groups fl exprs aggs = (if exprs = [] then [([], new_group fl aggs)] else [])"

definition aggregate_execute :: "('f :: linorder) F64 \<Rightarrow> ('a, 'k, 'f) arrow_ops \<Rightarrow> PhysExpr list \<Rightarrow> AggSpec list \<Rightarrow>
    field list \<Rightarrow> (AggError + (AggError + 'a scan_batch) list) list \<Rightarrow> nat \<Rightarrow> AggError + 'a scan_batch" where
  "aggregate_execute fl ops exprs aggs schema inputs part =
     (if part \<noteq> 0 then Inl (InternalError ''ZarrAggregateExec has one output partition'')
      else case fold_partitions fl ops exprs aggs (initial_groups fl exprs aggs) inputs of
        Inl e \<Rightarrow> Inl e
      | Inr groups \<Rightarrow> finalize fl ops (length exprs) aggs schema groups)"

section \<open>The grouped aggregate\<close>

text \<open>What a batch contributes: for each row its group key and the cells of the aggregates.\<close>

type_synonym ('k, 'f) agg_row = "'k list \<times> 'f agg_cell list"

definition row_view :: "('a, 'k, 'f) arrow_ops \<Rightarrow> 'a list \<Rightarrow> 'a option list \<Rightarrow> nat \<Rightarrow> AggError + ('k, 'f) agg_row" where
  "row_view ops arrs cols row =
     (case collect_results (map (\<lambda>arr. arr_scalar ops arr row) arrs) of
        Inl e \<Rightarrow> Inl e | Inr key \<Rightarrow> Inr (key, map (\<lambda>c. cell_at ops c row) cols))"

definition key_arrays :: "('a, 'k, 'f) arrow_ops \<Rightarrow> PhysExpr list \<Rightarrow> 'a scan_batch \<Rightarrow> AggError + 'a list" where
  "key_arrays ops exprs b =
     (if exprs = [] then Inr []
      else case decode_dictionaries ops b of
        Inl e \<Rightarrow> Inl e | Inr decoded \<Rightarrow> collect_results (map (\<lambda>e. evaluate ops e decoded) exprs))"

definition batch_view :: "('a, 'k, 'f) arrow_ops \<Rightarrow> PhysExpr list \<Rightarrow> AggSpec list \<Rightarrow> 'a scan_batch \<Rightarrow>
    AggError + ('k, 'f) agg_row list" where
  "batch_view ops exprs aggs b =
     (case agg_columns ops aggs b of
        Inl e \<Rightarrow> Inl e
      | Inr cols \<Rightarrow>
          (case key_arrays ops exprs b of
             Inl e \<Rightarrow> Inl e | Inr arrs \<Rightarrow> collect_results (map (row_view ops arrs cols) [0..<batch_len b])))"

definition stream_view :: "('a, 'k, 'f) arrow_ops \<Rightarrow> PhysExpr list \<Rightarrow> AggSpec list \<Rightarrow> (AggError + 'a scan_batch) list \<Rightarrow>
    AggError + ('k, 'f) agg_row list" where
  "stream_view ops exprs aggs items =
     (case collect_results (map (\<lambda>item. case item of Inl e \<Rightarrow> Inl e | Inr b \<Rightarrow> batch_view ops exprs aggs b) items) of
        Inl e \<Rightarrow> Inl e | Inr views \<Rightarrow> Inr (concat views))"

definition input_view :: "('a, 'k, 'f) arrow_ops \<Rightarrow> PhysExpr list \<Rightarrow> AggSpec list \<Rightarrow>
    (AggError + (AggError + 'a scan_batch) list) list \<Rightarrow> AggError + ('k, 'f) agg_row list" where
  "input_view ops exprs aggs inputs =
     (case collect_results (map (\<lambda>p. case p of Inl e \<Rightarrow> Inl e | Inr items \<Rightarrow> stream_view ops exprs aggs items) inputs) of
        Inl e \<Rightarrow> Inl e | Inr views \<Rightarrow> Inr (concat views))"

definition cell_values :: "'f agg_cell list \<Rightarrow> 'f list" where
  "cell_values cells = List.map_filter (\<lambda>c. case c of Some (Some v) \<Rightarrow> Some v | _ \<Rightarrow> None) cells"

text \<open>An aggregate over the cells of a group, defined on the whole list: \<open>COUNT\<close> counts the cells that are not null.\<close>

fun reference_agg :: "('f :: linorder) F64 \<Rightarrow> AggKind \<Rightarrow> 'f agg_cell list \<Rightarrow> 'f AggValue" where
  "reference_agg fl AggCount cells = CountValue (i64 (int (length (filter (\<lambda>c. c \<noteq> Some None) cells))))"
| "reference_agg fl AggSum cells =
     (let vs = cell_values cells in FloatValue (if vs = [] then None else Some (foldl (f_add fl) (f_of_int fl 0) vs)))"
| "reference_agg fl AggAvg cells =
     (let vs = cell_values cells in FloatValue (if vs = [] then None
        else Some (f_div fl (foldl (f_add fl) (f_of_int fl 0) vs) (f_of_u128 fl (length vs)))))"
| "reference_agg fl AggMin cells =
     (let vs = cell_values cells in FloatValue (if vs = [] then None else Some (Min (set vs))))"
| "reference_agg fl AggMax cells =
     (let vs = cell_values cells in FloatValue (if vs = [] then None else Some (Max (set vs))))"

definition reference_table :: "('f :: linorder) F64 \<Rightarrow> AggSpec list \<Rightarrow> ('k, 'f) agg_row list \<Rightarrow> 'k list list \<Rightarrow>
    ('k list \<times> 'f AggValue list) list" where
  "reference_table fl aggs rows keys =
     map (\<lambda>k. (k, map (\<lambda>i. reference_agg fl (agg_kind (aggs ! i)) (map (\<lambda>r. snd r ! i) (filter (\<lambda>r. fst r = k) rows)))
       [0..<length aggs])) keys"

text \<open>The output batch of a table of group keys and aggregate values.\<close>

definition emit_table :: "('a, 'k, 'f) arrow_ops \<Rightarrow> nat \<Rightarrow> AggSpec list \<Rightarrow> field list \<Rightarrow> ('k list \<times> 'f AggValue list) list \<Rightarrow>
    AggError + 'a scan_batch" where
  "emit_table ops n_group aggs schema table =
     emit_columns ops n_group aggs schema (map fst table) (\<lambda>i. map (\<lambda>(k, vs). vs ! i) table)"

section \<open>One accumulator\<close>

lemma cell_values_simps [simp]:
  "cell_values [] = []"
  "cell_values (c # cs) = (case c of Some (Some v) \<Rightarrow> v # cell_values cs | _ \<Rightarrow> cell_values cs)"
  by (simp_all add: cell_values_def List.map_filter_simps split: option.splits)

definition fold_cells :: "('f :: linorder) F64 \<Rightarrow> AggKind \<Rightarrow> 'f agg_cell list \<Rightarrow> 'f Acc \<Rightarrow> 'f Acc" where
  "fold_cells fl k cells acc = fold (\<lambda>c acc. fold_cell fl acc k c) cells acc"

lemma fold_cells_count:
  "acc_count (fold_cells fl AggCount cells acc) = acc_count acc + length (filter (\<lambda>c. c \<noteq> Some None) cells)"
proof (induction cells arbitrary: acc)
  case (Cons c cells)
  then show ?case by (cases c; cases "the c") (auto simp: fold_cells_def)
qed (simp add: fold_cells_def)

lemma fold_cells_push:
  assumes "k \<noteq> AggCount"
  shows "fold_cells fl k cells acc = fold (\<lambda>v acc. acc_push fl acc v) (cell_values cells) acc"
proof (induction cells arbitrary: acc)
  case (Cons c cells)
  then show ?case using assms by (cases c; cases "the c"; cases k) (auto simp: fold_cells_def)
qed (simp add: fold_cells_def)

definition best :: "('f \<Rightarrow> 'f \<Rightarrow> 'f) \<Rightarrow> 'f option \<Rightarrow> 'f list \<Rightarrow> 'f option" where
  "best f start vs = fold (\<lambda>v m. Some (case m of None \<Rightarrow> v | Some x \<Rightarrow> f x v)) vs start"

lemma acc_push_values:
  "fold (\<lambda>v acc. acc_push fl acc v) vs acc =
     \<lparr>acc_count = acc_count acc + length vs, acc_sum = foldl (f_add fl) (acc_sum acc) vs,
      acc_min = best min (acc_min acc) vs, acc_max = best max (acc_max acc) vs\<rparr>"
  by (induction vs arbitrary: acc) (simp_all add: acc_push_def best_def)

lemma best_Some: "best f (Some x) vs = Some (foldl f x vs)"
  by (induction vs arbitrary: x) (simp_all add: best_def)

lemma best_None: "best f None vs = (case vs of [] \<Rightarrow> None | v # vs \<Rightarrow> Some (foldl f v vs))"
  using best_Some [of f] by (cases vs) (simp_all add: best_def)

lemma foldl_min: "foldl min (x :: 'f :: linorder) vs = Min (set (x # vs))"
  by (simp only: Min.set_eq_fold foldl_conv_fold min.commute [of _ x for x])

lemma foldl_max: "foldl max (x :: 'f :: linorder) vs = Max (set (x # vs))"
  by (simp only: Max.set_eq_fold foldl_conv_fold max.commute [of _ x for x])

lemma finalize_fold_cells:
  "finalize_one fl (fold_cells fl k cells (acc_default fl)) k = reference_agg fl k cells"
proof (cases k)
  case AggCount
  then show ?thesis using fold_cells_count [of fl cells "acc_default fl"] by (simp add: acc_default_def)
qed (simp_all add: fold_cells_push acc_push_values acc_default_def best_None foldl_min foldl_max Let_def
       split: list.split)

section \<open>One group\<close>

lemma length_fold_group [simp]:
  "length cells = length aggs \<Longrightarrow> length accs = length aggs \<Longrightarrow> length (fold_group fl aggs cells accs) = length aggs"
  by (simp add: fold_group_def)

lemma nth_fold_group [simp]:
  "length cells = length aggs \<Longrightarrow> length accs = length aggs \<Longrightarrow> i < length aggs \<Longrightarrow>
   fold_group fl aggs cells accs ! i = fold_cell fl (accs ! i) (agg_kind (aggs ! i)) (cells ! i)"
  by (simp add: fold_group_def)

text \<open>The accumulators of a group after some rows.\<close>

definition group_of :: "('f :: linorder) F64 \<Rightarrow> AggSpec list \<Rightarrow> 'f agg_cell list list \<Rightarrow> 'f Acc list" where
  "group_of fl aggs cellss =
     map (\<lambda>i. fold_cells fl (agg_kind (aggs ! i)) (map (\<lambda>cells. cells ! i) cellss) (acc_default fl)) [0..<length aggs]"

lemma length_group_of [simp]: "length (group_of fl aggs cellss) = length aggs"
  by (simp add: group_of_def)

lemma group_of_Nil: "group_of fl aggs [] = new_group fl aggs"
  by (simp add: group_of_def new_group_def fold_cells_def map_replicate_const)

lemma fold_group_snoc:
  assumes "length cells = length aggs"
  shows "fold_group fl aggs cells (group_of fl aggs cellss) = group_of fl aggs (cellss @ [cells])"
  using assms by (intro nth_equalityI) (simp_all add: group_of_def fold_cells_def)

lemma finalize_group:
  "i < length aggs \<Longrightarrow> finalize_one fl (group_of fl aggs cellss ! i) (agg_kind (aggs ! i)) =
     reference_agg fl (agg_kind (aggs ! i)) (map (\<lambda>cells. cells ! i) cellss)"
  by (simp add: group_of_def finalize_fold_cells)

section \<open>The group table\<close>

definition push_row :: "('f :: linorder) F64 \<Rightarrow> AggSpec list \<Rightarrow> ('k, 'f) agg_row \<Rightarrow> ('k, 'f) groups \<Rightarrow> ('k, 'f) groups" where
  "push_row fl aggs r = entry_with (fst r) (new_group fl aggs) (fold_group fl aggs (snd r))"

text \<open>The table is the grouped aggregate of the rows seen so far; the keys of \<open>pre\<close> are there from the start.\<close>

definition table_inv :: "('f :: linorder) F64 \<Rightarrow> AggSpec list \<Rightarrow> 'k list set \<Rightarrow> ('k, 'f) agg_row list \<Rightarrow> ('k, 'f) groups \<Rightarrow> bool" where
  "table_inv fl aggs pre rows groups \<longleftrightarrow> distinct (map fst groups) \<and>
     (\<forall>k. map_of groups k =
       (if k \<in> pre \<union> fst ` set rows then Some (group_of fl aggs (map snd (filter (\<lambda>r. fst r = k) rows))) else None))"

lemma table_inv_push:
  assumes inv: "table_inv fl aggs pre rows groups" and l: "length (snd r) = length aggs"
  shows "table_inv fl aggs pre (rows @ [r]) (push_row fl aggs r groups)"
proof -
  have none: "filter (\<lambda>x. fst x = fst r) rows = []" if "fst r \<notin> fst ` set rows"
    using that unfolding filter_empty_conv by (metis image_eqI)
  show ?thesis
    using inv l none by (auto simp: table_inv_def push_row_def fold_group_snoc simp flip: group_of_Nil)
qed

lemma table_inv_fold:
  assumes "table_inv fl aggs pre rows groups" "list_all (\<lambda>r. length (snd r) = length aggs) new"
  shows "table_inv fl aggs pre (rows @ new) (fold (push_row fl aggs) new groups)"
  using assms
proof (induction new arbitrary: rows groups)
  case (Cons r new)
  then show ?case using table_inv_push [of fl aggs pre rows groups r] Cons.IH [of "rows @ [r]"] by simp
qed simp

section \<open>Folding rows, batches and partitions\<close>

lemma agg_columns_length: "agg_columns ops aggs b = Inr cols \<Longrightarrow> length cols = length aggs"
  unfolding agg_columns_def collect_results_Inr by (drule arg_cong [of _ _ length]) simp

lemma row_view_cells: "row_view ops arrs cols row = Inr r \<Longrightarrow> snd r = map (\<lambda>c. cell_at ops c row) cols"
  by (auto simp: row_view_def split: sum.splits)

lemma fold_rows_view:
  assumes "map (row_view ops arrs cols) is = map Inr new"
  shows "fold_rows fl ops aggs cols arrs is groups = Inr (fold (push_row fl aggs) new groups)"
  using assms
proof (induction "is" arbitrary: new groups)
  case (Cons row rows)
  then obtain r new' where new: "new = r # new'" by (cases new) auto
  then obtain key where key: "collect_results (map (\<lambda>arr. arr_scalar ops arr row) arrs) = Inr key"
      "r = (key, map (\<lambda>c. cell_at ops c row) cols)"
    using Cons.prems by (auto simp: row_view_def split: sum.splits)
  then show ?case using Cons.IH [of new'] Cons.prems new by (simp add: push_row_def)
qed simp

lemma batch_viewD:
  assumes "batch_view ops exprs aggs b = Inr new"
  obtains cols arrs where "agg_columns ops aggs b = Inr cols" "length cols = length aggs"
    "key_arrays ops exprs b = Inr arrs" "map (row_view ops arrs cols) [0..<batch_len b] = map Inr new"
  using assms agg_columns_length by (fastforce simp: batch_view_def collect_results_Inr split: sum.splits)

lemma view_cells:
  assumes "batch_view ops exprs aggs b = Inr new"
  shows "list_all (\<lambda>r. length (snd r) = length aggs) new"
proof -
  obtain cols arrs where v: "length cols = length aggs" "map (row_view ops arrs cols) [0..<batch_len b] = map Inr new"
    using assms by (rule batch_viewD)
  have "length (snd r) = length aggs" if "r \<in> set new" for r
  proof -
    have "Inr r \<in> set (map (row_view ops arrs cols) [0..<batch_len b])" unfolding v(2) using that by simp
    then obtain row where "row_view ops arrs cols row = Inr r" by auto
    then show ?thesis using row_view_cells v(1) by fastforce
  qed
  then show ?thesis by (simp add: list_all_iff)
qed

lemma fold_batch_grouped:
  assumes "batch_view ops exprs aggs b = Inr new" "exprs \<noteq> []"
  shows "fold_batch fl ops exprs aggs groups b = Inr (fold (push_row fl aggs) new groups)"
proof -
  obtain cols arrs where v: "agg_columns ops aggs b = Inr cols" "key_arrays ops exprs b = Inr arrs"
      "map (row_view ops arrs cols) [0..<batch_len b] = map Inr new"
    using assms(1) by (rule batch_viewD)
  then show ?thesis using assms(2) fold_rows_view [OF v(3)]
    by (auto simp: fold_batch_def key_arrays_def split: sum.splits)
qed

text \<open>Without group keys the rows all land in the one entry that is there from the start.\<close>

lemma fold_push_global:
  assumes "list_all (\<lambda>r. fst r = []) new"
  shows "fold (push_row fl aggs) new [([], g)] = [([], fold (fold_group fl aggs) (map snd new) g)]"
  using assms by (induction new arbitrary: g) (auto simp: push_row_def)

lemma fold_group_columns:
  assumes "length g = length aggs" "length cols = length aggs"
  shows "fold (fold_group fl aggs) (map (\<lambda>row. map (\<lambda>c. cell_at ops c row) cols) rows) g =
    map2 (\<lambda>acc (spec, col). fold (\<lambda>row acc. fold_cell fl acc (agg_kind spec) (cell_at ops col row)) rows acc) g (zip aggs cols)"
  using assms
proof (induction rows arbitrary: g)
  case Nil
  then show ?case by (intro nth_equalityI) simp_all
next
  case (Cons row rows)
  then show ?case by (simp) (intro nth_equalityI; simp)
qed

lemma fold_batch_global:
  assumes view: "batch_view ops [] aggs b = Inr new" and l: "length g = length aggs"
  shows "fold_batch fl ops [] aggs [([], g)] b = Inr (fold (push_row fl aggs) new [([], g)])"
proof -
  obtain cols arrs where v: "agg_columns ops aggs b = Inr cols" "length cols = length aggs" "key_arrays ops [] b = Inr arrs"
      "map (row_view ops arrs cols) [0..<batch_len b] = map Inr new"
    using view by (rule batch_viewD)
  have "arrs = []" using v(3) by (simp add: key_arrays_def)
  then have "map (Inr :: _ \<Rightarrow> AggError + _) new = map Inr (map (\<lambda>row. ([], map (\<lambda>c. cell_at ops c row) cols)) [0..<batch_len b])"
    using v(4) [symmetric] by (simp add: row_view_def [abs_def] comp_def)
  then have new: "new = map (\<lambda>row. ([], map (\<lambda>c. cell_at ops c row) cols)) [0..<batch_len b]"
    by (simp only: inj_map_eq_map [OF inj_Inr])
  have "list_all (\<lambda>r. fst r = []) new" by (simp add: new list_all_iff)
  then have "fold (push_row fl aggs) new [([], g)] = [([], fold (fold_group fl aggs) (map snd new) g)]"
    by (rule fold_push_global)
  also have "map snd new = map (\<lambda>row. map (\<lambda>c. cell_at ops c row) cols) [0..<batch_len b]" by (simp add: new)
  finally show ?thesis using v(1) fold_group_columns [OF l v(2), of fl ops "[0..<batch_len b]"]
    by (simp add: fold_batch_def)
qed

text \<open>The table after any part of the input.\<close>

definition group_inv :: "('f :: linorder) F64 \<Rightarrow> PhysExpr list \<Rightarrow> AggSpec list \<Rightarrow> ('k, 'f) agg_row list \<Rightarrow> ('k, 'f) groups \<Rightarrow> bool" where
  "group_inv fl exprs aggs rows groups \<longleftrightarrow>
     table_inv fl aggs (if exprs = [] then {[]} else {}) rows groups \<and> (exprs = [] \<longrightarrow> (\<exists>g. groups = [([], g)] \<and> length g = length aggs))"

lemma length_fold_fold_group:
  assumes "length g = length aggs" "list_all (\<lambda>r. length (snd r) = length aggs) new"
  shows "length (fold (fold_group fl aggs) (map snd new) g) = length aggs"
  using assms by (induction new arbitrary: g) simp_all

lemma view_keys_global:
  assumes "batch_view ops [] aggs b = Inr new"
  shows "list_all (\<lambda>r. fst r = []) new"
proof -
  obtain cols arrs where v: "key_arrays ops [] b = Inr arrs" "map (row_view ops arrs cols) [0..<batch_len b] = map Inr new"
    using assms by (rule batch_viewD)
  have "fst r = []" if "r \<in> set new" for r
  proof -
    have "Inr r \<in> set (map (row_view ops arrs cols) [0..<batch_len b])" unfolding v(2) using that by simp
    then show ?thesis using v(1) by (auto simp: key_arrays_def row_view_def)
  qed
  then show ?thesis by (simp add: list_all_iff)
qed

lemma fold_batch_inv:
  assumes inv: "group_inv fl exprs aggs rows groups" and view: "batch_view ops exprs aggs b = Inr new"
  shows "\<exists>groups'. fold_batch fl ops exprs aggs groups b = Inr groups' \<and> group_inv fl exprs aggs (rows @ new) groups'"
proof -
  have t: "table_inv fl aggs (if exprs = [] then {[]} else {}) (rows @ new) (fold (push_row fl aggs) new groups)"
    using inv table_inv_fold view_cells [OF view] by (auto simp: group_inv_def)
  show ?thesis
  proof (cases "exprs = []")
    case True
    then obtain g where g: "groups = [([], g)]" "length g = length aggs" using inv by (auto simp: group_inv_def)
    have keys: "list_all (\<lambda>r. fst r = []) new" using view_keys_global view True by simp
    have "length (fold (fold_group fl aggs) (map snd new) g) = length aggs"
      using g(2) view_cells [OF view] by (rule length_fold_fold_group)
    moreover have "fold_batch fl ops [] aggs [([], g)] b = Inr (fold (push_row fl aggs) new [([], g)])"
      using view g(2) True by (intro fold_batch_global) simp_all
    ultimately show ?thesis using t fold_push_global [OF keys, of fl aggs g] unfolding True g(1)
      by (simp add: group_inv_def)
  next
    case False
    then show ?thesis using t fold_batch_grouped [OF view False] by (simp add: group_inv_def)
  qed
qed

lemma fold_stream_inv:
  assumes "group_inv fl exprs aggs rows groups" "map (case_sum Inl (batch_view ops exprs aggs)) items = map Inr views"
  shows "\<exists>groups'. fold_stream fl ops exprs aggs groups items = Inr groups' \<and>
    group_inv fl exprs aggs (rows @ concat views) groups'"
  using assms
proof (induction items arbitrary: rows groups views)
  case (Cons item items)
  then obtain b new views' where b: "item = Inr b" "batch_view ops exprs aggs b = Inr new" "views = new # views'"
      "map (case_sum Inl (batch_view ops exprs aggs)) items = map Inr views'"
    by (cases views; cases item) auto
  obtain groups' where g: "fold_batch fl ops exprs aggs groups b = Inr groups'" "group_inv fl exprs aggs (rows @ new) groups'"
    using fold_batch_inv [OF Cons.prems(1) b(2)] by blast
  show ?case using Cons.IH [OF g(2) b(4)] g(1) b(1,3) by simp
qed simp

lemma fold_partitions_inv:
  assumes "group_inv fl exprs aggs rows groups" "map (case_sum Inl (stream_view ops exprs aggs)) inputs = map Inr views"
  shows "\<exists>groups'. fold_partitions fl ops exprs aggs groups inputs = Inr groups' \<and>
    group_inv fl exprs aggs (rows @ concat views) groups'"
  using assms
proof (induction inputs arbitrary: rows groups views)
  case (Cons p ps)
  then obtain items new views' where p: "p = Inr items" "stream_view ops exprs aggs items = Inr new" "views = new # views'"
      "map (case_sum Inl (stream_view ops exprs aggs)) ps = map Inr views'"
    by (cases views; cases p) auto
  then obtain vs where vs: "map (case_sum Inl (batch_view ops exprs aggs)) items = map Inr vs" "new = concat vs"
    by (auto simp: stream_view_def collect_results_Inr split: sum.splits)
  obtain groups' where g: "fold_stream fl ops exprs aggs groups items = Inr groups'"
      "group_inv fl exprs aggs (rows @ new) groups'"
    using fold_stream_inv [OF Cons.prems(1) vs(1)] vs(2) by blast
  show ?case using Cons.IH [OF g(2) p(4)] g(1) p(1,3) by simp
qed simp

lemma initial_groups_inv: "group_inv fl exprs aggs [] (initial_groups fl exprs aggs)"
  by (auto simp: group_inv_def table_inv_def initial_groups_def group_of_Nil) (simp add: new_group_def)

section \<open>The output\<close>

lemma finalize_emit:
  assumes inv: "group_inv fl exprs aggs rows groups"
  shows "finalize fl ops n aggs schema groups =
    emit_table ops n aggs schema (reference_table fl aggs rows (map fst groups))"
proof -
  have entry: "g = group_of fl aggs (map snd (filter (\<lambda>r. fst r = k) rows))" if "(k, g) \<in> set groups" for k g
  proof -
    have "distinct (map fst groups)" using inv unfolding group_inv_def table_inv_def by blast
    then have "map_of groups k = Some g" using that by (simp add: map_of_is_SomeI)
    moreover have "map_of groups k = (if k \<in> (if exprs = [] then {[]} else {}) \<union> fst ` set rows
        then Some (group_of fl aggs (map snd (filter (\<lambda>r. fst r = k) rows))) else None)"
      using inv unfolding group_inv_def table_inv_def by blast
    ultimately show ?thesis by (simp split: if_splits)
  qed
  have vals: "map (\<lambda>(k, g). finalize_one fl (g ! i) (agg_kind (aggs ! i))) groups =
      map (\<lambda>(k, vs). vs ! i) (reference_table fl aggs rows (map fst groups))" if "i < length aggs" for i
  proof -
    have "finalize_one fl (g ! i) (agg_kind (aggs ! i)) =
        reference_agg fl (agg_kind (aggs ! i)) (map (\<lambda>r. snd r ! i) (filter (\<lambda>r. fst r = k) rows))"
      if "(k, g) \<in> set groups" for k g
      using entry [OF that] finalize_group [OF \<open>i < length aggs\<close>, of fl "map snd (filter (\<lambda>r. fst r = k) rows)"]
      by (simp add: comp_def)
    then show ?thesis using that by (auto simp: reference_table_def comp_def)
  qed
  have keys: "map fst (reference_table fl aggs rows (map fst groups)) = map fst groups"
    by (simp add: reference_table_def comp_def)
  have cong: "emit_columns ops n aggs schema ks f = emit_columns ops n aggs schema ks g"
    if "\<And>i. i < length aggs \<Longrightarrow> f i = g i" for ks f g
  proof -
    have "map (\<lambda>i. h i (f i)) [0..<length aggs] = map (\<lambda>i. h i (g i)) [0..<length aggs]" for h :: "nat \<Rightarrow> _ \<Rightarrow> AggError + 'z"
      using that by simp
    from this [of "\<lambda>i v. case (if v = [] then Inr (empty_values ops (agg_kind (aggs ! i))) else concat_values ops v) of
        Inl e \<Rightarrow> Inl e | Inr natural \<Rightarrow> cast_to ops natural (field_type (schema ! (n + i)))"]
    show ?thesis unfolding emit_columns_def Let_def by (simp only:)
  qed
  show ?thesis unfolding finalize_def emit_table_def keys using vals by (intro cong) simp
qed

lemma group_inv_keys:
  assumes "group_inv fl exprs aggs rows groups"
  shows "distinct (map fst groups)" "set (map fst groups) = (if exprs = [] then {[]} \<union> fst ` set rows else fst ` set rows)"
proof -
  have m: "map_of groups k = (if k \<in> (if exprs = [] then {[]} else {}) \<union> fst ` set rows
      then Some (group_of fl aggs (map snd (filter (\<lambda>r. fst r = k) rows))) else None)" for k
    using assms unfolding group_inv_def table_inv_def by blast
  have "k \<in> fst ` set groups \<longleftrightarrow> k \<in> (if exprs = [] then {[]} else {}) \<union> fst ` set rows" for k
    using map_of_eq_None_iff [of groups k] m [of k] by (metis option.distinct(1))
  then show "set (map fst groups) = (if exprs = [] then {[]} \<union> fst ` set rows else fst ` set rows)"
    by (intro set_eqI) (simp split: if_splits)
  show "distinct (map fst groups)" using assms unfolding group_inv_def table_inv_def by blast
qed

section \<open>Properties\<close>

text \<open>C4: The operator computes the grouped aggregate of all rows of all partitions: one output row per distinct
  key, or exactly one without keys, with every aggregate taken over the rows of its group, in whatever
  batches the scan delivers them.\<close>

theorem grouped_aggregate_exact:
  assumes "input_view ops exprs aggs inputs = Inr rows"
  shows "\<exists>keys. distinct keys \<and> set keys = (if exprs = [] then {[]} \<union> fst ` set rows else fst ` set rows) \<and>
    aggregate_execute fl ops exprs aggs schema inputs 0 =
      emit_table ops (length exprs) aggs schema (reference_table fl aggs rows keys)"
proof -
  obtain views where v: "map (case_sum Inl (stream_view ops exprs aggs)) inputs = map Inr views" "rows = concat views"
    using assms by (auto simp: input_view_def collect_results_Inr split: sum.splits)
  obtain groups where g: "fold_partitions fl ops exprs aggs (initial_groups fl exprs aggs) inputs = Inr groups"
      "group_inv fl exprs aggs rows groups"
    using fold_partitions_inv [OF initial_groups_inv v(1)] v(2) by auto
  show ?thesis using group_inv_keys [OF g(2)] finalize_emit [OF g(2)] g(1)
    by (intro exI [of _ "map fst groups"]) (simp add: aggregate_execute_def)
qed

definition demo_arrow :: "(DataType \<times> rat option list, rat option, rat) arrow_ops" where
  "demo_arrow =
     \<lparr>arr_type = fst, arr_cast = (\<lambda>a t. Inr (t, snd a)), arr_f64 = (\<lambda>a i. snd a ! i), arr_scalar = (\<lambda>a i. Inr (snd a ! i)),
      evaluate = (\<lambda>e b. case e of ColumnExpr n \<Rightarrow>
          (case column_by_name b n of Some a \<Rightarrow> Inr a | None \<Rightarrow> Inl (ArrowError n)) | _ \<Rightarrow> Inl (ArrowError ''expression'')),
      make_batch = (\<lambda>fs cols. Inr \<lparr>batch_fields = fs, batch_arrays = cols, batch_len = (case cols of [] \<Rightarrow> 0 | c # _ \<Rightarrow> length (snd c))\<rparr>),
      new_empty_array = (\<lambda>t. (t, [])), empty_values = (\<lambda>k. (Float64, [])), iter_to_array = (\<lambda>ks. Inr (Float64, ks)),
      concat_values = (\<lambda>vs. Inr (Float64, map (\<lambda>v. case v of FloatValue x \<Rightarrow> x | CountValue n \<Rightarrow> Some (of_int n)) vs))\<rparr>"

definition demo_batch :: "rat option list \<Rightarrow> rat option list \<Rightarrow> (DataType \<times> rat option list) scan_batch" where
  "demo_batch lats temps =
     \<lparr>batch_fields = [\<lparr>field_name = ''lat'', field_type = Dictionary Int16 Float64, field_nullable = False\<rparr>,
                      \<lparr>field_name = ''temp'', field_type = Float64, field_nullable = True\<rparr>],
      batch_arrays = [(Dictionary Int16 Float64, lats), (Float64, temps)], batch_len = length lats\<rparr>"

definition demo_inputs :: "(AggError + (AggError + (DataType \<times> rat option list) scan_batch) list) list" where
  "demo_inputs =
     [Inr [Inr (demo_batch [Some 1, Some 2] [Some 10, Some 20]), Inr (demo_batch [Some 1] [Some 30])],
      Inr [Inr (demo_batch [Some 2] [None])]]"

definition demo_aggs :: "AggSpec list" where
  "demo_aggs = [\<lparr>agg_kind = AggAvg, agg_column = Some ''temp''\<rparr>, \<lparr>agg_kind = AggCount, agg_column = None\<rparr>]"

lemma demo_view:
  "input_view demo_arrow [ColumnExpr ''lat''] demo_aggs demo_inputs =
    Inr [([Some 1], [Some (Some 10), None]), ([Some 2], [Some (Some 20), None]), ([Some 1], [Some (Some 30), None]),
         ([Some 2], [Some None, None])]"
  by (simp add: input_view_def stream_view_def batch_view_def demo_inputs_def demo_aggs_def demo_batch_def agg_columns_def
      key_arrays_def decode_dictionaries_def column_by_name_def demo_arrow_def row_view_def cell_at_def upt_rec)

theorem grouped_aggregate_exact_witness:
  "\<exists>keys. distinct keys \<and> set keys = {[Some 1], [Some 2]} \<and>
    aggregate_execute exact_f64 demo_arrow [ColumnExpr ''lat''] demo_aggs [] demo_inputs 0 =
      emit_table demo_arrow 1 demo_aggs [] (reference_table exact_f64 demo_aggs
        [([Some 1], [Some (Some 10), None]), ([Some 2], [Some (Some 20), None]), ([Some 1], [Some (Some 30), None]),
         ([Some 2], [Some None, None])] keys)"
  using grouped_aggregate_exact [OF demo_view, of exact_f64 "[]"] by (simp add: insert_commute)

end
