(* ===== verification/Exec_Plan.thy ===== *)
theory Exec_Plan
  imports Partition Filter_Expr Agg_Fold
begin

text \<open>
  The execution plan node of a scan (\<open>src/physical_plan/zarr_exec.rs\<close>) and the trees of physical operators
  the optimizer rules rewrite.  The lemmas show that a copy with another limit keeps everything else of
  the node, and that the partitions of a scan share its memory ceiling.
\<close>

section \<open>The scan node\<close>

datatype StoreKind = ZarrKind | IcechunkKind "string option" bool

text \<open>
  The node; of the plan properties the projected schema and the number of output partitions are kept.  Open
  stores and adapters are handles, of which only the presence matters here.
\<close>

record 'f ZarrExec =
  ze_schema :: "(string \<times> DataType) list"
  ze_path :: string
  ze_projection :: "nat list option"
  ze_limit :: "nat option"
  ze_properties :: "(string \<times> DataType) list \<times> nat"
  cached_remote :: "'f ZarrStoreMeta option"
  coord_filters :: "'f CoordFilters option"
  cached_virtualizarr :: "nat option"
  partitions :: "PartitionSpec list"
  ze_stream_budget_bytes :: "nat option"
  store_meta :: "'f ZarrStoreMeta option"
  store_kind :: StoreKind

text \<open>\<open>None\<close> is the panic of a projection out of range.\<close>

definition build_exec_projected_schema :: "(string \<times> DataType) list \<Rightarrow> nat list option \<Rightarrow> (string \<times> DataType) list option" where
  "build_exec_projected_schema schema projection =
     (case projection of
        None \<Rightarrow> Some schema
      | Some ixs \<Rightarrow> collect_options (map (\<lambda>i. if i < length schema then Some (schema ! i) else None) ixs))"

definition build_properties :: "(string \<times> DataType) list \<Rightarrow> nat list option \<Rightarrow> nat \<Rightarrow> ((string \<times> DataType) list \<times> nat) option" where
  "build_properties schema projection num_partitions =
     map_option (\<lambda>s. (s, num_partitions)) (build_exec_projected_schema schema projection)"

definition ZarrExec_new :: "(string \<times> DataType) list \<Rightarrow> string \<Rightarrow> nat list option \<Rightarrow> nat option \<Rightarrow> 'f ZarrStoreMeta option \<Rightarrow>
    'f CoordFilters option \<Rightarrow> nat option \<Rightarrow> 'f ZarrExec option" where
  "ZarrExec_new schema path projection limit remote filters virtualizarr =
     map_option (\<lambda>p. \<lparr>ze_schema = schema, ze_path = path, ze_projection = projection, ze_limit = limit, ze_properties = p,
         cached_remote = remote, coord_filters = filters, cached_virtualizarr = virtualizarr, partitions = [],
         ze_stream_budget_bytes = None, store_meta = None, store_kind = ZarrKind\<rparr>)
       (build_properties schema projection 1)"

definition with_partitions :: "'f ZarrExec \<Rightarrow> PartitionSpec list \<Rightarrow> 'f ZarrExec option" where
  "with_partitions z ps =
     map_option (\<lambda>p. z\<lparr>ze_properties := p, partitions := ps\<rparr>)
       (build_properties (ze_schema z) (ze_projection z) (max (length ps) 1))"

definition with_stream_budget_bytes :: "'f ZarrExec \<Rightarrow> nat option \<Rightarrow> 'f ZarrExec" where
  "with_stream_budget_bytes z bytes = z\<lparr>ze_stream_budget_bytes := bytes\<rparr>"

definition with_store_meta :: "'f ZarrExec \<Rightarrow> 'f ZarrStoreMeta option \<Rightarrow> 'f ZarrExec" where
  "with_store_meta z meta = z\<lparr>store_meta := meta\<rparr>"

definition with_store_kind :: "'f ZarrExec \<Rightarrow> StoreKind \<Rightarrow> 'f ZarrExec" where
  "with_store_kind z k = z\<lparr>store_kind := k\<rparr>"

definition with_limit :: "'f ZarrExec \<Rightarrow> nat option \<Rightarrow> 'f ZarrExec option" where
  "with_limit z limit =
     Option.bind (ZarrExec_new (ze_schema z) (ze_path z) (ze_projection z) limit (cached_remote z) (coord_filters z)
         (cached_virtualizarr z)) (\<lambda>y.
     Option.bind (with_partitions y (partitions z)) (\<lambda>y.
     Some (with_store_kind (with_store_meta (with_stream_budget_bytes y (ze_stream_budget_bytes z)) (store_meta z))
       (store_kind z))))"

section \<open>Execution\<close>

definition starts_with :: "string \<Rightarrow> string \<Rightarrow> bool" where
  "starts_with s prefix \<longleftrightarrow> take (length prefix) s = prefix"

definition is_remote_url :: "string \<Rightarrow> bool" where
  "is_remote_url location \<longleftrightarrow> starts_with location ''s3://'' \<or> starts_with location ''gs://'' \<or>
     starts_with location ''http://'' \<or> starts_with location ''https://''"

text \<open>Which reader a partition is given to, with the selection it is restricted to.\<close>

datatype reader =
    VirtualAdapterReader nat
  | VirtualLocalReader
  | RemoteReader "CoordSelection option" "(nat \<times> CoordSelection) list"
  | LocalReader "CoordSelection option" "(nat \<times> CoordSelection) list"

text \<open>
  One partition: its reader, the batch size of the session and its share of the memory ceiling.  Whether a
  local path is a VirtualiZarr store is asked of the file system.  \<open>None\<close> is the panic of a partition number
  out of range.
\<close>

definition zarr_execute :: "(string \<Rightarrow> bool) \<Rightarrow> 'f ZarrExec \<Rightarrow> nat \<Rightarrow> nat \<Rightarrow> (reader \<times> nat \<times> nat option) option" where
  "zarr_execute is_virtualizarr z pno batch_size =
     (let n_partitions = max (length (partitions z)) 1;
          budget = Some (resolve_scan_ceiling (ze_stream_budget_bytes z) n_partitions)
      in if partitions z \<noteq> [] \<and> \<not> pno < length (partitions z) then None
         else
           let selection = (if partitions z = [] then None else Some (outer (partitions z ! pno)));
               inner = (if partitions z = [] then [] else extra (partitions z ! pno))
           in Some
             (case cached_virtualizarr z of
                Some adapter \<Rightarrow> (VirtualAdapterReader adapter, batch_size, budget)
              | None \<Rightarrow>
                  if is_virtualizarr (ze_path z) then (VirtualLocalReader, batch_size, budget)
                  else if is_remote_url (ze_path z) \<or> cached_remote z \<noteq> None \<or> store_kind z \<noteq> ZarrKind
                  then (RemoteReader selection inner, batch_size, budget)
                  else (LocalReader selection inner, batch_size, budget)))"

section \<open>Plans\<close>

datatype AggregateMode = PartialMode | FinalMode | FinalPartitionedMode | SingleMode | SinglePartitionedMode

record AggExpr =
  ae_fun :: string
  ae_distinct :: bool
  ae_args :: "PhysExpr list"

text \<open>An aggregation: its mode, aggregates with their \<open>FILTER\<close> clauses, group keys with their names, output schema.\<close>

record AggInfo =
  ai_mode :: AggregateMode
  ai_aggs :: "AggExpr list"
  ai_filters :: "PhysExpr option list"
  ai_group :: "(PhysExpr \<times> string) list"
  ai_schema :: "field list"

text \<open>
  Physical plans: the operators the rules tell apart, and any other operator, by its name.
\<close>

datatype 'f ExecPlan =
    ZarrNode "'f ZarrExec"
  | AggregateNode AggInfo "'f ExecPlan"
  | ZarrAggregateNode "PhysExpr list" "AggSpec list" "field list" "'f ExecPlan"
  | CoalescePartitionsNode "nat option" "'f ExecPlan"
  | GlobalLimitNode nat "nat option" "'f ExecPlan"
  | LocalLimitNode nat "'f ExecPlan"
  | OperatorNode string "'f ExecPlan list"

fun plan_children :: "'f ExecPlan \<Rightarrow> 'f ExecPlan list" where
  "plan_children (ZarrNode z) = []"
| "plan_children (AggregateNode a c) = [c]"
| "plan_children (ZarrAggregateNode es aggs schema c) = [c]"
| "plan_children (CoalescePartitionsNode fetch c) = [c]"
| "plan_children (GlobalLimitNode skip fetch c) = [c]"
| "plan_children (LocalLimitNode n c) = [c]"
| "plan_children (OperatorNode name cs) = cs"

lemma size_in_children: "c \<in> set cs \<Longrightarrow> size c < Suc (size_list size cs)"
  by (simp add: less_Suc_eq_le size_list_estimation')

lemma plan_children_size: "c \<in> set (plan_children p) \<Longrightarrow> size c < size p"
  by (cases p) (auto simp: size_in_children)

fun with_new_children :: "'f ExecPlan \<Rightarrow> 'f ExecPlan list \<Rightarrow> 'f ExecPlan" where
  "with_new_children (ZarrNode z) cs = ZarrNode z"
| "with_new_children (AggregateNode a c) cs = AggregateNode a (cs ! 0)"
| "with_new_children (ZarrAggregateNode es aggs schema c) cs = ZarrAggregateNode es aggs schema (cs ! 0)"
| "with_new_children (CoalescePartitionsNode fetch c) cs = CoalescePartitionsNode fetch (cs ! 0)"
| "with_new_children (GlobalLimitNode skip fetch c) cs = GlobalLimitNode skip fetch (cs ! 0)"
| "with_new_children (LocalLimitNode n c) cs = LocalLimitNode n (cs ! 0)"
| "with_new_children (OperatorNode name c) cs = OperatorNode name cs"

section \<open>What a plan returns\<close>

text \<open>
  The rows of each output partition.  The scan without its limit and the operators other than limits are
  parameters; a scan applies its limit to each of its partitions.
\<close>

record ('f, 'row) plan_sem =
  scan_rows :: "'f ZarrExec \<Rightarrow> 'row list list"
  agg_rows :: "AggInfo \<Rightarrow> 'row list list \<Rightarrow> 'row list list"
  pushed_rows :: "PhysExpr list \<Rightarrow> AggSpec list \<Rightarrow> field list \<Rightarrow> 'row list list \<Rightarrow> 'row list list"
  op_rows :: "string \<Rightarrow> 'row list list list \<Rightarrow> 'row list list"

definition fetch_rows :: "nat option \<Rightarrow> 'a list \<Rightarrow> 'a list" where
  "fetch_rows f xs = (case f of None \<Rightarrow> xs | Some n \<Rightarrow> take n xs)"

fun plan_rows :: "('f, 'row) plan_sem \<Rightarrow> 'f ExecPlan \<Rightarrow> 'row list list" where
  "plan_rows s (ZarrNode z) = map (fetch_rows (ze_limit z)) (scan_rows s z)"
| "plan_rows s (AggregateNode a c) = agg_rows s a (plan_rows s c)"
| "plan_rows s (ZarrAggregateNode es aggs schema c) = pushed_rows s es aggs schema (plan_rows s c)"
| "plan_rows s (CoalescePartitionsNode f c) = [fetch_rows f (concat (plan_rows s c))]"
| "plan_rows s (GlobalLimitNode skip f c) = [fetch_rows f (drop skip (concat (plan_rows s c)))]"
| "plan_rows s (LocalLimitNode n c) = map (take n) (plan_rows s c)"
| "plan_rows s (OperatorNode name cs) = op_rows s name (map (plan_rows s) cs)"

section \<open>Lemmas\<close>

text \<open>A node that was built: its properties are those of its schema, projection and partitions.\<close>

definition exec_wf :: "'f ZarrExec \<Rightarrow> bool" where
  "exec_wf z \<longleftrightarrow> build_properties (ze_schema z) (ze_projection z) (max (length (partitions z)) 1) = Some (ze_properties z)"

lemma with_limit_keeps:
  assumes "exec_wf z"
  shows "with_limit z l = Some (z\<lparr>ze_limit := l\<rparr>)"
proof -
  obtain s where s: "build_exec_projected_schema (ze_schema z) (ze_projection z) = Some s"
      "ze_properties z = (s, max (length (partitions z)) 1)"
    using assms by (auto simp: exec_wf_def build_properties_def)
  then show ?thesis
    by (cases z) (simp add: with_limit_def ZarrExec_new_def with_partitions_def build_properties_def
        with_store_kind_def with_store_meta_def with_stream_budget_bytes_def)
qed

lemma exec_wf_limit [simp]: "exec_wf (z\<lparr>ze_limit := l\<rparr>) = exec_wf z"
  by (simp add: exec_wf_def)

lemma exec_wf_new:
  assumes "ZarrExec_new schema path projection limit remote filters virtualizarr = Some z" "with_partitions z ps = Some y"
  shows "exec_wf z \<and> exec_wf y"
  using assms by (auto simp: exec_wf_def ZarrExec_new_def with_partitions_def build_properties_def)

lemma ceiling_share:
  assumes "0 < n"
  shows "resolve_scan_ceiling b n * n \<le> max (case b of Some x \<Rightarrow> x | None \<Rightarrow> DEFAULT_SCAN_MEMORY_LIMIT) n"
proof -
  let ?t = "case b of Some x \<Rightarrow> x | None \<Rightarrow> DEFAULT_SCAN_MEMORY_LIMIT"
  have "max (?t div n) 1 * n = max (?t div n * n) n" by (simp only: nat_mult_max_left mult_1)
  also have "\<dots> \<le> max ?t n" using div_times_less_eq_dividend [of ?t n] by (intro max.mono) simp_all
  finally have "max (?t div n) 1 * n \<le> max ?t n" .
  then show ?thesis using assms by (simp add: resolve_scan_ceiling_def Let_def)
qed

text \<open>The partitions of a scan stream at the same time: together their windows stay within the ceiling of the scan,
  as far as it has a byte for each of them.\<close>

lemma partitions_share_ceiling:
  assumes "zarr_execute is_virtualizarr z pno batch_size = Some (rd, bs, budget)" "n = max (length (partitions z)) 1"
  shows "\<exists>share. budget = Some share \<and> 0 < share \<and>
    share * n \<le> max (case ze_stream_budget_bytes z of Some x \<Rightarrow> x | None \<Rightarrow> DEFAULT_SCAN_MEMORY_LIMIT) n"
proof -
  have "budget = Some (resolve_scan_ceiling (ze_stream_budget_bytes z) n)"
    using assms by (auto simp: zarr_execute_def Let_def split: if_splits option.splits)
  moreover have "0 < resolve_scan_ceiling (ze_stream_budget_bytes z) n" by (simp add: resolve_scan_ceiling_def)
  ultimately show ?thesis using ceiling_share [of n] assms(2) by simp
qed

text \<open>A partition of a local or remote scan is read with its own slice of every axis.\<close>

lemma partition_reads_its_slice:
  assumes "pno < length (partitions z)" "cached_virtualizarr z = None" "\<not> is_virtualizarr (ze_path z)"
  shows "\<exists>rd budget. zarr_execute is_virtualizarr z pno batch_size = Some (rd, batch_size, budget) \<and>
    (let s = Some (outer (partitions z ! pno)); e = extra (partitions z ! pno) in rd = RemoteReader s e \<or> rd = LocalReader s e)"
  using assms by (auto simp: zarr_execute_def Let_def)

end
