(* ===== verification/Limit_Pushdown.thy ===== *)
theory Limit_Pushdown
  imports Exec_Plan
begin

text \<open>
  The limit pushdown rule (\<open>src/optimizer/limit_pushdown.rs\<close>).  The lemmas show that on a chain of limits,
  coalescing and operators that keep prefixes the rewritten plan returns the same rows, and what happens to
  plans with an offset or an operator that does not.
\<close>

section \<open>The rule\<close>

fun extract_limit_from_node :: "'f ExecPlan \<Rightarrow> nat option" where
  "extract_limit_from_node (CoalescePartitionsNode fetch c) = fetch"
| "extract_limit_from_node (GlobalLimitNode skip fetch c) = fetch"
| "extract_limit_from_node (LocalLimitNode n c) = Some n"
| "extract_limit_from_node p = None"

text \<open>\<open>Iterator::min\<close>.\<close>

fun iter_min :: "nat list \<Rightarrow> nat option" where
  "iter_min [] = None"
| "iter_min (x # xs) = Some (fold min xs x)"

function find_limit_anywhere :: "'f ExecPlan \<Rightarrow> nat option" where
  "find_limit_anywhere p =
     iter_min ((case extract_limit_from_node p of None \<Rightarrow> [] | Some n \<Rightarrow> [n]) @
       List.map_filter find_limit_anywhere (plan_children p))"
  by auto
termination by (relation "measure size") (auto simp: plan_children_size)

definition should_push :: "nat option \<Rightarrow> nat option \<Rightarrow> bool" where
  "should_push existing incoming =
     (case (existing, incoming) of (None, Some n) \<Rightarrow> True | (Some e, Some n) \<Rightarrow> n < e | _ \<Rightarrow> False)"

definition effective_limit :: "nat option \<Rightarrow> nat option \<Rightarrow> nat option" where
  "effective_limit a b =
     (case (a, b) of (Some l1, Some l2) \<Rightarrow> Some (min l1 l2) | (Some l, None) \<Rightarrow> Some l | (None, Some l) \<Rightarrow> Some l
      | (None, None) \<Rightarrow> None)"

text \<open>\<open>None\<close> is a panic (see \<open>with_limit\<close>).\<close>

function push_limit_to_zarr :: "'f ExecPlan \<Rightarrow> nat option \<Rightarrow> 'f ExecPlan option" where
  "push_limit_to_zarr p limit =
     (case p of
        ZarrNode z \<Rightarrow>
          if should_push (ze_limit z) limit then map_option ZarrNode (with_limit z limit) else Some p
      | _ \<Rightarrow>
          if plan_children p = [] then Some p
          else map_option (with_new_children p)
            (collect_options (map (\<lambda>c. push_limit_to_zarr c (effective_limit limit (extract_limit_from_node p)))
              (plan_children p))))"
  by auto
termination by (relation "measure (size \<circ> fst)") (auto simp: size_in_children)

definition limit_optimize :: "'f ExecPlan \<Rightarrow> 'f ExecPlan option" where
  "limit_optimize p =
     (case find_limit_anywhere p of
        Some l \<Rightarrow> push_limit_to_zarr p (Some l)
      | None \<Rightarrow> push_limit_to_zarr p None)"

declare find_limit_anywhere.simps [simp del] push_limit_to_zarr.simps [simp del]

lemmas push_simps = push_limit_to_zarr.simps [of "ZarrNode z" for z]
  push_limit_to_zarr.simps [of "CoalescePartitionsNode f c" for f c] push_limit_to_zarr.simps [of "GlobalLimitNode s f c" for s f c]
  push_limit_to_zarr.simps [of "LocalLimitNode n c" for n c] push_limit_to_zarr.simps [of "OperatorNode name [c]" for name c]
  push_limit_to_zarr.simps [of "AggregateNode a c" for a c]

lemmas find_simps = find_limit_anywhere.simps [of "ZarrNode z" for z]
  find_limit_anywhere.simps [of "CoalescePartitionsNode f c" for f c] find_limit_anywhere.simps [of "GlobalLimitNode s f c" for s f c]
  find_limit_anywhere.simps [of "LocalLimitNode n c" for n c] find_limit_anywhere.simps [of "OperatorNode name [c]" for name c]
  find_limit_anywhere.simps [of "AggregateNode a c" for a c]

section \<open>Chains of limits\<close>

text \<open>
  An operator on rows of \<open>R\<close> whose first rows depend on the first rows of its input only, such as a
  projection, or a filter that all rows of \<open>R\<close> satisfy.
\<close>

definition prefix_op :: "('row list list \<Rightarrow> 'row list list) \<Rightarrow> 'row set \<Rightarrow> bool" where
  "prefix_op g R \<longleftrightarrow> (\<forall>ps k. set (concat ps) \<subseteq> R \<longrightarrow> set (concat (g ps)) \<subseteq> R \<and>
     map (take k) (g (map (take k) ps)) = map (take k) (g ps))"

text \<open>Plans of limits without an offset, coalescing and such operators over one scan.\<close>

fun limit_chain :: "('f, 'row) plan_sem \<Rightarrow> 'row set \<Rightarrow> 'f ExecPlan \<Rightarrow> bool" where
  "limit_chain s R (ZarrNode z) \<longleftrightarrow> exec_wf z \<and> set (concat (scan_rows s z)) \<subseteq> R"
| "limit_chain s R (CoalescePartitionsNode f c) \<longleftrightarrow> limit_chain s R c"
| "limit_chain s R (GlobalLimitNode skip f c) \<longleftrightarrow> skip = 0 \<and> limit_chain s R c"
| "limit_chain s R (LocalLimitNode n c) \<longleftrightarrow> limit_chain s R c"
| "limit_chain s R (OperatorNode name [c]) \<longleftrightarrow> prefix_op (\<lambda>ps. op_rows s name [ps]) R \<and> limit_chain s R c"
| "limit_chain s R p \<longleftrightarrow> False"

section \<open>Prefixes\<close>

lemma take_concat_take: "n \<le> m \<Longrightarrow> take n (concat (map (take m) A)) = take n (concat A)"
proof (induction A arbitrary: n)
  case (Cons a A)
  then show ?case by (cases "length a \<le> m") simp_all
qed simp

lemma take_concat_cong: "map (take m) A = map (take m) B \<Longrightarrow> take m (concat A) = take m (concat B)"
  by (metis take_concat_take order_refl)

lemma take_fetch: "(\<And>n. f = Some n \<Longrightarrow> m \<le> n) \<Longrightarrow> take m (fetch_rows f xs) = take m xs"
  by (cases f) (simp_all add: fetch_rows_def min_absorb1)

lemma fetch_subset: "set (fetch_rows f xs) \<subseteq> set xs"
  by (cases f) (auto simp: fetch_rows_def dest: in_set_takeD)

lemma chain_rows_subset: "limit_chain s R p \<Longrightarrow> set (concat (plan_rows s p)) \<subseteq> R"
proof (induction s R p rule: limit_chain.induct)
  case (1 s R z)
  have "set (concat (map (fetch_rows (ze_limit z)) (scan_rows s z))) \<subseteq> set (concat (scan_rows s z))"
    by (auto dest: subsetD [OF fetch_subset])
  then show ?case using 1 by (simp, blast)
next
  case (2 s R f c)
  then show ?case using fetch_subset [of f "concat (plan_rows s c)"] by (simp; blast)
next
  case (3 s R skip f c)
  then show ?case using fetch_subset [of f "concat (plan_rows s c)"] by (simp; blast)
next
  case (4 s R n c)
  then show ?case by (auto dest!: in_set_takeD)
next
  case (5 s R name c)
  then show ?case by (auto simp: prefix_op_def)
qed simp_all

section \<open>The rewritten chain\<close>

text \<open>The chain with the limit of its scan lowered to \<open>m\<close>.\<close>

fun lower_limit :: "nat \<Rightarrow> 'f ExecPlan \<Rightarrow> 'f ExecPlan" where
  "lower_limit m (ZarrNode z) = ZarrNode (if should_push (ze_limit z) (Some m) then z\<lparr>ze_limit := Some m\<rparr> else z)"
| "lower_limit m (CoalescePartitionsNode f c) = CoalescePartitionsNode f (lower_limit m c)"
| "lower_limit m (GlobalLimitNode skip f c) = GlobalLimitNode skip f (lower_limit m c)"
| "lower_limit m (LocalLimitNode n c) = LocalLimitNode n (lower_limit m c)"
| "lower_limit m (OperatorNode name cs) = OperatorNode name (map (lower_limit m) cs)"
| "lower_limit m p = p"

text \<open>All limits of a chain are at least \<open>m\<close>.\<close>

definition limits_above :: "nat \<Rightarrow> 'f ExecPlan \<Rightarrow> bool" where
  "limits_above m p \<longleftrightarrow> (case find_limit_anywhere p of None \<Rightarrow> True | Some l \<Rightarrow> m \<le> l)"

lemma fold_min_le: "m \<le> fold min xs x \<longleftrightarrow> m \<le> (x :: nat) \<and> (\<forall>y \<in> set xs. m \<le> y)"
  by (induction xs arbitrary: x) auto

lemma find_child: "find_limit_anywhere (CoalescePartitionsNode f c) = effective_limit f (find_limit_anywhere c)"
  "find_limit_anywhere (GlobalLimitNode s f c) = effective_limit f (find_limit_anywhere c)"
  "find_limit_anywhere (LocalLimitNode n c) = effective_limit (Some n) (find_limit_anywhere c)"
  "find_limit_anywhere (OperatorNode name [c]) = find_limit_anywhere c"
  "find_limit_anywhere (ZarrNode z) = None"
  by (simp_all add: find_simps List.map_filter_simps effective_limit_def min.commute split: option.splits)

lemma effective_above:
  "(case effective_limit a b of None \<Rightarrow> True | Some l \<Rightarrow> m \<le> l) \<longleftrightarrow>
     (case a of None \<Rightarrow> True | Some l \<Rightarrow> m \<le> l) \<and> (case b of None \<Rightarrow> True | Some l \<Rightarrow> m \<le> l)"
  by (auto simp: effective_limit_def split: option.splits)

lemma limits_above_simps [simp]:
  "limits_above m (ZarrNode z)"
  "limits_above m (CoalescePartitionsNode f c) \<longleftrightarrow> (case f of None \<Rightarrow> True | Some l \<Rightarrow> m \<le> l) \<and> limits_above m c"
  "limits_above m (GlobalLimitNode s f c) \<longleftrightarrow> (case f of None \<Rightarrow> True | Some l \<Rightarrow> m \<le> l) \<and> limits_above m c"
  "limits_above m (LocalLimitNode n c) \<longleftrightarrow> m \<le> n \<and> limits_above m c"
  "limits_above m (OperatorNode name [c]) \<longleftrightarrow> limits_above m c"
  by (simp_all add: limits_above_def find_child effective_above)

lemma effective_absorb: "(case f of None \<Rightarrow> True | Some l \<Rightarrow> m \<le> l) \<Longrightarrow> effective_limit (Some m) f = Some m"
  by (auto simp: effective_limit_def split: option.splits)

lemma push_chain:
  assumes "limit_chain s R p" "limits_above m p"
  shows "push_limit_to_zarr p (Some m) = Some (lower_limit m p)"
  using assms
proof (induction s R p rule: limit_chain.induct)
  case (1 s R z)
  then show ?case by (simp add: push_simps with_limit_keeps)
qed (simp_all add: push_simps effective_absorb)

lemma push_none:
  assumes "limit_chain s R p" "find_limit_anywhere p = None"
  shows "push_limit_to_zarr p None = Some p"
  using assms
proof (induction s R p rule: limit_chain.induct)
  case (1 s R z)
  then show ?case by (simp add: push_simps should_push_def split: option.split)
qed (auto simp: push_simps find_child effective_limit_def split: option.splits)

lemma lower_chain:
  "limit_chain s R p \<Longrightarrow> (\<And>z l. scan_rows s (z\<lparr>ze_limit := l\<rparr>) = scan_rows s z) \<Longrightarrow> limit_chain s R (lower_limit m p)"
  by (induction s R p rule: limit_chain.induct) auto

lemma lower_agrees:
  assumes "limit_chain s R p" "limits_above m p" "\<And>z l. scan_rows s (z\<lparr>ze_limit := l\<rparr>) = scan_rows s z"
  shows "map (take m) (plan_rows s (lower_limit m p)) = map (take m) (plan_rows s p)"
  using assms
proof (induction s R p rule: limit_chain.induct)
  case (1 s R z)
  then show ?case by (auto simp: should_push_def fetch_rows_def comp_def min_def split: option.splits)
next
  case (2 s R f c)
  then show ?case by (auto simp: fetch_rows_def min_absorb1 intro: take_concat_cong split: option.splits)
next
  case (3 s R skip f c)
  then show ?case by (auto simp: fetch_rows_def min_absorb1 intro: take_concat_cong split: option.splits)
next
  case (4 s R n c)
  then have "map (take n) (map (take m) (plan_rows s (lower_limit m c))) = map (take n) (map (take m) (plan_rows s c))"
    by simp
  then show ?case by (simp add: comp_def min.commute)
next
  case (5 s R name c)
  have "set (concat (plan_rows s c)) \<subseteq> R" "set (concat (plan_rows s (lower_limit m c))) \<subseteq> R"
    using 5 chain_rows_subset lower_chain by (metis limit_chain.simps(5))+
  then show ?case using 5 by (simp add: prefix_op_def) (metis (no_types, lifting) list.map(1) list.map(2))
qed simp_all

lemma effective_eq:
  assumes "effective_limit f g = Some m"
  shows "(case g of None \<Rightarrow> True | Some l \<Rightarrow> m \<le> l) \<and> (case f of None \<Rightarrow> True | Some l \<Rightarrow> m \<le> l) \<and> (f = Some m \<or> g = Some m)"
  using assms by (auto simp: effective_limit_def min_def split: option.splits if_splits)

lemma lower_same:
  assumes "limit_chain s R p" "find_limit_anywhere p = Some m" "\<And>z l. scan_rows s (z\<lparr>ze_limit := l\<rparr>) = scan_rows s z"
  shows "plan_rows s (lower_limit m p) = plan_rows s p"
  using assms
proof (induction s R p rule: limit_chain.induct)
  case (2 s R f c)
  then have e: "limits_above m c" "f = Some m \<or> find_limit_anywhere c = Some m"
    using effective_eq [of f "find_limit_anywhere c"] by (auto simp: find_child limits_above_def)
  show ?case using e(2) 2 take_concat_cong [OF lower_agrees [of s R c m]] e(1)
    by (auto simp: fetch_rows_def split: option.split)
next
  case (3 s R skip f c)
  then have e: "limits_above m c" "f = Some m \<or> find_limit_anywhere c = Some m"
    using effective_eq [of f "find_limit_anywhere c"] by (auto simp: find_child limits_above_def)
  show ?case using e(2) 3 take_concat_cong [OF lower_agrees [of s R c m]] e(1)
    by (auto simp: fetch_rows_def split: option.split)
next
  case (4 s R n c)
  then have e: "limits_above m c" "n = m \<or> find_limit_anywhere c = Some m"
    using effective_eq [of "Some n" "find_limit_anywhere c"] by (auto simp: find_child limits_above_def)
  show ?case using e(2) 4 lower_agrees [of s R c m] e(1) by auto
qed (simp_all add: find_child)

section \<open>Properties\<close>


definition demo_exec :: "rat ZarrExec" where
  "demo_exec =
     \<lparr>ze_schema = [(''lat'', Float64), (''temp'', Float64)], ze_path = ''store'', ze_projection = None, ze_limit = None,
      ze_properties = ([(''lat'', Float64), (''temp'', Float64)], 1), cached_remote = None, coord_filters = None,
      cached_virtualizarr = None, partitions = [], ze_stream_budget_bytes = None, store_meta = None, store_kind = ZarrKind\<rparr>"

text \<open>Rows are numbers; a filter keeps those of at least three, an aggregation adds them up.\<close>

definition demo_sem :: "(rat, nat) plan_sem" where
  "demo_sem =
     \<lparr>scan_rows = (\<lambda>z. [[0..<4], [4..<8]]), agg_rows = (\<lambda>a ps. [[sum_list (concat ps)]]),
      pushed_rows = (\<lambda>es aggs schema ps. [[sum_list (concat ps)]]),
      op_rows = (\<lambda>name pss. if name = ''FilterExec'' then map (filter (\<lambda>x. 3 \<le> x)) (concat pss)
        else if name = ''ProjectionExec'' then map (map (\<lambda>x. x + 0)) (concat pss) else concat pss)\<rparr>"


lemmas demo_plan_simps = demo_sem_def demo_exec_def fetch_rows_def upt_rec limit_optimize_def push_simps find_child
  effective_limit_def should_push_def with_limit_def ZarrExec_new_def with_partitions_def build_properties_def
  build_exec_projected_schema_def with_store_kind_def with_store_meta_def with_stream_budget_bytes_def

text \<open>
  An offset is not looked at: \<open>LIMIT 3 OFFSET 2\<close> over a scan of two partitions asks for the rows \<open>2, 3, 4\<close> and
  gets \<open>2, 4, 5\<close>.
\<close>

lemma limit_pushdown_ignores_offset:
  "map_option (plan_rows demo_sem) (limit_optimize (GlobalLimitNode 2 (Some 3) (CoalescePartitionsNode None (ZarrNode demo_exec)))) = Some [[2, 4, 5]]"
  "plan_rows demo_sem (GlobalLimitNode 2 (Some 3) (CoalescePartitionsNode None (ZarrNode demo_exec))) = [[2, 3, 4]]"
  by (simp_all add: demo_plan_simps)

text \<open>A limit above a filter on data is pushed through it: the rows the filter needs are never read.\<close>

lemma limit_pushdown_through_filter:
  "map_option (plan_rows demo_sem) (limit_optimize (CoalescePartitionsNode (Some 2) (OperatorNode ''FilterExec'' [ZarrNode demo_exec]))) = Some [[4, 5]]"
  "plan_rows demo_sem (CoalescePartitionsNode (Some 2) (OperatorNode ''FilterExec'' [ZarrNode demo_exec])) = [[3, 4]]"
  by (simp_all add: demo_plan_simps)

text \<open>A limit above an aggregation is pushed through it: the sum of a limited scan is returned.\<close>

lemma limit_pushdown_through_aggregate:
  "map_option (plan_rows demo_sem) (limit_optimize (GlobalLimitNode 0 (Some 1) (AggregateNode a (ZarrNode demo_exec)))) = Some [[4]]"
  "plan_rows demo_sem (GlobalLimitNode 0 (Some 1) (AggregateNode a (ZarrNode demo_exec))) = [[28]]"
  by (simp_all add: demo_plan_simps find_simps List.map_filter_simps)

text \<open>A limit of one branch is pushed into the scan of another.\<close>

lemma limit_pushdown_into_sibling:
  "map_option (plan_rows demo_sem)
     (limit_optimize (OperatorNode ''UnionExec'' [LocalLimitNode 1 (ZarrNode demo_exec), ZarrNode demo_exec])) =
     Some [[0], [4], [0], [4]]"
  "plan_rows demo_sem (OperatorNode ''UnionExec'' [LocalLimitNode 1 (ZarrNode demo_exec), ZarrNode demo_exec]) =
     [[0], [4], [0, 1, 2, 3], [4, 5, 6, 7]]"
  by (simp_all add: demo_plan_simps find_simps List.map_filter_simps push_limit_to_zarr.simps [of "OperatorNode name [c, d]" for name c d]
      find_limit_anywhere.simps [of "OperatorNode name [c, d]" for name c d])

end
