(* ===== verification/Agg_Pushdown.thy ===== *)
theory Agg_Pushdown
  imports Exec_Plan Group_Card Selection Cf_Time
begin

text \<open>
  Aggregate pushdown (\<open>src/optimizer/cardinality/pushdown.rs\<close> and \<open>rule.rs\<close>): the recogniser of aggregations the
  scan can fold, and the rule that stamps scans with the memory budget and rewrites such aggregations.  The
  lemmas show that a recognised aggregation reads what the original one reads, and that the number of groups of
  a rewritten one stays within the group budget.
\<close>

section \<open>The recogniser\<close>

record PushdownCandidate =
  cand_aggs :: "AggSpec list"
  cand_group_keys :: "GroupKey list"
  cand_group_names :: "string list"

definition agg_kind_of :: "string \<Rightarrow> AggKind option" where
  "agg_kind_of name =
     (if name = ''sum'' then Some AggSum else if name = ''count'' then Some AggCount else if name = ''avg'' then Some AggAvg
      else if name = ''min'' then Some AggMin else if name = ''max'' then Some AggMax else None)"

datatype AggArg = Star | ColumnArg string | Unsupported

fun bare_column :: "PhysExpr \<Rightarrow> string option" where
  "bare_column (ColumnExpr n) = Some n"
| "bare_column (CastExpr e dt) = bare_column e"
| "bare_column (TryCastExpr e dt) = bare_column e"
| "bare_column e = None"

fun is_literal :: "PhysExpr \<Rightarrow> bool" where
  "is_literal (LiteralExpr v) = True"
| "is_literal e = False"

definition aggregate_arg :: "PhysExpr list \<Rightarrow> AggArg" where
  "aggregate_arg es =
     (case es of
        [] \<Rightarrow> Star
      | [e] \<Rightarrow> (case bare_column e of Some name \<Rightarrow> ColumnArg name | None \<Rightarrow> if is_literal e then Star else Unsupported)
      | _ \<Rightarrow> Unsupported)"

text \<open>The loop body over the aggregates.\<close>

definition recognize_agg :: "'f ZarrStoreMeta \<Rightarrow> AggExpr \<Rightarrow> AggSpec option" where
  "recognize_agg meta a =
     (if ae_distinct a then None
      else case agg_kind_of (ae_fun a) of
        None \<Rightarrow> None
      | Some k \<Rightarrow>
          (case aggregate_arg (ae_args a) of
             Unsupported \<Rightarrow> None
           | Star \<Rightarrow> if k = AggCount then Some \<lparr>agg_kind = k, agg_column = None\<rparr> else None
           | ColumnArg name \<Rightarrow>
               if k = AggCount \<or> name \<in> set (map meta_name (data_vars meta))
               then Some \<lparr>agg_kind = k, agg_column = Some name\<rparr> else None))"

text \<open>The map from coordinate names to axes; of two coordinates of one name the later one stays.\<close>

definition coord_axis :: "'f ZarrStoreMeta \<Rightarrow> string \<Rightarrow> nat option" where
  "coord_axis meta = map_of (rev (map (\<lambda>(i, c). (meta_name c, i)) (enumerate 0 (coords meta))))"

fun column_axis :: "'f ZarrStoreMeta \<Rightarrow> PhysExpr \<Rightarrow> nat option" where
  "column_axis meta (ColumnExpr n) = coord_axis meta n"
| "column_axis meta e = None"

fun literal_str :: "PhysExpr \<Rightarrow> string option" where
  "literal_str (LiteralExpr (Utf8Lit s)) = s"
| "literal_str (LiteralExpr (LargeUtf8Lit s)) = s"
| "literal_str (LiteralExpr (Utf8ViewLit s)) = s"
| "literal_str e = None"

definition period_of :: "string \<Rightarrow> nat option" where
  "period_of field_str =
     (let f = map to_lower field_str in
      if f = ''month'' then Some 12 else if f = ''day'' then Some 31 else if f = ''hour'' then Some 24
      else if f = ''minute'' then Some 60 else if f = ''second'' then Some 60 else if f = ''quarter'' then Some 4
      else if f \<in> {''doy'', ''dayofyear''} then Some 366 else if f \<in> {''dow'', ''dayofweek''} then Some 7
      else if f = ''week'' then Some 53 else None)"

fun date_part_periodic :: "'f ZarrStoreMeta \<Rightarrow> PhysExpr \<Rightarrow> (nat \<times> nat) option" where
  "date_part_periodic meta (ScalarFunctionExpr fname args) =
     (if fname \<noteq> ''date_part'' then None
      else case args of
        [a, b] \<Rightarrow>
          Option.bind (Option.bind (literal_str a) period_of) (\<lambda>period.
          map_option (\<lambda>axis. (axis, period)) (column_axis meta b))
      | _ \<Rightarrow> None)"
| "date_part_periodic meta e = None"

definition group_key :: "'f ZarrStoreMeta \<Rightarrow> PhysExpr \<Rightarrow> GroupKey option" where
  "group_key meta e =
     (case column_axis meta e of
        Some a \<Rightarrow> Some (GroupKey.Axis a)
      | None \<Rightarrow> map_option (\<lambda>(a, p). Periodic a p) (date_part_periodic meta e))"

definition recognize :: "AggInfo \<Rightarrow> 'f ZarrExec \<Rightarrow> PushdownCandidate option" where
  "recognize agg z =
     Option.bind (store_meta z) (\<lambda>meta.
     Option.bind (collect_options (map (recognize_agg meta) (ai_aggs agg))) (\<lambda>aggs.
     if aggs = [] then None
     else map_option (\<lambda>keys. \<lparr>cand_aggs = aggs, cand_group_keys = keys, cand_group_names = map snd (ai_group agg)\<rparr>)
       (collect_options (map (group_key meta \<circ> fst) (ai_group agg)))))"

definition cube_universe :: "'f ZarrStoreMeta \<Rightarrow> ProductSet" where
  "cube_universe meta = single (map (\<lambda>c. interval 0 (unwrap_or (first_opt (shape c)) 0)) (coords meta))"

definition max_group_count :: "PushdownCandidate \<Rightarrow> 'f ZarrStoreMeta \<Rightarrow> nat option" where
  "max_group_count cand meta = group_cardinality (cube_universe meta) (cand_group_keys cand)"

section \<open>The rule\<close>

record CardinalityRule =
  rule_budget :: "MemoryBudget option"
  group_budget :: nat

text \<open>The budgets of the environment are arguments.\<close>

definition CardinalityRule_new :: "MemoryBudget option \<Rightarrow> nat \<Rightarrow> CardinalityRule" where
  "CardinalityRule_new env_budget max_groups = \<lparr>rule_budget = env_budget, group_budget = max_groups\<rparr>"

definition with_budget :: "nat \<Rightarrow> MemoryBudget option \<Rightarrow> CardinalityRule" where
  "with_budget max_groups b = \<lparr>rule_budget = b, group_budget = max_groups\<rparr>"

definition with_group_budget :: "CardinalityRule \<Rightarrow> nat \<Rightarrow> CardinalityRule" where
  "with_group_budget r g = r\<lparr>group_budget := g\<rparr>"

fun descend_to_zarr :: "'f ExecPlan \<Rightarrow> AggInfo option \<Rightarrow> (AggInfo \<times> 'f ZarrExec) option" where
  "descend_to_zarr (ZarrNode z) last_agg = map_option (\<lambda>a. (a, z)) last_agg"
| "descend_to_zarr (AggregateNode a c) last_agg = descend_to_zarr c (Some a)"
| "descend_to_zarr (ZarrAggregateNode es aggs sch c) last_agg = descend_to_zarr c last_agg"
| "descend_to_zarr (CoalescePartitionsNode f c) last_agg = descend_to_zarr c last_agg"
| "descend_to_zarr (GlobalLimitNode s f c) last_agg = descend_to_zarr c last_agg"
| "descend_to_zarr (LocalLimitNode n c) last_agg = descend_to_zarr c last_agg"
| "descend_to_zarr (OperatorNode name [c]) last_agg = descend_to_zarr c last_agg"
| "descend_to_zarr (OperatorNode name cs) last_agg = None"

text \<open>The outer option is a panic of the group count; the inner one is the decision.\<close>

fun try_pushdown_aggregate :: "CardinalityRule \<Rightarrow> 'f ExecPlan \<Rightarrow> 'f ExecPlan option option" where
  "try_pushdown_aggregate r (AggregateNode agg c) =
     (if ai_mode agg \<notin> {SingleMode, FinalMode, FinalPartitionedMode} then Some None
      else case descend_to_zarr (AggregateNode agg c) None of
        None \<Rightarrow> Some None
      | Some (inner_agg, z) \<Rightarrow>
          (case recognize inner_agg z of
             None \<Rightarrow> Some None
           | Some cand \<Rightarrow>
               (case store_meta z of
                  None \<Rightarrow> Some None
                | Some meta \<Rightarrow>
                    (case max_group_count cand meta of
                       None \<Rightarrow> None
                     | Some n \<Rightarrow>
                         if n > group_budget r then Some None
                         else Some (Some (ZarrAggregateNode (map fst (ai_group inner_agg)) (cand_aggs cand) (ai_schema agg)
                                (ZarrNode z)))))))"
| "try_pushdown_aggregate r p = Some None"

function annotate :: "CardinalityRule \<Rightarrow> 'f ExecPlan \<Rightarrow> 'f ExecPlan option" where
  "annotate r p =
     (case try_pushdown_aggregate r p of
        None \<Rightarrow> None
      | Some (Some pushed) \<Rightarrow> Some pushed
      | Some None \<Rightarrow>
          (case p of
             ZarrNode z \<Rightarrow>
               (case rule_budget r of
                  None \<Rightarrow> Some p
                | Some b \<Rightarrow> Some (ZarrNode (with_stream_budget_bytes z (Some (budget_bytes b)))))
           | _ \<Rightarrow>
               if plan_children p = [] then Some p
               else map_option (with_new_children p) (collect_options (map (annotate r) (plan_children p)))))"
  by auto
termination by (relation "measure (size \<circ> snd)") (auto simp: size_in_children)

declare annotate.simps [simp del]

section \<open>What an aggregation computes\<close>

text \<open>
  The meaning of an aggregation does not refer to the recogniser.  The rows are given by what expressions evaluate
  to on them: \<open>val\<close> is the argument of an aggregate as \<open>f64\<close> (\<open>None\<close> for a null), \<open>keyv\<close> the value of a group
  expression, \<open>passes\<close> a \<open>FILTER\<close> clause.  \<open>sql_aggregate\<close> is the aggregate function of a name on the values of its
  argument in a group: \<open>COUNT\<close> without an argument counts rows, every other aggregate skips nulls.
\<close>

definition sql_aggregate :: "('f :: linorder) F64 \<Rightarrow> string \<Rightarrow> 'f option list option \<Rightarrow> nat \<Rightarrow> 'f AggValue option" where
  "sql_aggregate fl name arg n =
     (case arg of
        None \<Rightarrow> if name = ''count'' then Some (CountValue (i64 (int n))) else None
      | Some cs \<Rightarrow>
          (let vs = List.map_filter id cs; total = foldl (f_add fl) (f_of_int fl 0) vs;
               nonempty = (\<lambda>x. FloatValue (if vs = [] then None else Some x))
           in if name = ''count'' then Some (CountValue (i64 (int (length vs))))
              else if name = ''sum'' then Some (nonempty total)
              else if name = ''avg'' then Some (nonempty (f_div fl total (f_of_u128 fl (length vs))))
              else if name = ''min'' then Some (nonempty (Min (set vs)))
              else if name = ''max'' then Some (nonempty (Max (set vs)))
              else None))"

definition df_value :: "('f :: linorder) F64 \<Rightarrow> ('row \<Rightarrow> PhysExpr \<Rightarrow> 'f option) \<Rightarrow> ('row \<Rightarrow> PhysExpr \<Rightarrow> bool) \<Rightarrow> AggExpr \<Rightarrow>
    PhysExpr option \<Rightarrow> 'row list \<Rightarrow> 'f AggValue option" where
  "df_value fl val passes a f rws =
     (let rs = (case f of None \<Rightarrow> rws | Some c \<Rightarrow> filter (\<lambda>r. passes r c) rws)
      in if ae_distinct a then None
         else case ae_args a of
           [] \<Rightarrow> sql_aggregate fl (ae_fun a) None (length rs)
         | [e] \<Rightarrow> sql_aggregate fl (ae_fun a) (Some (map (\<lambda>r. val r e) rs)) (length rs)
         | _ \<Rightarrow> None)"

text \<open>The groups: every key tuple that occurs, or the one group of an aggregation without \<open>GROUP BY\<close>.\<close>

definition group_keys :: "('row \<Rightarrow> PhysExpr \<Rightarrow> 'k) \<Rightarrow> PhysExpr list \<Rightarrow> 'row list \<Rightarrow> 'k list list" where
  "group_keys keyv es rws = (if es = [] then [[]] else remdups (map (\<lambda>r. map (keyv r) es) rws))"

definition df_table :: "('f :: linorder) F64 \<Rightarrow> ('row \<Rightarrow> PhysExpr \<Rightarrow> 'f option) \<Rightarrow> ('row \<Rightarrow> PhysExpr \<Rightarrow> 'k) \<Rightarrow>
    ('row \<Rightarrow> PhysExpr \<Rightarrow> bool) \<Rightarrow> AggInfo \<Rightarrow> 'row list \<Rightarrow> ('k list \<times> 'f AggValue option list) list" where
  "df_table fl val keyv passes a rws =
     map (\<lambda>k. (k, map (\<lambda>(e, f). df_value fl val passes e f (filter (\<lambda>r. map (keyv r) (map fst (ai_group a)) = k) rws))
       (zip (ai_aggs a) (ai_filters a)))) (group_keys keyv (map fst (ai_group a)) rws)"

text \<open>What the pushed-down operator sees of a row: the group key and the columns its aggregates name.\<close>

definition spec_cell :: "('row \<Rightarrow> PhysExpr \<Rightarrow> 'f option) \<Rightarrow> AggSpec \<Rightarrow> 'row \<Rightarrow> 'f agg_cell" where
  "spec_cell val s r = map_option (\<lambda>n. val r (ColumnExpr n)) (agg_column s)"

definition pushed_row :: "('row \<Rightarrow> PhysExpr \<Rightarrow> 'f option) \<Rightarrow> ('row \<Rightarrow> PhysExpr \<Rightarrow> 'k) \<Rightarrow> PhysExpr list \<Rightarrow> AggSpec list \<Rightarrow> 'row \<Rightarrow>
    ('k, 'f) agg_row" where
  "pushed_row val keyv exprs specs r = (map (keyv r) exprs, map (\<lambda>s. spec_cell val s r) specs)"

text \<open>
  The plans whose meaning is the grouped aggregate of the rows of a scan: one aggregation, in one phase or in two
  with the same aggregates, over operators that keep the rows.  Every other plan (a filter on data, a limit, a
  second aggregation, a join) has another meaning and is outside.
\<close>

fun scan_below :: "'f ExecPlan \<Rightarrow> 'f ZarrExec option" where
  "scan_below (ZarrNode z) = Some z"
| "scan_below (CoalescePartitionsNode None c) = scan_below c"
| "scan_below (OperatorNode name [c]) =
     (if name \<in> {''RepartitionExec'', ''CoalesceBatchesExec'', ''CooperativeExec''} then scan_below c else None)"
| "scan_below p = None"

fun partial_below :: "'f ExecPlan \<Rightarrow> (AggInfo \<times> 'f ZarrExec) option" where
  "partial_below (AggregateNode a c) = (if ai_mode a = PartialMode then map_option (Pair a) (scan_below c) else None)"
| "partial_below (CoalescePartitionsNode None c) = partial_below c"
| "partial_below (OperatorNode name [c]) =
     (if name \<in> {''RepartitionExec'', ''CoalesceBatchesExec'', ''CooperativeExec''} then partial_below c else None)"
| "partial_below p = None"

fun single_aggregation :: "'f ExecPlan \<Rightarrow> (AggInfo \<times> 'f ZarrExec) option" where
  "single_aggregation (AggregateNode a c) =
     (if ai_mode a \<in> {SingleMode, SinglePartitionedMode} then map_option (Pair a) (scan_below c)
      else if ai_mode a \<in> {FinalMode, FinalPartitionedMode}
      then (case partial_below c of
              None \<Rightarrow> None
            | Some (b, z) \<Rightarrow>
                if ai_aggs b = ai_aggs a \<and> map snd (ai_group b) = map snd (ai_group a) then Some (b, z) else None)
      else None)"
| "single_aggregation p = None"

text \<open>
  The table and the schema a plan returns; \<open>scan\<close> gives the rows of a scan.  The table of the pushed-down operator is
  that of its reference, which \<open>grouped_aggregate_exact\<close> proves of its execution.
\<close>

fun plan_table :: "('f :: linorder) F64 \<Rightarrow> ('row \<Rightarrow> PhysExpr \<Rightarrow> 'f option) \<Rightarrow> ('row \<Rightarrow> PhysExpr \<Rightarrow> 'k) \<Rightarrow>
    ('row \<Rightarrow> PhysExpr \<Rightarrow> bool) \<Rightarrow> ('f ZarrExec \<Rightarrow> 'row list) \<Rightarrow> 'f ExecPlan \<Rightarrow>
    (field list \<times> ('k list \<times> 'f AggValue option list) list) option" where
  "plan_table fl val keyv passes scan (AggregateNode a c) =
     map_option (\<lambda>(b, z). (ai_schema a, df_table fl val keyv passes b (scan z))) (single_aggregation (AggregateNode a c))"
| "plan_table fl val keyv passes scan (ZarrAggregateNode es specs sch (ZarrNode z)) =
     Some (sch, map (\<lambda>(k, vs). (k, map Some vs))
       (reference_table fl specs (map (pushed_row val keyv es specs) (scan z)) (group_keys keyv es (scan z))))"
| "plan_table fl val keyv passes scan p = None"

text \<open>An argument the recogniser may look through: its casts keep the value, and a literal is not null.\<close>

fun transparent :: "('row \<Rightarrow> PhysExpr \<Rightarrow> 'f option) \<Rightarrow> 'row list \<Rightarrow> PhysExpr \<Rightarrow> bool" where
  "transparent val rws (CastExpr e dt) \<longleftrightarrow> (\<forall>r \<in> set rws. val r (CastExpr e dt) = val r e) \<and> transparent val rws e"
| "transparent val rws (TryCastExpr e dt) \<longleftrightarrow> (\<forall>r \<in> set rws. val r (TryCastExpr e dt) = val r e) \<and> transparent val rws e"
| "transparent val rws (LiteralExpr v) \<longleftrightarrow> (\<forall>r \<in> set rws. val r (LiteralExpr v) \<noteq> None)"
| "transparent val rws e \<longleftrightarrow> True"

lemma bare_column_value:
  assumes "bare_column e = Some n" "transparent val rws e" "r \<in> set rws"
  shows "val r e = val r (ColumnExpr n)"
  using assms(1,2) by (induction e rule: bare_column.induct) (simp_all add: assms(3))

lemma transparent_mono: "transparent val rws e \<Longrightarrow> set rs \<subseteq> set rws \<Longrightarrow> transparent val rs e"
  by (induction e rule: bare_column.induct) auto

text \<open>The reference of the pushed-down operator is the aggregate function of the name.\<close>

lemma cell_values_Some: "cell_values (map Some cs) = List.map_filter id cs"
  by (induction cs) (simp_all add: cell_values_def split: option.split)

lemma non_null_count: "length (filter ((\<lambda>c. c \<noteq> Some None) \<circ> Some) cs) = length (List.map_filter id cs)"
  by (induction cs) (simp_all split: option.split)

lemma reference_agg_sql:
  "sql_aggregate fl ''count'' (Some cs) n = Some (reference_agg fl AggCount (map Some cs))"
  "sql_aggregate fl ''sum'' (Some cs) n = Some (reference_agg fl AggSum (map Some cs))"
  "sql_aggregate fl ''avg'' (Some cs) n = Some (reference_agg fl AggAvg (map Some cs))"
  "sql_aggregate fl ''min'' (Some cs) n = Some (reference_agg fl AggMin (map Some cs))"
  "sql_aggregate fl ''max'' (Some cs) n = Some (reference_agg fl AggMax (map Some cs))"
  by (simp_all add: sql_aggregate_def Let_def cell_values_Some non_null_count)

lemma agg_kind_ofD:
  assumes "agg_kind_of name = Some k"
  shows "sql_aggregate fl name (Some cs) n = Some (reference_agg fl k (map Some cs))"
  using assms by (auto simp: agg_kind_of_def reference_agg_sql split: if_splits)

lemma agg_kind_of_count: "agg_kind_of name = Some AggCount \<longleftrightarrow> name = ''count''"
  by (simp add: agg_kind_of_def)

lemma recognized_value:
  assumes rec: "recognize_agg meta a = Some s" and tr: "\<forall>e \<in> set (ae_args a). transparent val rws e"
  shows "df_value fl val passes a None rws = Some (reference_agg fl (agg_kind s) (map (spec_cell val s) rws))"
proof -
  obtain k where k: "agg_kind_of (ae_fun a) = Some k" "agg_kind s = k" and nd: "\<not> ae_distinct a"
    using rec by (auto simp: recognize_agg_def split: if_splits option.splits AggArg.splits)
  show ?thesis
  proof (cases "aggregate_arg (ae_args a)")
    case Star
    then have s: "agg_column s = None" "k = AggCount"
      using rec k by (auto simp: recognize_agg_def split: if_splits option.splits)
    then have f: "ae_fun a = ''count''" using k agg_kind_of_count by simp
    have sp: "map (spec_cell val s) rws = map (\<lambda>r. None) rws" by (simp add: spec_cell_def s)
    consider "ae_args a = []" | v where "ae_args a = [LiteralExpr v]"
      using Star by (auto simp: aggregate_arg_def split: list.splits option.splits if_splits elim!: is_literal.elims)
    then show ?thesis
    proof cases
      case 1
      then show ?thesis using k s f nd by (simp add: df_value_def sql_aggregate_def sp Let_def)
    next
      case (2 v)
      then have "\<forall>r \<in> set rws. val r (LiteralExpr v) \<noteq> None" using tr by simp
      then have "length (List.map_filter id (map (\<lambda>r. val r (LiteralExpr v)) rws)) = length rws"
        by (induction rws) auto
      then show ?thesis using k s f nd 2 by (simp add: df_value_def sql_aggregate_def sp Let_def)
    qed
  next
    case (ColumnArg n)
    then have s: "agg_column s = Some n" using rec by (auto simp: recognize_agg_def split: if_splits option.splits)
    obtain e where e: "ae_args a = [e]" "bare_column e = Some n"
      using ColumnArg by (auto simp: aggregate_arg_def split: list.splits option.splits if_splits)
    have sp: "map (spec_cell val s) rws = map Some (map (\<lambda>r. val r e) rws)"
      using bare_column_value [OF e(2), of val rws, symmetric] tr e(1) by (simp add: spec_cell_def s)
    have "df_value fl val passes a None rws = sql_aggregate fl (ae_fun a) (Some (map (\<lambda>r. val r e) rws)) (length rws)"
      by (simp add: df_value_def Let_def e(1) nd)
    also have "\<dots> = Some (reference_agg fl k (map (spec_cell val s) rws))" unfolding sp by (rule agg_kind_ofD [OF k(1)])
    finally show ?thesis by (simp add: k(2))
  next
    case Unsupported
    then show ?thesis using rec by (auto simp: recognize_agg_def split: if_splits option.splits)
  qed
qed

lemma scan_below_descend: "scan_below p = Some z \<Longrightarrow> descend_to_zarr p (Some a) = Some (a, z)"
  by (induction p rule: scan_below.induct) (auto split: if_splits)

lemma partial_below_descend: "partial_below p = Some (b, z) \<Longrightarrow> descend_to_zarr p (Some a) = Some (b, z)"
  by (induction p rule: partial_below.induct) (auto simp: scan_below_descend split: if_splits)

lemma single_aggregation_descend:
  assumes "single_aggregation p = Some (a, z)"
  shows "descend_to_zarr p None = Some (a, z)"
  using assms by (cases p)
    (auto simp: scan_below_descend partial_below_descend split: if_splits option.splits)

section \<open>The group budget\<close>

lemma period_positive: "period_of s = Some p \<Longrightarrow> 0 < p"
  by (auto simp: period_of_def Let_def split: if_splits)

lemma coord_axis_less: "coord_axis meta n = Some a \<Longrightarrow> a < length (coords meta)"
  by (auto simp: coord_axis_def in_set_enumerate_eq dest!: map_of_SomeD)

lemma column_axis_less: "column_axis meta e = Some a \<Longrightarrow> a < length (coords meta)"
  by (cases e) (auto dest: coord_axis_less)

definition key_ok :: "'f ZarrStoreMeta \<Rightarrow> GroupKey \<Rightarrow> bool" where
  "key_ok meta k \<longleftrightarrow> GroupKey_axis k < length (coords meta) \<and> (case k of Periodic a p \<Rightarrow> 0 < p | _ \<Rightarrow> True)"

lemma group_key_ok:
  assumes "group_key meta e = Some k"
  shows "key_ok meta k"
proof (cases "column_axis meta e")
  case None
  then obtain a p where k: "k = Periodic a p" "date_part_periodic meta e = Some (a, p)"
    using assms by (auto simp: group_key_def)
  then obtain x y where "e = ScalarFunctionExpr ''date_part'' [x, y]"
    by (cases e) (auto split: if_splits list.splits)
  then show ?thesis using k period_positive column_axis_less by (auto simp: key_ok_def split: bind_splits)
qed (use assms column_axis_less in \<open>fastforce simp: group_key_def key_ok_def\<close>)

lemma recognize_keys_ok:
  assumes "recognize a z = Some cand" "store_meta z = Some meta"
  shows "list_all (key_ok meta) (cand_group_keys cand)"
  using assms group_key_ok
  by (auto simp: recognize_def collect_options_iff list_all_iff split: if_splits bind_splits) force

text \<open>The cells of the whole cube.\<close>

definition cube_cells :: "'f ZarrStoreMeta \<Rightarrow> nat list set" where
  "cube_cells meta = listset (map (\<lambda>c. {0..<unwrap_or (first_opt (shape c)) 0}) (coords meta))"

definition meta_bounded :: "'f ZarrStoreMeta \<Rightarrow> bool" where
  "meta_bounded meta \<longleftrightarrow> list_all (\<lambda>c. unwrap_or (first_opt (shape c)) 0 < index_bound) (coords meta) \<and>
     prod_list (map (\<lambda>c. unwrap_or (first_opt (shape c)) 0) (coords meta)) < 2 ^ 128"

lemma cube_universe_correct:
  assumes "meta_bounded meta"
  shows "ps_wf 1 (cube_universe meta)" "ndim (cube_universe meta) = length (coords meta)"
    "ps_points (cube_universe meta) = cube_cells meta" "length (boxes (cube_universe meta)) < 32"
    "card (cube_cells meta) < 2 ^ 128" "finite (cube_cells meta)"
proof -
  let ?sels = "map (\<lambda>c. SelRange 0 (unwrap_or (first_opt (shape c)) 0)) (coords meta)"
  have u: "cube_universe meta = product_from_selections ?sels"
    by (simp add: cube_universe_def product_from_selections_def comp_def)
  have wf: "\<forall>s \<in> set ?sels. sel_wf s" using assms by (auto simp: meta_bounded_def list_all_iff)
  have c: "cells ?sels = cube_cells meta" by (simp add: cube_cells_def comp_def)
  show "ps_wf 1 (cube_universe meta)" "ndim (cube_universe meta) = length (coords meta)"
    "ps_points (cube_universe meta) = cube_cells meta" "length (boxes (cube_universe meta)) < 32"
    using product_from_selections_correct [OF wf] unfolding u c by simp_all
  show "card (cube_cells meta) < 2 ^ 128" using card_cells [OF wf] assms unfolding c by (simp add: meta_bounded_def comp_def)
  show "finite (cube_cells meta)" unfolding cube_cells_def by (intro finite_listset) auto
qed

text \<open>
  The group keys of a cell, by evaluating the \<open>GROUP BY\<close> expressions: a column is the value of the coordinate of that
  name at the position of the cell on its own axis, and \<open>date_part\<close> the part of that value.  \<open>value\<close> gives the values of the
  coordinates and \<open>dpart\<close> the function of DataFusion, of which only the documented range per field is assumed.
\<close>

datatype 'v key_value = CoordKey 'v | PartKey int

definition coords_named :: "'f ZarrStoreMeta \<Rightarrow> string \<Rightarrow> nat list" where
  "coords_named meta n = filter (\<lambda>i. meta_name (coords meta ! i) = n) [0..<length (coords meta)]"

fun key_on_cell :: "'f ZarrStoreMeta \<Rightarrow> (nat \<Rightarrow> nat \<Rightarrow> 'v) \<Rightarrow> (LiteralValue \<Rightarrow> 'v \<Rightarrow> int) \<Rightarrow> nat list \<Rightarrow> PhysExpr \<Rightarrow>
    'v key_value option" where
  "key_on_cell meta value dpart c (ColumnExpr n) =
     (case coords_named meta n of [] \<Rightarrow> None | i # _ \<Rightarrow> Some (CoordKey (value i (c ! i))))"
| "key_on_cell meta value dpart c (ScalarFunctionExpr f [LiteralExpr l, ColumnExpr n]) =
     (if f = ''date_part''
      then (case coords_named meta n of [] \<Rightarrow> None | i # _ \<Rightarrow> Some (PartKey (dpart l (value i (c ! i)))))
      else None)"
| "key_on_cell meta value dpart c e = None"

definition field_range :: "string \<Rightarrow> (int \<times> int) option" where
  "field_range field =
     map_of [(''month'', (1, 12)), (''day'', (1, 31)), (''hour'', (0, 23)), (''minute'', (0, 59)), (''second'', (0, 59)),
       (''quarter'', (1, 4)), (''doy'', (1, 366)), (''dayofyear'', (1, 366)), (''dow'', (0, 6)), (''dayofweek'', (0, 6)),
       (''week'', (1, 53))] field"

definition date_parts_in_range :: "(LiteralValue \<Rightarrow> 'v \<Rightarrow> int) \<Rightarrow> bool" where
  "date_parts_in_range dpart \<longleftrightarrow>
     (\<forall>s lo hi v. field_range (map to_lower s) = Some (lo, hi) \<longrightarrow>
       (\<forall>l \<in> {Utf8Lit (Some s), LargeUtf8Lit (Some s), Utf8ViewLit (Some s)}. dpart l v \<in> {lo..hi}))"

lemma coord_axis_named:
  assumes "coord_axis meta n = Some a" "distinct (map meta_name (coords meta))"
  shows "\<exists>as. coords_named meta n = a # as"
proof -
  have a: "a < length (coords meta)" "meta_name (coords meta ! a) = n"
    using assms(1) by (auto simp: coord_axis_def in_set_enumerate_eq dest!: map_of_SomeD)
  then have ne: "a \<in> set (coords_named meta n)" by (simp add: coords_named_def)
  have eq: "i = a" if "i \<in> set (coords_named meta n)" for i
  proof -
    have "i < length (coords meta)" "meta_name (coords meta ! i) = n" using that by (auto simp: coords_named_def)
    then have "map meta_name (coords meta) ! i = map meta_name (coords meta) ! a" using a by simp
    then show ?thesis
      using nth_eq_iff_index_eq [OF assms(2)] a(1) \<open>i < length (coords meta)\<close> by (metis length_map)
  qed
  obtain i as where as: "coords_named meta n = i # as" using ne by (cases "coords_named meta n") simp_all
  then have "i \<in> set (coords_named meta n)" by simp
  then show ?thesis using eq as by blast
qed

lemma period_of_range:
  assumes "period_of s = Some p"
  shows "\<exists>lo hi. field_range (map to_lower s) = Some (lo, hi) \<and> nat (hi + 1 - lo) \<le> p"
proof -
  define f where "f = map to_lower s"
  show ?thesis using assms unfolding period_of_def Let_def f_def [symmetric]
    by (auto simp: field_range_def split: if_splits)
qed

lemma literal_str_cases:
  assumes "literal_str x = Some s"
  shows "\<exists>l \<in> {Utf8Lit (Some s), LargeUtf8Lit (Some s), Utf8ViewLit (Some s)}. x = LiteralExpr l"
  using assms by (cases x rule: literal_str.cases) auto

text \<open>A function of the position that a key may be: for a periodic key one with few values.\<close>

fun position_fun :: "GroupKey \<Rightarrow> (nat \<Rightarrow> 'g) \<Rightarrow> bool" where
  "position_fun (GroupKey.Axis a) h \<longleftrightarrow> True"
| "position_fun (Periodic a p) h \<longleftrightarrow> finite (range h) \<and> card (range h) \<le> p"

lemma group_key_position:
  fixes dpart :: "LiteralValue \<Rightarrow> 'v \<Rightarrow> int"
  assumes k: "group_key meta e = Some k" and d: "distinct (map meta_name (coords meta))" and r: "date_parts_in_range dpart"
  shows "\<exists>h. position_fun k h \<and> (\<forall>c. key_on_cell meta value dpart c e = h (c ! GroupKey_axis k))"
proof (cases "column_axis meta e")
  case (Some a)
  then obtain n where n: "e = ColumnExpr n" "coord_axis meta n = Some a" by (cases e) auto
  then obtain ns where "coords_named meta n = a # ns" using coord_axis_named d by blast
  then show ?thesis using n Some k
    by (intro exI [of _ "\<lambda>i. Some (CoordKey (value a i))"]) (auto simp: group_key_def)
next
  case None
  then obtain a p where kp: "k = Periodic a p" "date_part_periodic meta e = Some (a, p)"
    using k by (auto simp: group_key_def)
  then obtain x y where e: "e = ScalarFunctionExpr ''date_part'' [x, y]"
    by (cases e) (auto split: if_splits list.splits)
  obtain s where s: "literal_str x = Some s" "period_of s = Some p" "column_axis meta y = Some a"
    using kp(2) by (auto simp: e split: bind_splits)
  obtain n where n: "y = ColumnExpr n" "coord_axis meta n = Some a" using s(3) by (cases y) auto
  obtain ns where ns: "coords_named meta n = a # ns" using coord_axis_named [OF n(2) d] by blast
  obtain l where l: "l \<in> {Utf8Lit (Some s), LargeUtf8Lit (Some s), Utf8ViewLit (Some s)}" "x = LiteralExpr l"
    using literal_str_cases [OF s(1)] by blast
  obtain lo hi where lh: "field_range (map to_lower s) = Some (lo, hi)" "nat (hi + 1 - lo) \<le> p"
    using period_of_range [OF s(2)] by blast
  let ?h = "\<lambda>i. Some (PartKey (dpart l (value a i)) :: 'v key_value)"
  have "dpart l v \<in> {lo..hi}" for v using r lh(1) l(1) unfolding date_parts_in_range_def by blast
  then have sub: "range ?h \<subseteq> (\<lambda>m. Some (PartKey m)) ` {lo..hi}" by blast
  then have fin: "finite (range ?h)" by (rule finite_subset) simp
  have "card (range ?h) \<le> card ((\<lambda>m. Some (PartKey m :: 'v key_value)) ` {lo..hi})" using sub by (intro card_mono) simp_all
  also have "\<dots> \<le> card {lo..hi}" by (intro card_image_le) simp
  finally have "card (range ?h) \<le> p" using lh(2) by simp
  then show ?thesis using fin ns kp(1) by (intro exI [of _ ?h]) (simp add: e n(1) l(2))
qed

definition position_tuple :: "(nat \<Rightarrow> 'g) list \<Rightarrow> GroupKey list \<Rightarrow> nat list \<Rightarrow> 'g list" where
  "position_tuple hs keys c = map2 (\<lambda>h k. h (c ! GroupKey_axis k)) hs keys"

lemma position_tuples_bound:
  assumes "finite S" "list_all2 position_fun keys hs"
  shows "card (position_tuple hs keys ` S) \<le> prod_list (map (key_bound S) keys)"
  using assms(2)
proof (induction keys hs rule: list_all2_induct)
  case Nil
  have "position_tuple [] [] ` S \<subseteq> {[]}" by (auto simp: position_tuple_def)
  from card_mono [OF _ this] show ?case by simp
next
  case (Cons k ks h hs)
  have "position_tuple (h # hs) (k # ks) ` S \<subseteq>
      (\<lambda>(x, t). x # t) ` ((\<lambda>p. h (p ! GroupKey_axis k)) ` S \<times> position_tuple hs ks ` S)"
    by (force simp: position_tuple_def)
  then have "card (position_tuple (h # hs) (k # ks) ` S) \<le>
      card ((\<lambda>(x, t). x # t) ` ((\<lambda>p. h (p ! GroupKey_axis k)) ` S \<times> position_tuple hs ks ` S))"
    using assms(1) by (intro card_mono) auto
  also have "\<dots> \<le> card ((\<lambda>p. h (p ! GroupKey_axis k)) ` S) * card (position_tuple hs ks ` S)"
    using card_image_le [of "(\<lambda>p. h (p ! GroupKey_axis k)) ` S \<times> position_tuple hs ks ` S" "\<lambda>(x, t). x # t"] assms(1)
    by (simp add: card_cartesian_product)
  also have "\<dots> \<le> key_bound S k * prod_list (map (key_bound S) ks)"
  proof (rule mult_mono [OF _ Cons.IH])
    show "card ((\<lambda>p. h (p ! GroupKey_axis k)) ` S) \<le> key_bound S k"
      using key_values_bound [OF assms(1), of "\<lambda>_. h" k] Cons.hyps(1) by (cases k) simp_all
  qed simp_all
  finally show ?case by simp
qed

lemma groups_within:
  assumes b: "meta_bounded meta" and keys: "list_all (key_ok meta) keys" and g: "group_cardinality (cube_universe meta) keys = Some n"
    and S: "S \<subseteq> cube_cells meta" and h: "list_all2 position_fun keys hs"
    and fits: "prod_list (map (key_bound (cube_cells meta)) keys) < 2 ^ 128"
  shows "card (position_tuple hs keys ` S) \<le> n"
proof -
  note u = cube_universe_correct [OF b]
  have axes: "\<forall>k \<in> set keys. GroupKey_axis k < ndim (cube_universe meta)"
    using keys by (auto simp: list_all_iff key_ok_def u(2))
  have mono: "card (position_tuple hs keys ` S) \<le> card (position_tuple hs keys ` cube_cells meta)"
    using S u(6) by (intro card_mono) auto
  have cnt: "countable_set (length (boxes (cube_universe meta))) (ps_points (cube_universe meta))"
    using u by (simp add: countable_set_def)
  consider "keys = []" | "S = {}" | "keys \<noteq> []" "cube_cells meta \<noteq> {}" "list_all is_Axis keys"
    | "cube_cells meta \<noteq> {}" "\<not> list_all is_Axis keys" using S by blast
  then show ?thesis
  proof cases
    case 1
    then have "position_tuple hs keys ` S \<subseteq> {[]}" by (auto simp: position_tuple_def)
    then have "card (position_tuple hs keys ` S) \<le> card {[] :: 'b list}" by (intro card_mono) auto
    then show ?thesis using g 1 by (simp add: group_cardinality_def)
  next
    case 3
    let ?ks = "map GroupKey_axis keys"
    have eq: "keys = map GroupKey.Axis ?ks" using 3(3) by (induction keys) (auto elim!: is_Axis.elims)
    have "countable_set (length (boxes (cube_universe meta))) (axis_tuple ?ks ` ps_points (cube_universe meta))"
      using countable_axis [OF _ cnt] u(3,6) by simp
    then have "n = card (axis_tuple ?ks ` cube_cells meta)"
      using group_cardinality_axes [OF u(1), of ?ks] axes 3(1) g eq u(3) by (metis (no_types, lifting) image_eqI list.map_disc_iff list.set_map option.inject imageE)
    moreover have "position_tuple hs keys p = map2 (\<lambda>h x. h x) hs (axis_tuple ?ks p)" for p
      unfolding position_tuple_def by (simp add: zip_map2 comp_def case_prod_beta)
    then have "position_tuple hs keys ` cube_cells meta = (\<lambda>t. map2 (\<lambda>h x. h x) hs t) ` axis_tuple ?ks ` cube_cells meta"
      by (simp add: image_image)
    ultimately show ?thesis
      using mono card_image_le [of "axis_tuple ?ks ` cube_cells meta" "\<lambda>t. map2 (\<lambda>h x. h x) hs t"] u(6) by simp
  next
    case 4
    have "0 < key_bound (cube_cells meta) k" if k: "k \<in> set keys" for k
    proof -
      have "key_ok meta k" using k keys by (simp add: list_all_iff)
      moreover have "0 < card ((\<lambda>p. p ! i) ` cube_cells meta)" for i using 4(1) u(6) by (simp add: card_gt_0_iff)
      ultimately show ?thesis by (cases k rule: GroupKey.exhaust) (simp_all add: key_ok_def Let_def)
    qed
    then have "group_cardinality (cube_universe meta) keys = Some (prod_list (map (key_bound (cube_cells meta)) keys))"
      using group_cardinality_periodic [OF u(1) axes 4(2) cnt] fits u(3) by simp
    then show ?thesis using g mono position_tuples_bound [OF u(6) h] by simp
  qed (simp)
qed

text \<open>Coordinates of at most \<open>m\<close> values bound every factor of the group count.\<close>

lemma axis_values_bound:
  assumes "\<forall>c \<in> set (coords meta). unwrap_or (first_opt (shape c)) 0 \<le> m" "i < length (coords meta)"
  shows "card ((\<lambda>p. p ! i) ` cube_cells meta) \<le> m"
proof -
  have "(\<lambda>p. p ! i) ` cube_cells meta \<subseteq> {0..<unwrap_or (first_opt (shape (coords meta ! i))) 0}"
    using assms(2) by (auto simp: cube_cells_def listset_iff dest!: list_all2_nthD)
  then have "card ((\<lambda>p. p ! i) ` cube_cells meta) \<le> card {0..<unwrap_or (first_opt (shape (coords meta ! i))) 0}"
    by (rule card_mono [rotated]) simp
  then show ?thesis using assms by (auto intro: order_trans)
qed

lemma key_bounds_product:
  assumes "\<forall>c \<in> set (coords meta). unwrap_or (first_opt (shape c)) 0 \<le> m" "list_all (key_ok meta) keys"
  shows "prod_list (map (key_bound (cube_cells meta)) keys) \<le> m ^ length keys"
  using assms(2)
proof (induction keys)
  case (Cons k keys)
  then have "GroupKey_axis k < length (coords meta)" by (simp add: key_ok_def)
  then have "key_bound (cube_cells meta) k \<le> m"
    using axis_values_bound [OF assms(1)] by (cases k) (auto intro: min.coboundedI1)
  then have "key_bound (cube_cells meta) k * prod_list (map (key_bound (cube_cells meta)) keys) \<le> m * m ^ length keys"
    using Cons by (intro mult_mono) simp_all
  then show ?case by simp
qed simp

section \<open>The rewritten plan\<close>

lemma try_pushdownD:
  assumes "try_pushdown_aggregate r p = Some (Some q)"
  obtains a z meta cand n b c where "descend_to_zarr p None = Some (a, z)" "store_meta z = Some meta"
    "recognize a z = Some cand" "max_group_count cand meta = Some n" "n \<le> group_budget r" "p = AggregateNode b c"
    "q = ZarrAggregateNode (map fst (ai_group a)) (cand_aggs cand) (ai_schema b) (ZarrNode z)"
  using assms by (cases p) (auto split: if_splits option.splits)

lemma recognizeD:
  assumes "recognize a z = Some cand" "store_meta z = Some meta"
  shows "map (recognize_agg meta) (ai_aggs a) = map Some (cand_aggs cand)"
  using assms by (auto simp: recognize_def collect_options_eq_Some split: if_splits bind_splits)

text \<open>Scans below no aggregation, with the budget stamped on each.\<close>

fun stamp :: "nat \<Rightarrow> 'f ExecPlan \<Rightarrow> 'f ExecPlan" where
  "stamp b (ZarrNode z) = ZarrNode (with_stream_budget_bytes z (Some b))"
| "stamp b (AggregateNode a c) = AggregateNode a (stamp b c)"
| "stamp b (ZarrAggregateNode es aggs sch c) = ZarrAggregateNode es aggs sch (stamp b c)"
| "stamp b (CoalescePartitionsNode f c) = CoalescePartitionsNode f (stamp b c)"
| "stamp b (GlobalLimitNode s f c) = GlobalLimitNode s f (stamp b c)"
| "stamp b (LocalLimitNode n c) = LocalLimitNode n (stamp b c)"
| "stamp b (OperatorNode name cs) = OperatorNode name (map (stamp b) cs)"

fun no_aggregate :: "'f ExecPlan \<Rightarrow> bool" where
  "no_aggregate (ZarrNode z) = True"
| "no_aggregate (AggregateNode a c) = False"
| "no_aggregate (ZarrAggregateNode es aggs sch c) = no_aggregate c"
| "no_aggregate (CoalescePartitionsNode f c) = no_aggregate c"
| "no_aggregate (GlobalLimitNode s f c) = no_aggregate c"
| "no_aggregate (LocalLimitNode n c) = no_aggregate c"
| "no_aggregate (OperatorNode name cs) = list_all no_aggregate cs"

lemmas annotate_simps = annotate.simps [of r "ZarrNode z" for r z]
  annotate.simps [of r "AggregateNode a c" for r a c] annotate.simps [of r "ZarrAggregateNode es aggs sch c" for r es aggs sch c]
  annotate.simps [of r "CoalescePartitionsNode f c" for r f c] annotate.simps [of r "GlobalLimitNode s f c" for r s f c]
  annotate.simps [of r "LocalLimitNode n c" for r n c] annotate.simps [of r "OperatorNode name cs" for r name cs]

lemma annotate_stamps:
  assumes "no_aggregate p" "rule_budget r = Some b"
  shows "annotate r p = Some (stamp (budget_bytes b) p)"
  using assms(1)
proof (induction p)
  case (OperatorNode name cs)
  then have "collect_options (map (annotate r) cs) = Some (map (stamp (budget_bytes b)) cs)"
    by (auto simp: collect_options_eq_Some list_all_iff)
  then show ?case by (auto simp: annotate_simps)
qed (simp_all add: annotate_simps assms(2))

lemma stamp_no_aggregate: "no_aggregate p \<Longrightarrow> no_aggregate (stamp b p)"
  by (induction p) (auto simp: list_all_iff)

lemma stamp_idem: "stamp b (stamp b p) = stamp b p"
  by (induction p) (simp_all add: with_stream_budget_bytes_def)

lemma annotate_idempotent:
  assumes "no_aggregate p" "rule_budget r = Some b" "annotate r p = Some q"
  shows "annotate r q = Some q"
  using assms annotate_stamps stamp_no_aggregate stamp_idem by (metis option.inject)

section \<open>Properties\<close>


text \<open>C6: The group table of a rewritten aggregation fits the group budget: the cells of any part of the cube have at
  most so many different tuples of \<open>GROUP BY\<close> values, a column being the value of the coordinate of that name and
  \<open>date_part\<close> a part within the documented range of its field.  The coordinates have distinct names, and the product of
  as many axis lengths as there are keys fits 128 bits.\<close>

theorem group_table_within_budget:
  fixes dpart :: "LiteralValue \<Rightarrow> 'v \<Rightarrow> int"
  assumes "try_pushdown_aggregate r p = Some (Some q)" "descend_to_zarr p None = Some (a, z)" "store_meta z = Some meta"
    "meta_bounded meta" "distinct (map meta_name (coords meta))" "date_parts_in_range dpart"
    "\<forall>c \<in> set (coords meta). unwrap_or (first_opt (shape c)) 0 \<le> m" "m ^ length (ai_group a) < 2 ^ 128"
    "S \<subseteq> cube_cells meta"
  shows "card ((\<lambda>c. map (\<lambda>(e, name). key_on_cell meta value dpart c e) (ai_group a)) ` S) \<le> group_budget r"
proof -
  obtain cand n where n: "recognize a z = Some cand" "max_group_count cand meta = Some n" "n \<le> group_budget r"
    using assms(1-3) by (auto elim!: try_pushdownD)
  let ?ks = "cand_group_keys cand"
  have keys: "map (group_key meta \<circ> fst) (ai_group a) = map Some ?ks"
    using n(1) assms(3) by (auto simp: recognize_def collect_options_eq_Some split: if_splits bind_splits)
  then have l: "length ?ks = length (ai_group a)" by (metis length_map)
  have "\<exists>h. position_fun (?ks ! i) h \<and>
      (\<forall>c. key_on_cell meta value dpart c (fst (ai_group a ! i)) = h (c ! GroupKey_axis (?ks ! i)))" if "i < length ?ks" for i
  proof (rule group_key_position [OF _ assms(5,6)])
    show "group_key meta (fst (ai_group a ! i)) = Some (?ks ! i)" using that keys l by (metis comp_apply nth_map)
  qed
  then obtain h where h: "\<And>i. i < length ?ks \<Longrightarrow> position_fun (?ks ! i) (h i)"
      "\<And>i c. i < length ?ks \<Longrightarrow> key_on_cell meta value dpart c (fst (ai_group a ! i)) = h i (c ! GroupKey_axis (?ks ! i))"
    by metis
  let ?hs = "map h [0..<length ?ks]"
  have tup: "(\<lambda>c. map (\<lambda>(e, name). key_on_cell meta value dpart c e) (ai_group a)) = position_tuple ?hs ?ks"
    using l h(2) by (intro ext nth_equalityI) (simp_all add: position_tuple_def case_prod_beta)
  have hs: "list_all2 position_fun ?ks ?hs" using h(1) by (simp add: list_all2_conv_all_nth)
  have ok: "list_all (key_ok meta) ?ks" using recognize_keys_ok [OF n(1) assms(3)] .
  have fits: "prod_list (map (key_bound (cube_cells meta)) ?ks) < 2 ^ 128"
    using key_bounds_product [OF assms(7) ok] assms(8) l by simp
  have g: "group_cardinality (cube_universe meta) ?ks = Some n" using n(2) by (simp add: max_group_count_def)
  show ?thesis using groups_within [OF assms(4) ok g assms(9) hs fits] n(3) unfolding tup by simp
qed

definition demo_coord :: "string \<Rightarrow> nat \<Rightarrow> rat ZarrArrayMeta" where
  "demo_coord name n =
     \<lparr>meta_name = name, data_type = ''int64'', shape = [n], chunks = Some [n], coord_min_max = None, cf_time_attrs = None,
      dimensions = Some [name]\<rparr>"

definition demo_meta :: "rat ZarrStoreMeta" where
  "demo_meta =
     \<lparr>coords = [demo_coord ''time'' 24, demo_coord ''lat'' 3],
      data_vars = [\<lparr>meta_name = ''temp'', data_type = ''float32'', shape = [24, 3], chunks = Some [1, 3], coord_min_max = None,
        cf_time_attrs = None, dimensions = Some [''time'', ''lat'']\<rparr>], total_rows = 72\<rparr>"

definition demo_scan :: "rat ZarrExec" where
  "demo_scan =
     \<lparr>ze_schema = [], ze_path = ''store'', ze_projection = None, ze_limit = None, ze_properties = ([], 1), cached_remote = None,
      coord_filters = None, cached_virtualizarr = None, partitions = [], ze_stream_budget_bytes = None,
      store_meta = Some demo_meta, store_kind = ZarrKind\<rparr>"

definition demo_agg :: "AggregateMode \<Rightarrow> string \<Rightarrow> PhysExpr \<Rightarrow> (PhysExpr \<times> string) list \<Rightarrow> AggInfo" where
  "demo_agg m f e g =
     \<lparr>ai_mode = m, ai_aggs = [\<lparr>ae_fun = f, ae_distinct = False, ae_args = [e]\<rparr>], ai_filters = [None], ai_group = g, ai_schema = []\<rparr>"

abbreviation month_of_time :: PhysExpr where
  "month_of_time \<equiv> ScalarFunctionExpr ''date_part'' [LiteralExpr (Utf8Lit (Some ''MONTH'')), ColumnExpr ''time'']"

definition demo_plan :: "rat ExecPlan" where
  "demo_plan =
     AggregateNode (demo_agg FinalMode ''avg'' (CastExpr (ColumnExpr ''temp'') Float64) [(ColumnExpr ''m'', ''m''), (ColumnExpr ''lat'', ''lat'')])
       (CoalescePartitionsNode None
         (AggregateNode (demo_agg PartialMode ''avg'' (CastExpr (ColumnExpr ''temp'') Float64)
             [(month_of_time, ''m''), (ColumnExpr ''lat'', ''lat'')]) (ZarrNode demo_scan)))"

abbreviation demo_rule :: CardinalityRule where
  "demo_rule \<equiv> \<lparr>rule_budget = None, group_budget = 36\<rparr>"

abbreviation demo_inner :: AggInfo where
  "demo_inner \<equiv> demo_agg PartialMode ''avg'' (CastExpr (ColumnExpr ''temp'') Float64) [(month_of_time, ''m''), (ColumnExpr ''lat'', ''lat'')]"

definition demo_cand :: PushdownCandidate where
  "demo_cand = \<lparr>cand_aggs = [\<lparr>agg_kind = AggAvg, agg_column = Some ''temp''\<rparr>], cand_group_keys = [Periodic 0 12, GroupKey.Axis 1],
     cand_group_names = [''m'', ''lat'']\<rparr>"

lemma demo_recognize: "recognize demo_inner demo_scan = Some demo_cand" by code_simp

lemma demo_count: "max_group_count demo_cand demo_meta = Some 36" by code_simp

lemma demo_descend: "descend_to_zarr demo_plan None = Some (demo_inner, demo_scan)"
  by (simp add: demo_plan_def)

lemma demo_pushdown:
  "try_pushdown_aggregate demo_rule demo_plan =
    Some (Some (ZarrAggregateNode [month_of_time, ColumnExpr ''lat''] (cand_aggs demo_cand) [] (ZarrNode demo_scan)))"
proof -
  have m: "store_meta demo_scan = Some demo_meta" by (simp add: demo_scan_def)
  show ?thesis using demo_descend demo_recognize demo_count m by (simp add: demo_plan_def demo_agg_def)
qed

text \<open>Rows of a time, a latitude and a temperature that may be null; an argument is evaluated by its expression.\<close>

type_synonym demo_row = "nat \<times> nat \<times> rat option"

fun demo_val :: "demo_row \<Rightarrow> PhysExpr \<Rightarrow> rat option" where
  "demo_val (t, l, v) (ColumnExpr n) = (if n = ''temp'' then v else if n = ''lat'' then Some (of_nat l) else None)"
| "demo_val rw (CastExpr e dt) = demo_val rw e"
| "demo_val rw e = None"

definition demo_keyv :: "demo_row \<Rightarrow> PhysExpr \<Rightarrow> nat" where
  "demo_keyv rw e = (case rw of (t, l, v) \<Rightarrow> if e = ColumnExpr ''lat'' then l else t mod 12)"

definition demo_rows :: "demo_row list" where
  "demo_rows = [(0, 0, Some 1), (12, 0, Some 3), (1, 2, Some 5), (13, 2, None)]"


definition demo_part :: "LiteralValue \<Rightarrow> nat \<Rightarrow> int" where
  "demo_part l t = (if l = Utf8Lit (Some ''MONTH'') then int (t mod 12) + 1 else 1)"

lemma demo_part_in_range: "date_parts_in_range demo_part"
proof -
  have one: "lo \<le> 1 \<and> 1 \<le> hi" if "field_range f = Some (lo, hi)" for f lo hi
    using that by (auto simp: field_range_def split: if_splits)
  have "map to_lower ''MONTH'' = ''month''" by code_simp
  then have month: "lo = 1 \<and> hi = 12" if "field_range (map to_lower ''MONTH'') = Some (lo, hi)" for lo hi
    using that by (simp add: field_range_def)
  have "demo_part l t \<in> {lo..hi}" if f: "field_range (map to_lower s) = Some (lo, hi)"
      and l: "l \<in> {Utf8Lit (Some s), LargeUtf8Lit (Some s), Utf8ViewLit (Some s)}" for s lo hi l t
  proof (cases "l = Utf8Lit (Some ''MONTH'')")
    case True
    then have "s = ''MONTH''" using l by auto
    then have lh: "lo = 1" "hi = 12" using month f by blast+
    have "t mod 12 < 12" by simp
    then show ?thesis by (simp add: demo_part_def True lh)
  next
    case False
    then show ?thesis using one [OF f] by (simp add: demo_part_def)
  qed
  then show ?thesis unfolding date_parts_in_range_def by blast
qed

lemma demo_cube: "meta_bounded demo_meta" "card (cube_cells demo_meta) = 72"
proof -
  show b: "meta_bounded demo_meta"
    by (simp add: meta_bounded_def demo_meta_def demo_coord_def unwrap_or_def first_opt_def index_bound_def)
  show "card (cube_cells demo_meta) = 72"
    unfolding cube_cells_def by (subst card_listset) (auto simp: demo_meta_def demo_coord_def unwrap_or_def first_opt_def)
qed

theorem group_table_within_budget_witness:
  "card ((\<lambda>c. map (\<lambda>(e, name). key_on_cell demo_meta (\<lambda>i t. t) demo_part c e) (ai_group demo_inner)) ` cube_cells demo_meta) \<le> 36"
proof -
  have m: "store_meta demo_scan = Some demo_meta" by (simp add: demo_scan_def)
  have n: "distinct (map meta_name (coords demo_meta))" "\<forall>c \<in> set (coords demo_meta). unwrap_or (first_opt (shape c)) 0 \<le> 24"
      "(24::nat) ^ length (ai_group demo_inner) < 2 ^ 128"
    by (simp_all add: demo_meta_def demo_coord_def demo_agg_def unwrap_or_def first_opt_def)
  from group_table_within_budget [OF demo_pushdown demo_descend m demo_cube(1) n(1) demo_part_in_range n(2,3) subset_refl,
      of "\<lambda>i t. t"] show ?thesis by simp
qed

section \<open>What the descent skips\<close>

text \<open>
  The descent passes every operator with one child, a filter on data included: the rewritten plan aggregates
  the unfiltered scan.
\<close>

lemma pushdown_drops_filter:
  "try_pushdown_aggregate demo_rule
     (AggregateNode (demo_agg SingleMode ''avg'' (ColumnExpr ''temp'') []) (OperatorNode ''FilterExec'' [ZarrNode demo_scan])) =
   Some (Some (ZarrAggregateNode [] [\<lparr>agg_kind = AggAvg, agg_column = Some ''temp''\<rparr>] [] (ZarrNode demo_scan)))"
  by (simp add: demo_agg_def demo_scan_def demo_meta_def recognize_def recognize_agg_def agg_kind_of_def aggregate_arg_def
      max_group_count_def group_cardinality_def)

text \<open>Of nested aggregations the innermost one replaces the whole tree: counting the averages returns the average.\<close>

lemma pushdown_replaces_outer_aggregate:
  "try_pushdown_aggregate demo_rule
     (AggregateNode (demo_agg SingleMode ''count'' (ColumnExpr ''a'') [])
       (AggregateNode (demo_agg SingleMode ''avg'' (ColumnExpr ''temp'') []) (ZarrNode demo_scan))) =
   Some (Some (ZarrAggregateNode [] [\<lparr>agg_kind = AggAvg, agg_column = Some ''temp''\<rparr>] [] (ZarrNode demo_scan)))"
  by (simp add: demo_agg_def demo_scan_def demo_meta_def recognize_def recognize_agg_def agg_kind_of_def aggregate_arg_def
      max_group_count_def group_cardinality_def)

text \<open>A \<open>FILTER\<close> clause is not looked at, a narrowing cast is dropped, and \<open>COUNT(NULL)\<close> is taken for \<open>COUNT(*)\<close>.\<close>

lemma recognizer_ignores_filter_clause: "recognize (a\<lparr>ai_filters := fs\<rparr>) z = recognize a z"
  by (cases a) (simp only: recognize_def AggInfo.update_convs AggInfo.select_convs)

lemma recognizer_drops_casts:
  "recognize_agg meta \<lparr>ae_fun = f, ae_distinct = False, ae_args = [CastExpr (ColumnExpr n) Int8]\<rparr> =
   recognize_agg meta \<lparr>ae_fun = f, ae_distinct = False, ae_args = [ColumnExpr n]\<rparr>"
proof -
  have "aggregate_arg [CastExpr (ColumnExpr n) Int8] = aggregate_arg [ColumnExpr n]" by (simp add: aggregate_arg_def)
  then show ?thesis by (simp only: recognize_agg_def AggExpr.select_convs)
qed

lemma recognizer_counts_null_literal:
  "recognize_agg meta \<lparr>ae_fun = ''count'', ae_distinct = False, ae_args = [LiteralExpr (Utf8Lit None)]\<rparr> =
   Some \<lparr>agg_kind = AggCount, agg_column = None\<rparr>"
  by (simp add: recognize_agg_def aggregate_arg_def agg_kind_of_def)

end
