(* ===== verification/Distributed.thy ===== *)
theory Distributed
  imports Exec_Plan Cf_Time
begin

text \<open>
  Distributed scans (\<open>src/physical_plan/codec.rs\<close>, \<open>src/distributed.rs\<close>): the wire format of a scan node, the
  estimation of tasks and the distribution of the partitions of a scan over them.  The lemmas show that a
  scan survives the wire, up to the fields that are dropped on purpose, and that the workers together read
  every slice of the scan once.
\<close>

section \<open>The wire format\<close>

text \<open>\<open>'b\<close> is the type of encoded payloads.\<close>

datatype 'b CoordFilterKindDto =
    EqDto 'b
  | RangeDto "'b option" "'b option" bool bool
  | DatePartDto string int
  | InListDto "'b list"
  | DatePartSetDto string "int list"

record 'b ZarrExecDto =
  dto_schema :: 'b
  dto_path :: string
  dto_projection :: "nat list option"
  dto_limit :: "nat option"
  dto_coord_filters :: "(string \<times> 'b CoordFilterKindDto list) list option"
  dto_partitions :: "PartitionSpec list"
  dto_store_kind :: StoreKind

text \<open>The conversions of datafusion-proto and serde; \<open>None\<close> is an error.\<close>

record ('f, 'b, 'w) wire =
  scalar_to_bytes :: "'f ScalarValue \<Rightarrow> 'b option"
  scalar_from_bytes :: "'b \<Rightarrow> 'f ScalarValue option"
  schema_to_bytes :: "(string \<times> DataType) list \<Rightarrow> 'b option"
  schema_from_bytes :: "'b \<Rightarrow> (string \<times> DataType) list option"
  to_vec :: "'b ZarrExecDto \<Rightarrow> 'w option"
  from_slice :: "'w \<Rightarrow> 'b ZarrExecDto option"

text \<open>\<open>Option<Result>::transpose\<close>: the outer option is the error.\<close>

definition transpose_option :: "('a \<Rightarrow> 'b option) \<Rightarrow> 'a option \<Rightarrow> 'b option option" where
  "transpose_option f x = (case x of None \<Rightarrow> Some None | Some v \<Rightarrow> map_option Some (f v))"

fun from_kind :: "('f, 'b, 'w) wire \<Rightarrow> 'f CoordFilterKind \<Rightarrow> 'b CoordFilterKindDto option" where
  "from_kind w (Eq v) = map_option EqDto (scalar_to_bytes w v)"
| "from_kind w (Range low high li hi) =
     Option.bind (transpose_option (scalar_to_bytes w) low) (\<lambda>l.
     map_option (\<lambda>h. RangeDto l h li hi) (transpose_option (scalar_to_bytes w) high))"
| "from_kind w (DatePart f v) = Some (DatePartDto f v)"
| "from_kind w (InList vs) = map_option InListDto (collect_options (map (scalar_to_bytes w) vs))"
| "from_kind w (DatePartSet f vs) = Some (DatePartSetDto f vs)"

fun into_kind :: "('f, 'b, 'w) wire \<Rightarrow> 'b CoordFilterKindDto \<Rightarrow> 'f CoordFilterKind option" where
  "into_kind w (EqDto b) = map_option Eq (scalar_from_bytes w b)"
| "into_kind w (RangeDto low high li hi) =
     Option.bind (transpose_option (scalar_from_bytes w) low) (\<lambda>l.
     map_option (\<lambda>h. Range l h li hi) (transpose_option (scalar_from_bytes w) high))"
| "into_kind w (DatePartDto f v) = Some (DatePart f v)"
| "into_kind w (InListDto bs) = map_option InList (collect_options (map (scalar_from_bytes w) bs))"
| "into_kind w (DatePartSetDto f vs) = Some (DatePartSet f vs)"

text \<open>Converting every filter of every coordinate.\<close>

definition convert_filters :: "('a \<Rightarrow> 'b option) \<Rightarrow> (string \<times> 'a list) list \<Rightarrow> (string \<times> 'b list) list option" where
  "convert_filters f fs = collect_options (map (\<lambda>(k, kinds). map_option (Pair k) (collect_options (map f kinds))) fs)"

definition from_exec :: "('f, 'b, 'w) wire \<Rightarrow> 'f ZarrExec \<Rightarrow> 'b ZarrExecDto option" where
  "from_exec w z =
     Option.bind (transpose_option (convert_filters (from_kind w)) (coord_filters z)) (\<lambda>fs.
     map_option (\<lambda>s. \<lparr>dto_schema = s, dto_path = ze_path z, dto_projection = ze_projection z, dto_limit = ze_limit z,
         dto_coord_filters = fs, dto_partitions = partitions z, dto_store_kind = store_kind z\<rparr>)
       (schema_to_bytes w (ze_schema z)))"

text \<open>\<open>None\<close> is an error, or the panic of a projection out of range.\<close>

definition into_exec :: "('f, 'b, 'w) wire \<Rightarrow> 'b ZarrExecDto \<Rightarrow> 'f ZarrExec option" where
  "into_exec w d =
     Option.bind (schema_from_bytes w (dto_schema d)) (\<lambda>schema.
     Option.bind (transpose_option (convert_filters (into_kind w)) (dto_coord_filters d)) (\<lambda>fs.
     Option.bind (ZarrExec_new schema (dto_path d) (dto_projection d) (dto_limit d) None fs None) (\<lambda>z.
     map_option (\<lambda>z. with_store_kind z (dto_store_kind d)) (with_partitions z (dto_partitions d)))))"

definition try_encode :: "('f, 'b, 'w) wire \<Rightarrow> 'f ExecPlan \<Rightarrow> 'w option" where
  "try_encode w p = (case p of ZarrNode z \<Rightarrow> Option.bind (from_exec w z) (to_vec w) | _ \<Rightarrow> None)"

definition try_decode :: "('f, 'b, 'w) wire \<Rightarrow> 'w \<Rightarrow> 'f ExecPlan option" where
  "try_decode w buf = map_option ZarrNode (Option.bind (from_slice w buf) (into_exec w))"

section \<open>Tasks\<close>

text \<open>The number of tasks that is asked for, if any.\<close>

definition task_estimation :: "'f ExecPlan \<Rightarrow> nat option" where
  "task_estimation p =
     (case p of ZarrNode z \<Rightarrow> (let n = length (partitions z) in if n \<ge> 2 then Some n else None) | _ \<Rightarrow> None)"

text \<open>The variants of a scan, one per task; the outer option is a panic.\<close>

definition scale_up_leaf_node :: "'f ExecPlan \<Rightarrow> nat \<Rightarrow> 'f ZarrExec list option option" where
  "scale_up_leaf_node p task_count =
     (case p of
        ZarrNode z \<Rightarrow>
          if length (partitions z) < 2 \<or> task_count \<le> 1 then Some None
          else map_option Some (collect_options (map (\<lambda>group.
              Option.bind (ZarrExec_new (ze_schema z) (ze_path z) (ze_projection z) (ze_limit z) None (coord_filters z) None) (\<lambda>v.
              map_option (\<lambda>v. with_store_kind v (store_kind z)) (with_partitions v group)))
            (distribute_specs_across_tasks (partitions z) task_count)))
      | _ \<Rightarrow> Some None)"

text \<open>\<open>str::split\<close> on a character.\<close>

fun split_char :: "char \<Rightarrow> string \<Rightarrow> string list" where
  "split_char c [] = [[]]"
| "split_char c (x # xs) = (if x = c then [] # split_char c xs else (x # hd (split_char c xs)) # tl (split_char c xs))"

definition from_csv :: "(string \<Rightarrow> 'u option) \<Rightarrow> string \<Rightarrow> 'u list option" where
  "from_csv parse_url s = collect_options (map parse_url (filter (\<lambda>x. x \<noteq> []) (map trim (split_char (CHR '','') s))))"

section \<open>The wire keeps a scan\<close>

definition wire_ok :: "('f, 'b, 'w) wire \<Rightarrow> bool" where
  "wire_ok w \<longleftrightarrow> (\<forall>v b. scalar_to_bytes w v = Some b \<longrightarrow> scalar_from_bytes w b = Some v) \<and>
     (\<forall>s b. schema_to_bytes w s = Some b \<longrightarrow> schema_from_bytes w b = Some s) \<and>
     (\<forall>d b. to_vec w d = Some b \<longrightarrow> from_slice w b = Some d)"

lemma transpose_roundtrip:
  assumes "transpose_option f x = Some y" "\<And>a b. x = Some a \<Longrightarrow> f a = Some b \<Longrightarrow> g b = Some a"
  shows "transpose_option g y = Some x"
  using assms by (cases x) (auto simp: transpose_option_def)

lemma collect_roundtrip:
  assumes "collect_options (map f xs) = Some ys" "\<And>a b. a \<in> set xs \<Longrightarrow> f a = Some b \<Longrightarrow> g b = Some a"
  shows "collect_options (map g ys) = Some xs"
  using assms
proof (induction xs arbitrary: ys)
  case (Cons x xs)
  then obtain y ys' where y: "f x = Some y" "collect_options (map f xs) = Some ys'" "ys = y # ys'"
    by (auto split: option.splits)
  have "g y = Some x" using Cons.prems(2) [OF _ y(1)] by simp
  moreover have "collect_options (map g ys') = Some xs" using Cons.IH [OF y(2)] Cons.prems(2) by simp
  ultimately show ?case using y(3) by simp
qed simp

lemma kind_roundtrip:
  assumes "wire_ok w" "from_kind w k = Some d"
  shows "into_kind w d = Some k"
proof (cases k)
  case (Range low high li hi)
  then obtain l h where d: "transpose_option (scalar_to_bytes w) low = Some l" "transpose_option (scalar_to_bytes w) high = Some h"
      "d = RangeDto l h li hi"
    using assms(2) by (auto split: bind_splits)
  have "transpose_option (scalar_from_bytes w) l = Some low" "transpose_option (scalar_from_bytes w) h = Some high"
    using d(1,2) assms(1) by (auto elim!: transpose_roundtrip simp: wire_ok_def)
  then show ?thesis using Range d(3) by simp
next
  case (InList vs)
  then obtain bs where d: "collect_options (map (scalar_to_bytes w) vs) = Some bs" "d = InListDto bs" using assms(2) by auto
  have "collect_options (map (scalar_from_bytes w) bs) = Some vs"
    using d(1) by (rule collect_roundtrip) (use assms(1) in \<open>simp add: wire_ok_def\<close>)
  then show ?thesis using InList d(2) by simp
qed (use assms in \<open>auto simp: wire_ok_def\<close>)

lemma filters_roundtrip:
  assumes "\<And>a b. f a = Some b \<Longrightarrow> g b = Some a" "convert_filters f fs = Some ds"
  shows "convert_filters g ds = Some fs"
  using assms(2) unfolding convert_filters_def
proof (rule collect_roundtrip)
  fix a b assume "(\<lambda>(k, kinds). map_option (Pair k) (collect_options (map f kinds))) a = Some b"
  then obtain k ks ds where "a = (k, ks)" "b = (k, ds)" "collect_options (map f ks) = Some ds" by (cases a) auto
  moreover from this(3) have "collect_options (map g ds) = Some ks" using assms(1) by (rule collect_roundtrip)
  ultimately show "(\<lambda>(k, kinds). map_option (Pair k) (collect_options (map g kinds))) b = Some a" by simp
qed

text \<open>What a worker has of a scan: the caches, the metadata and the budget stay behind.\<close>

definition shipped :: "'f ZarrExec \<Rightarrow> 'f ZarrExec" where
  "shipped z = z\<lparr>cached_remote := None, cached_virtualizarr := None, ze_stream_budget_bytes := None, store_meta := None\<rparr>"

lemma new_with_partitions:
  assumes "exec_wf z" "n = max (length ps) 1" "ze_properties z = (s, k)"
  shows "Option.bind (ZarrExec_new (ze_schema z) (ze_path z) (ze_projection z) (ze_limit z) None (coord_filters z) None)
      (\<lambda>v. map_option (\<lambda>v. with_store_kind v (store_kind z)) (with_partitions v ps)) =
    Some ((shipped z)\<lparr>partitions := ps, ze_properties := (s, n)\<rparr>)"
proof -
  have "build_exec_projected_schema (ze_schema z) (ze_projection z) = Some s"
    using assms(1,3) by (auto simp: exec_wf_def build_properties_def)
  then show ?thesis using assms(2)
    by (cases z) (simp add: ZarrExec_new_def with_partitions_def build_properties_def with_store_kind_def shipped_def)
qed

lemma decode_encode:
  assumes ok: "wire_ok w" and wf: "exec_wf z" and enc: "try_encode w (ZarrNode z) = Some buf"
  shows "try_decode w buf = Some (ZarrNode (shipped z))"
proof -
  obtain fs sb where d: "transpose_option (convert_filters (from_kind w)) (coord_filters z) = Some fs"
      "schema_to_bytes w (ze_schema z) = Some sb"
      "to_vec w \<lparr>dto_schema = sb, dto_path = ze_path z, dto_projection = ze_projection z, dto_limit = ze_limit z,
         dto_coord_filters = fs, dto_partitions = partitions z, dto_store_kind = store_kind z\<rparr> = Some buf"
    using enc by (auto simp: try_encode_def from_exec_def split: bind_splits)
  have f: "transpose_option (convert_filters (into_kind w)) fs = Some (coord_filters z)"
    using d(1) by (rule transpose_roundtrip) (use kind_roundtrip [OF ok] filters_roundtrip in blast)
  obtain s k where p: "ze_properties z = (s, k)" by (cases "ze_properties z")
  have k: "k = max (length (partitions z)) 1" using wf p by (auto simp: exec_wf_def build_properties_def)
  have "(shipped z)\<lparr>partitions := partitions z, ze_properties := (s, k)\<rparr> = shipped z"
    using p by (cases z) (simp add: shipped_def)
  then show ?thesis using d(2,3) f ok new_with_partitions [OF wf k p]
    by (simp add: try_decode_def into_exec_def wire_ok_def)
qed

section \<open>The workers read the scan\<close>

lemma shipped_simps [simp]: "shipped (shipped z) = shipped z" "partitions (shipped z) = partitions z"
  "ze_properties (shipped z) = ze_properties z" "exec_wf (shipped z) = exec_wf z"
  by (simp_all add: shipped_def exec_wf_def)

definition task_exec :: "'f ZarrExec \<Rightarrow> PartitionSpec list \<Rightarrow> 'f ZarrExec" where
  "task_exec z ps = (shipped z)\<lparr>partitions := ps, ze_properties := (fst (ze_properties z), max (length ps) 1)\<rparr>"

lemma task_exec_simps [simp]: "partitions (task_exec z ps) = ps" "shipped (task_exec z ps) = task_exec z ps"
  "ze_properties (task_exec z ps) = (fst (ze_properties z), max (length ps) 1)"
  by (simp_all add: task_exec_def shipped_def)

lemma task_exec_wf: "exec_wf z \<Longrightarrow> exec_wf (task_exec z ps)"
  by (auto simp: exec_wf_def task_exec_def shipped_def build_properties_def) (metis fst_conv)

lemma scale_up_eq:
  assumes "exec_wf z"
  shows "scale_up_leaf_node (ZarrNode z) tc =
    (if length (partitions z) < 2 \<or> tc \<le> 1 then Some None
     else Some (Some (map (task_exec z) (distribute_specs_across_tasks (partitions z) tc))))"
proof -
  have v: "Option.bind (ZarrExec_new (ze_schema z) (ze_path z) (ze_projection z) (ze_limit z) None (coord_filters z) None)
      (\<lambda>v. map_option (\<lambda>v. with_store_kind v (store_kind z)) (with_partitions v ps)) = Some (task_exec z ps)" for ps
    using new_with_partitions [OF assms refl surjective_pairing, of ps] by (simp add: task_exec_def)
  moreover have "collect_options (map (\<lambda>ps. Some (task_exec z ps)) gs) = Some (map (task_exec z) gs)" for gs
    by (simp add: collect_options_eq_Some)
  ultimately show ?thesis unfolding scale_up_leaf_node_def by simp
qed

section \<open>Properties\<close>

text \<open>C24: A scan survives the wire: a worker decodes the node with every field that decides what is read, its
  partitions included; caches, metadata and the memory budget stay behind.\<close>

theorem codec_roundtrip:
  assumes "wire_ok w" "exec_wf z" "try_encode w (ZarrNode z) = Some buf"
  shows "try_decode w buf = Some (ZarrNode (shipped z))"
  using assms by (rule decode_encode)

text \<open>C23: The tasks of a distributed scan, each with the node its worker decodes, have equally many partitions, and
  together they hold every non-empty slice of the scan exactly once, in order.\<close>

theorem distributed_scan_complete:
  assumes "wire_ok w" "exec_wf z" "scale_up_leaf_node (ZarrNode z) tc = Some (Some vs)"
    "map (\<lambda>v. try_encode w (ZarrNode v)) vs = map Some bufs"
  shows "\<exists>ws. map (try_decode w) bufs = map (Some \<circ> ZarrNode) ws \<and> length ws = tc \<and>
    list_all (\<lambda>v. snd (ze_properties v) = div_ceil (length (partitions z)) tc \<and>
      v = (shipped z)\<lparr>partitions := partitions v, ze_properties := ze_properties v\<rparr>) ws \<and>
    filter (\<lambda>s. \<not> spec_is_empty s) (concat (map partitions ws)) = filter (\<lambda>s. \<not> spec_is_empty s) (partitions z)"
proof -
  let ?g = "distribute_specs_across_tasks (partitions z) tc"
  have v: "2 \<le> length (partitions z)" "1 < tc" "vs = map (task_exec z) ?g"
    using assms(3) scale_up_eq [OF assms(2), of tc] by (auto split: if_splits)
  have g: "length ?g = tc" "\<forall>x \<in> set ?g. length x = div_ceil (length (partitions z)) tc"
    "filter (\<lambda>s. \<not> spec_is_empty s) (concat ?g) = filter (\<lambda>s. \<not> spec_is_empty s) (partitions z)"
    using distribute_correct [of "partitions z" tc] v(2) by simp_all
  have pos: "0 < div_ceil (length (partitions z)) tc" using v(1,2) by (simp add: div_ceil_def) (metis gr0I mod_eq_self_iff_div_eq_0 not_numeral_le_zero)
  have dec: "try_decode w (bufs ! i) = Some (ZarrNode (vs ! i))" if "i < length vs" for i
  proof -
    have "map (\<lambda>v. try_encode w (ZarrNode v)) vs ! i = map Some bufs ! i" using assms(4) by simp
    then have "try_encode w (ZarrNode (vs ! i)) = Some (bufs ! i)"
      using that assms(4) by (metis length_map nth_map)
    then have "try_decode w (bufs ! i) = Some (ZarrNode (shipped (vs ! i)))"
      using assms(1,2) that v(3) task_exec_wf by (intro decode_encode) auto
    then show ?thesis using that v(3) by simp
  qed
  have "length bufs = length vs" using assms(4) by (metis length_map)
  then have "map (try_decode w) bufs = map (Some \<circ> ZarrNode) vs"
    using dec by (intro nth_equalityI) simp_all
  moreover have "list_all (\<lambda>v. snd (ze_properties v) = div_ceil (length (partitions z)) tc \<and>
      v = (shipped z)\<lparr>partitions := partitions v, ze_properties := ze_properties v\<rparr>) vs"
    using g(2) pos by (auto simp: v(3) list_all_iff task_exec_def)
  moreover have "map partitions vs = ?g" by (simp add: v(3) comp_def)
  ultimately show ?thesis using g(1,3) v(3) by (intro exI [of _ vs]) simp
qed

definition demo_wire :: "(rat, rat ScalarValue + (string \<times> DataType) list,
    (rat ScalarValue + (string \<times> DataType) list) ZarrExecDto) wire" where
  "demo_wire =
     \<lparr>scalar_to_bytes = (\<lambda>v. Some (Inl v)), scalar_from_bytes = (\<lambda>b. case b of Inl v \<Rightarrow> Some v | Inr s \<Rightarrow> None),
      schema_to_bytes = (\<lambda>s. Some (Inr s)), schema_from_bytes = (\<lambda>b. case b of Inl v \<Rightarrow> None | Inr s \<Rightarrow> Some s),
      to_vec = Some, from_slice = Some\<rparr>"

lemma demo_wire_ok: "wire_ok demo_wire"
  by (simp add: wire_ok_def demo_wire_def)

definition demo_ship :: "rat ZarrExec" where
  "demo_ship =
     \<lparr>ze_schema = [(''lat'', Float64), (''temp'', Float64)], ze_path = ''store'', ze_projection = Some [1], ze_limit = Some 9,
      ze_properties = ([(''temp'', Float64)], 3), cached_remote = None, coord_filters = Some [(''lat'', [Range (Some (SFloat64 (Some 5))) None True False])],
      cached_virtualizarr = None, partitions = [from_outer (SelRange 0 4), from_outer (SelRange 4 8), from_outer (SelRange 8 9)],
      ze_stream_budget_bytes = Some 4096, store_meta = None, store_kind = ZarrKind\<rparr>"

lemma demo_ship_wf: "exec_wf demo_ship"
  by (simp add: exec_wf_def demo_ship_def build_properties_def build_exec_projected_schema_def)

abbreviation demo_dto :: "(rat ScalarValue + (string \<times> DataType) list) ZarrExecDto" where
  "demo_dto \<equiv> \<lparr>dto_schema = Inr [(''lat'', Float64), (''temp'', Float64)], dto_path = ''store'', dto_projection = Some [1], dto_limit = Some 9,
     dto_coord_filters = Some [(''lat'', [RangeDto (Some (Inl (SFloat64 (Some 5)))) None True False])],
     dto_partitions = [from_outer (SelRange 0 4), from_outer (SelRange 4 8), from_outer (SelRange 8 9)], dto_store_kind = ZarrKind\<rparr>"

lemmas demo_wire_simps = try_encode_def from_exec_def demo_ship_def demo_wire_def transpose_option_def convert_filters_def

theorem codec_roundtrip_witness: "try_decode demo_wire demo_dto = Some (ZarrNode (shipped demo_ship))"
  by (rule codec_roundtrip [OF demo_wire_ok demo_ship_wf]) (simp add: demo_wire_simps)

theorem distributed_scan_complete_witness:
  "\<exists>bufs ws. map (try_decode demo_wire) bufs = map (Some \<circ> ZarrNode) ws \<and> length ws = 2 \<and>
    list_all (\<lambda>v. snd (ze_properties v) = 2 \<and>
      v = (shipped demo_ship)\<lparr>partitions := partitions v, ze_properties := ze_properties v\<rparr>) ws \<and>
    filter (\<lambda>s. \<not> spec_is_empty s) (concat (map partitions ws)) =
      [from_outer (SelRange 0 4), from_outer (SelRange 4 8), from_outer (SelRange 8 9)]"
proof -
  let ?g = "distribute_specs_across_tasks (partitions demo_ship) 2"
  have vs: "scale_up_leaf_node (ZarrNode demo_ship) 2 = Some (Some (map (task_exec demo_ship) ?g))"
    using scale_up_eq [OF demo_ship_wf, of 2] by (simp add: demo_ship_def)
  have "try_encode demo_wire (ZarrNode (task_exec demo_ship ps)) = Some (demo_dto\<lparr>dto_partitions := ps\<rparr>)" for ps
    by (simp add: demo_wire_simps task_exec_def shipped_def)
  then have bufs: "map (\<lambda>v. try_encode demo_wire (ZarrNode v)) (map (task_exec demo_ship) ?g) =
      map Some (map (\<lambda>ps. demo_dto\<lparr>dto_partitions := ps\<rparr>) ?g)" by simp
  have "div_ceil (length (partitions demo_ship)) 2 = 2" by (simp add: demo_ship_def div_ceil_def)
  moreover have "filter (\<lambda>s. \<not> spec_is_empty s) (partitions demo_ship) =
      [from_outer (SelRange 0 4), from_outer (SelRange 4 8), from_outer (SelRange 8 9)]"
    by (simp add: demo_ship_def spec_is_empty_def from_outer_def sel_is_empty_def u64_def)
  ultimately show ?thesis using distributed_scan_complete [OF demo_wire_ok demo_ship_wf vs bufs] by fastforce
qed

text \<open>The memory budget a rule stamped on a scan does not reach the workers: they fall back to the default.\<close>

lemma workers_lose_the_budget:
  "ze_stream_budget_bytes demo_ship = Some 4096"
  "try_decode demo_wire demo_dto = Some (ZarrNode z) \<Longrightarrow> ze_stream_budget_bytes z = None"
  using decode_encode [OF demo_wire_ok demo_ship_wf, of demo_dto]
  by (auto simp: demo_wire_simps shipped_def)

end
