(* ===== verification/Schema.thy ===== *)
theory Schema
  imports Coord_Values Cf_Time "HOL-Library.List_Lexorder" "HOL-Library.Char_ord" "HOL-Library.Multiset"
begin

text \<open>
  The schema of a table from the metadata of a store (\<open>src/reader/schema_inference.rs\<close>, \<open>src/reader/dtype.rs\<close>): data
  types, the metadata documents of Zarr versions 2 and 3, consolidated metadata, statistics and the order of
  the coordinates.  The lemmas show that the metadata is well formed, that the key type of a coordinate holds
  its positions and that the order of the coordinates is the dimension order of a variable whenever the
  shape of one is a permutation of their sizes.
\<close>

section \<open>Data types\<close>

definition contains_str :: "string \<Rightarrow> string \<Rightarrow> bool" where
  "contains_str s pat \<longleftrightarrow> split_once pat s \<noteq> None"

definition is_digit :: "char \<Rightarrow> bool" where
  "is_digit c \<longleftrightarrow> 48 \<le> (of_char c :: nat) \<and> (of_char c :: nat) \<le> 57"

text \<open>\<open>str::parse::<u32>\<close>: an optional plus sign and digits, in range.\<close>

definition parse_u32 :: "string \<Rightarrow> nat option" where
  "parse_u32 s =
     (let ds = (case s of [] \<Rightarrow> [] | c # cs \<Rightarrow> if c = CHR ''+'' then cs else s);
          n = foldl (\<lambda>acc c. acc * 10 + ((of_char c :: nat) - 48)) 0 ds
      in if ds \<noteq> [] \<and> list_all is_digit ds \<and> n < 2 ^ 32 then Some n else None)"

text \<open>Type names are ASCII.\<close>

definition v2_type_name :: "char \<Rightarrow> nat \<Rightarrow> string" where
  "v2_type_name type_char nbytes =
     (if type_char = CHR ''i'' then
        (if nbytes = 1 then ''int8'' else if nbytes = 2 then ''int16'' else if nbytes = 4 then ''int32'' else ''int64'')
      else if type_char = CHR ''u'' then
        (if nbytes = 1 then ''uint8'' else if nbytes = 2 then ''uint16'' else if nbytes = 4 then ''uint32'' else ''uint64'')
      else if type_char = CHR ''f'' then
        (if nbytes = 2 then ''float16'' else if nbytes = 4 then ''float32'' else ''float64'')
      else if type_char = CHR ''b'' then ''bool''
      else ''float64'')"

definition parse_v2_dtype :: "string \<Rightarrow> string" where
  "parse_v2_dtype dtype =
     (if contains_str dtype ''M8'' \<or> contains_str dtype ''m8'' then ''int64''
      else if length dtype < 2 then ''float64''
      else
        let prefixed = (dtype ! 0 \<in> {CHR ''<'', CHR ''>'', CHR ''|''}) in
        if prefixed \<and> length dtype < 3 then ''float64''
        else
          let (type_char, size_str) = (if prefixed then (dtype ! 1, drop 2 dtype) else (dtype ! 0, drop 1 dtype));
              size_only = takeWhile (\<lambda>c. c \<noteq> CHR ''['') size_str;
              size' = unwrap_or (parse_u32 size_only) 8
          in v2_type_name type_char size')"

definition zarr_dtype_to_arrow :: "string \<Rightarrow> DataType" where
  "zarr_dtype_to_arrow dtype =
     (if dtype = ''int8'' then Int8 else if dtype = ''int16'' then Int16 else if dtype = ''int32'' then Int32
      else if dtype = ''int64'' then Int64 else if dtype = ''uint8'' then UInt8 else if dtype = ''uint16'' then UInt16
      else if dtype = ''uint32'' then UInt32 else if dtype = ''uint64'' then UInt64 else if dtype = ''float16'' then Float16
      else if dtype = ''float32'' then Float32 else if dtype = ''float64'' then Float64 else if dtype = ''bool'' then BooleanT
      else OtherType ''Utf8'')"

definition dictionary_key_type_for_cardinality :: "nat \<Rightarrow> DataType" where
  "dictionary_key_type_for_cardinality cardinality =
     (if cardinality \<le> (2 ^ 15 - 1) + 1 then Int16 else if cardinality \<le> (2 ^ 31 - 1) + 1 then Int32 else Int64)"

definition zarr_dtype_to_arrow_dictionary :: "string \<Rightarrow> nat \<Rightarrow> DataType" where
  "zarr_dtype_to_arrow_dictionary dtype cardinality =
     Dictionary (dictionary_key_type_for_cardinality cardinality) (zarr_dtype_to_arrow dtype)"

definition coord_type :: "'f ZarrArrayMeta \<Rightarrow> DataType" where
  "coord_type c =
     (let cardinality = unwrap_or (first_opt (shape c)) 0 in
      if (case cf_time_attrs c of None \<Rightarrow> False | Some a \<Rightarrow> is_time_coordinate a)
      then Dictionary (dictionary_key_type_for_cardinality cardinality) Timestamp
      else zarr_dtype_to_arrow_dictionary (data_type c) cardinality)"

text \<open>A field is its name, type and nullability.\<close>

definition build_schema_from_store_meta :: "'f ZarrStoreMeta \<Rightarrow> (string \<times> DataType \<times> bool) list" where
  "build_schema_from_store_meta meta =
     map (\<lambda>c. (meta_name c, coord_type c, False)) (coords meta) @
     map (\<lambda>v. (meta_name v, zarr_dtype_to_arrow (data_type v), True)) (data_vars meta)"

section \<open>Metadata documents\<close>

text \<open>The values of serde; \<open>JFloat\<close> is any number that is not an integer.\<close>

datatype json =
    JNull
  | JBool bool
  | JU64 nat
  | JI64 int
  | JFloat
  | JString string
  | JArray "json list"
  | JObject "(string \<times> json) list"

fun json_get :: "json \<Rightarrow> string \<Rightarrow> json option" where
  "json_get (JObject m) k = map_of m k"
| "json_get j k = None"

fun as_u64 :: "json \<Rightarrow> nat option" where
  "as_u64 (JU64 n) = Some n"
| "as_u64 j = None"

fun as_str :: "json \<Rightarrow> string option" where
  "as_str (JString s) = Some s"
| "as_str j = None"

fun as_array :: "json \<Rightarrow> json list option" where
  "as_array (JArray xs) = Some xs"
| "as_array j = None"

fun as_object :: "json \<Rightarrow> (string \<times> json) list option" where
  "as_object (JObject m) = Some m"
| "as_object j = None"

datatype DiscoveryError = IoError string | JsonError string | MissingMetadata | MetadataNotObject | NoArrays | UnknownVersion
  | StoreFailure string

definition parse_cf_time_from_attrs :: "json \<Rightarrow> CFTimeAttrs option" where
  "parse_cf_time_from_attrs attrs =
     Option.bind (Option.bind (json_get attrs ''units'') as_str) (\<lambda>u.
     if \<not> contains_str u '' since '' then None
     else Some (cf_attrs_new u (Option.bind (json_get attrs ''calendar'') as_str)))"

definition infer_nanosecond_epoch_from_raw_dtype :: "string \<Rightarrow> CFTimeAttrs option" where
  "infer_nanosecond_epoch_from_raw_dtype raw_dtype =
     (if \<not> (contains_str raw_dtype ''M8[ns]'' \<or> contains_str raw_dtype ''datetime64[ns]'') then None
      else Some nanoseconds_since_epoch)"

definition parse_array_dimensions :: "json \<Rightarrow> string list option" where
  "parse_array_dimensions attrs =
     map_option (List.map_filter as_str) (Option.bind (json_get attrs ''_ARRAY_DIMENSIONS'') as_array)"

definition parse_v3_dimension_names :: "json \<Rightarrow> string list option" where
  "parse_v3_dimension_names zarr_json =
     Option.bind (Option.bind (json_get zarr_json ''dimension_names'') as_array) (\<lambda>arr.
     Option.bind (collect_options (map as_str arr)) (\<lambda>names. if names \<noteq> [] then Some names else None))"

definition or_else :: "'a option \<Rightarrow> 'a option \<Rightarrow> 'a option" where
  "or_else a b = (case a of None \<Rightarrow> b | Some x \<Rightarrow> Some x)"

definition u64_array :: "json option \<Rightarrow> nat list option" where
  "u64_array j = map_option (List.map_filter as_u64) (Option.bind j as_array)"

text \<open>An array of version 2, from its \<open>.zarray\<close> document and its attributes, if they could be read.\<close>

definition v2_array :: "string \<Rightarrow> json \<Rightarrow> json option \<Rightarrow> 'f ZarrArrayMeta" where
  "v2_array name value zattrs =
     (let dtype_raw = unwrap_or (Option.bind (json_get value ''dtype'') as_str) ''<f8'' in
      \<lparr>meta_name = name, data_type = parse_v2_dtype dtype_raw, shape = unwrap_or (u64_array (json_get value ''shape'')) [],
       chunks = u64_array (json_get value ''chunks''), coord_min_max = None,
       cf_time_attrs = or_else (Option.bind zattrs parse_cf_time_from_attrs) (infer_nanosecond_epoch_from_raw_dtype dtype_raw),
       dimensions = Option.bind zattrs parse_array_dimensions\<rparr>)"

text \<open>An array of version 3, from its \<open>zarr.json\<close> document; \<open>None\<close> for a group.\<close>

definition v3_array :: "string \<Rightarrow> json \<Rightarrow> 'f ZarrArrayMeta option" where
  "v3_array name meta =
     (if Option.bind (json_get meta ''node_type'') as_str \<noteq> Some ''array'' then None
      else
        let dtype_raw = unwrap_or (Option.bind (json_get meta ''data_type'') as_str) ''float64'';
            grid = Option.bind (Option.bind (json_get meta ''chunk_grid'') (\<lambda>v. json_get v ''configuration''))
              (\<lambda>v. json_get v ''chunk_shape'');
            attrs = json_get meta ''attributes''
        in Some \<lparr>meta_name = name, data_type = dtype_raw, shape = unwrap_or (u64_array (json_get meta ''shape'')) [],
             chunks = u64_array grid, coord_min_max = None,
             cf_time_attrs = or_else (Option.bind attrs parse_cf_time_from_attrs) (infer_nanosecond_epoch_from_raw_dtype dtype_raw),
             dimensions = or_else (Option.bind attrs parse_array_dimensions) (parse_v3_dimension_names meta)\<rparr>)"

definition ends_with :: "string \<Rightarrow> string \<Rightarrow> bool" where
  "ends_with s suffix \<longleftrightarrow> length suffix \<le> length s \<and> drop (length s - length suffix) s = suffix"

function trim_end_matches :: "string \<Rightarrow> string \<Rightarrow> string" where
  "trim_end_matches s pat =
     (if pat \<noteq> [] \<and> ends_with s pat then trim_end_matches (take (length s - length pat) s) pat else s)"
  by auto
termination
proof (relation "measure (length \<circ> fst)")
  fix s pat :: string assume a: "pat \<noteq> [] \<and> ends_with s pat"
  then have "0 < length pat" "length pat \<le> length s" by (simp_all add: ends_with_def)
  then show "((take (length s - length pat) s, pat), s, pat) \<in> measure (length \<circ> fst)"
    by (simp del: length_greater_0_conv)
qed simp

declare trim_end_matches.simps [simp del]

text \<open>The arrays of consolidated metadata.\<close>

definition consolidated_arrays :: "json \<Rightarrow> DiscoveryError + 'f ZarrArrayMeta list" where
  "consolidated_arrays meta =
     (case json_get meta ''metadata'' of
        None \<Rightarrow> Inl MissingMetadata
      | Some metadata \<Rightarrow>
          (case as_object metadata of
             None \<Rightarrow> Inl MetadataNotObject
           | Some entries \<Rightarrow>
               Inr (List.map_filter (\<lambda>(key, value).
                 if ends_with key ''/.zarray''
                 then let name = trim_end_matches key ''/.zarray''
                      in Some (v2_array name value (json_get metadata (name @ ''/.zattrs'')))
                 else None) entries)))"

section \<open>The order of the coordinates\<close>

definition sort_by_name :: "'f ZarrArrayMeta list \<Rightarrow> 'f ZarrArrayMeta list" where
  "sort_by_name = sort_key meta_name"

text \<open>The inner loop: the first unused coordinate of the size.\<close>

fun find_unused :: "nat \<Rightarrow> bool list \<Rightarrow> 'f ZarrArrayMeta list \<Rightarrow> nat option" where
  "find_unused d (u # us) (c # cs) =
     (if \<not> u \<and> first_opt (shape c) = Some d then Some 0 else map_option Suc (find_unused d us cs))"
| "find_unused d us cs = None"

fun match_dims :: "nat list \<Rightarrow> bool list \<Rightarrow> 'f ZarrArrayMeta list \<Rightarrow> 'f ZarrArrayMeta list option" where
  "match_dims [] used cs = Some []"
| "match_dims (d # ds) used cs =
     (case find_unused d used cs of
        None \<Rightarrow> None
      | Some j \<Rightarrow> map_option ((#) (cs ! j)) (match_dims ds (used[j := True]) cs))"

fun first_match :: "'f ZarrArrayMeta list \<Rightarrow> 'f ZarrArrayMeta list \<Rightarrow> 'f ZarrArrayMeta list option" where
  "first_match cs [] = None"
| "first_match cs (v # vs) =
     (if length (shape v) \<noteq> length cs then first_match cs vs
      else case match_dims (shape v) (replicate (length cs) False) cs of
        Some ordered \<Rightarrow> if length ordered = length cs then Some ordered else first_match cs vs
      | None \<Rightarrow> first_match cs vs)"

definition infer_coord_order_from_data_vars :: "'f ZarrArrayMeta list \<Rightarrow> 'f ZarrArrayMeta list \<Rightarrow> 'f ZarrArrayMeta list" where
  "infer_coord_order_from_data_vars cs vs =
     (if cs = [] \<or> vs = [] then sort_by_name cs
      else case first_match cs vs of Some ordered \<Rightarrow> ordered | None \<Rightarrow> sort_by_name cs)"

section \<open>Statistics of a coordinate\<close>

text \<open>
  Reading a whole one-dimensional array with an element type of 64-bit or 32-bit floats, or of integers of a
  named type; \<open>None\<close> is any failure.  The fold of the program starts from infinity, which is neutral.
\<close>

record 'f coord_reader =
  read_floats :: "string \<Rightarrow> string \<Rightarrow> 'f list option"
  read_ints :: "string \<Rightarrow> string \<Rightarrow> int list option"

definition min_max :: "('a :: linorder) list \<Rightarrow> ('a \<times> 'a) option" where
  "min_max xs = (case xs of [] \<Rightarrow> None | x # xs \<Rightarrow> Some (fold min xs x, fold max xs x))"

text \<open>The extremes of the values as they are stored, for CF time coordinates too.\<close>

definition compute_coord_min_max :: "('f :: linorder) F64 \<Rightarrow> 'f coord_reader \<Rightarrow> string \<Rightarrow> string \<Rightarrow> ('f \<times> 'f) option" where
  "compute_coord_min_max fl rd name dtype =
     (if dtype \<in> {''float64'', ''float32''} then Option.bind (read_floats rd name dtype) min_max
      else if dtype \<in> {''int64'', ''int32'', ''int16'', ''uint64'', ''uint32''}
      then map_option (\<lambda>(a, b). (f_of_int fl a, f_of_int fl b)) (Option.bind (read_ints rd name dtype) min_max)
      else None)"

section \<open>Separating coordinates and variables\<close>

text \<open>\<open>usize\<close> product of the sizes of the coordinates.\<close>

definition count_rows :: "'f ZarrArrayMeta list \<Rightarrow> nat" where
  "count_rows cs = foldl (\<lambda>acc c. u64 (acc * hd (shape c))) 1 cs"

definition set_min_max :: "('f :: linorder) F64 \<Rightarrow> 'f coord_reader \<Rightarrow> 'f ZarrArrayMeta \<Rightarrow> 'f ZarrArrayMeta" where
  "set_min_max fl rd c =
     (case compute_coord_min_max fl rd (meta_name c) (data_type c) of
        None \<Rightarrow> c | Some mm \<Rightarrow> c\<lparr>coord_min_max := Some mm\<rparr>)"

definition separate_and_sort_arrays :: "('f :: linorder) F64 \<Rightarrow> 'f coord_reader \<Rightarrow> 'f ZarrArrayMeta list \<Rightarrow> 'f ZarrStoreMeta" where
  "separate_and_sort_arrays fl rd arrays =
     (let (cs, vs) = List.partition is_coordinate arrays;
          vs = sort_by_name vs;
          cs = map (set_min_max fl rd) (infer_coord_order_from_data_vars cs vs)
      in \<lparr>coords = cs, data_vars = vs, total_rows = count_rows cs\<rparr>)"

definition separate_and_sort_arrays_no_stats :: "'f ZarrArrayMeta list \<Rightarrow> 'f ZarrStoreMeta" where
  "separate_and_sort_arrays_no_stats arrays =
     (let (cs, vs) = List.partition is_coordinate (filter (\<lambda>a. \<not> is_scalar a) arrays);
          vs = sort_by_name vs;
          cs = infer_coord_order_from_data_vars cs vs
      in \<lparr>coords = cs, data_vars = vs, total_rows = count_rows cs\<rparr>)"

definition separate_and_sort_arrays_async :: "'f ZarrArrayMeta list \<Rightarrow> 'f ZarrStoreMeta" where
  "separate_and_sort_arrays_async arrays =
     (let (cs, vs) = List.partition is_coordinate (filter (\<lambda>a. \<not> is_scalar a) arrays);
          vs = sort_by_name vs;
          cs = infer_coord_order_from_data_vars cs vs
      in \<lparr>coords = cs, data_vars = vs, total_rows = count_rows cs\<rparr>)"

section \<open>The order of the coordinates is a dimension order\<close>

abbreviation size_of :: "'f ZarrArrayMeta \<Rightarrow> nat option" where
  "size_of c \<equiv> first_opt (shape c)"

definition axis_len :: "'f ZarrArrayMeta \<Rightarrow> nat" where
  "axis_len c = hd (shape c)"

definition unused :: "bool list \<Rightarrow> 'a list \<Rightarrow> 'a list" where
  "unused used cs = map snd (filter (\<lambda>(u, c). \<not> u) (zip used cs))"

lemma unused_Cons [simp]: "unused (u # us) (c # cs) = (if u then unused us cs else c # unused us cs)"
  by (simp add: unused_def)

lemma unused_Nil [simp]: "unused us [] = []" "unused [] cs = []"
  by (simp_all add: unused_def)

lemma unused_none [simp]: "unused (replicate (length cs) False) cs = cs"
  by (induction cs) simp_all

text \<open>Marking the coordinate that was found takes the first one of its size out of the unused ones.\<close>

lemma find_unused_Some:
  "find_unused d used cs = Some j \<Longrightarrow> length used = length cs \<Longrightarrow>
    j < length cs \<and> size_of (cs ! j) = Some d \<and> mset (unused used cs) = add_mset (cs ! j) (mset (unused (used[j := True]) cs)) \<and>
    (\<forall>n. filter (\<lambda>c. size_of c = Some n) (unused used cs) =
      (if n = d then [cs ! j] else []) @ filter (\<lambda>c. size_of c = Some n) (unused (used[j := True]) cs))"
proof (induction d used cs arbitrary: j rule: find_unused.induct)
  case (1 d u us c cs)
  show ?case
  proof (cases "\<not> u \<and> size_of c = Some d")
    case True
    then show ?thesis using 1 by auto
  next
    case False
    then obtain i where i: "find_unused d us cs = Some i" "j = Suc i" using 1(2) by auto
    have "length us = length cs" using 1(3) by simp
    note IH = 1(1) [OF False i(1) this]
    show ?thesis using IH i(2) False by auto
  qed
qed simp_all

lemma find_unused_None:
  "find_unused d used cs = None \<Longrightarrow> length used = length cs \<Longrightarrow> Some d \<notin> set (map size_of (unused used cs))"
  by (induction d used cs rule: find_unused.induct) (auto split: if_splits)

text \<open>A match uses, for every size, the first coordinates of that size in their order.\<close>

lemma match_dims_Some:
  "match_dims ds used cs = Some out \<Longrightarrow> length used = length cs \<Longrightarrow>
    map size_of out = map Some ds \<and> mset out \<subseteq># mset (unused used cs) \<and>
    (\<forall>n. \<exists>rest. filter (\<lambda>c. size_of c = Some n) (unused used cs) = filter (\<lambda>c. size_of c = Some n) out @ rest)"
proof (induction ds used cs arbitrary: out rule: match_dims.induct)
  case (2 d ds used cs)
  then obtain j out' where j: "find_unused d used cs = Some j" "match_dims ds (used[j := True]) cs = Some out'" "out = cs ! j # out'"
    by (auto split: option.splits)
  have f: "j < length cs" "size_of (cs ! j) = Some d"
      "mset (unused used cs) = add_mset (cs ! j) (mset (unused (used[j := True]) cs))"
      "filter (\<lambda>c. size_of c = Some n) (unused used cs) =
        (if n = d then [cs ! j] else []) @ filter (\<lambda>c. size_of c = Some n) (unused (used[j := True]) cs)" for n
    using find_unused_Some [OF j(1) 2(3)] by auto
  have "length (used[j := True]) = length cs" using 2(3) by simp
  note IH = 2(1) [OF j(1,2) this]
  then show ?case using f(2,3) j(3) by (auto simp: f(4))
qed auto

lemma match_dims_complete:
  "length used = length cs \<Longrightarrow> image_mset Some (mset ds) \<subseteq># image_mset size_of (mset (unused used cs)) \<Longrightarrow>
    match_dims ds used cs \<noteq> None"
proof (induction ds used cs rule: match_dims.induct)
  case (2 d ds used cs)
  have "Some d \<in># image_mset size_of (mset (unused used cs))" using 2(3) by (auto simp: insert_subset_eq_iff)
  then have "find_unused d used cs \<noteq> None" using find_unused_None [OF _ 2(2)] by force
  then obtain j where j: "find_unused d used cs = Some j" by auto
  have f: "size_of (cs ! j) = Some d" "mset (unused used cs) = add_mset (cs ! j) (mset (unused (used[j := True]) cs))"
    using find_unused_Some [OF j 2(2)] by auto
  have "length (used[j := True]) = length cs" using 2(2) by simp
  moreover have "image_mset Some (mset ds) \<subseteq># image_mset size_of (mset (unused (used[j := True]) cs))"
    using 2(3) f by simp
  ultimately show ?case using 2(1) [OF j] j by auto
qed simp

lemma sizes_of_coords:
  "list_all is_coordinate cs \<Longrightarrow> map size_of cs = map (Some \<circ> axis_len) cs"
  by (auto simp: list_all_iff is_coordinate_def first_opt_def axis_len_def split: list.split)

text \<open>A variable is matched exactly if its shape is a permutation of the sizes.\<close>

lemma msubset_size_eq: "A \<subseteq># B \<Longrightarrow> size A = size B \<Longrightarrow> A = B"
  by (metis less_irrefl mset_subset_size subset_mset.le_neq_trans)

lemma match_dims_iff:
  assumes "list_all is_coordinate cs" "length ds = length cs"
  shows "match_dims ds (replicate (length cs) False) cs \<noteq> None \<longleftrightarrow> mset ds = mset (map axis_len cs)"
proof -
  have sz: "image_mset size_of (mset cs) = image_mset Some (mset (map axis_len cs))"
    using arg_cong [OF sizes_of_coords [OF assms(1)], of mset] by (simp add: multiset.map_comp comp_def)
  show ?thesis
  proof
    assume "mset ds = mset (map axis_len cs)"
    then have "image_mset Some (mset ds) \<subseteq># image_mset size_of (mset (unused (replicate (length cs) False) cs))"
      using sz by simp
    then show "match_dims ds (replicate (length cs) False) cs \<noteq> None" by (intro match_dims_complete) simp_all
  next
    assume "match_dims ds (replicate (length cs) False) cs \<noteq> None"
    then obtain out where "match_dims ds (replicate (length cs) False) cs = Some out" by auto
    then have o: "map size_of out = map Some ds" "mset out \<subseteq># mset cs" using match_dims_Some by fastforce+
    have "length out = length cs" using o(1) assms(2) by (metis length_map)
    then have "mset out = mset cs" using o(2) by (intro msubset_size_eq) simp_all
    then have "image_mset Some (mset ds) = image_mset Some (mset (map axis_len cs))"
      using sz arg_cong [OF o(1), of mset] by simp
    then show "mset ds = mset (map axis_len cs)" by (rule multiset.inj_map_strong [rotated]) simp
  qed
qed

definition dimension_order :: "'f ZarrArrayMeta list \<Rightarrow> nat list \<Rightarrow> 'f ZarrArrayMeta list \<Rightarrow> bool" where
  "dimension_order cs sizes out \<longleftrightarrow>
     map axis_len out = sizes \<and>
     (\<forall>n. filter (\<lambda>c. axis_len c = n) out = filter (\<lambda>c. axis_len c = n) cs)"

lemma match_dims_order:
  assumes "list_all is_coordinate cs" "length ds = length cs" "match_dims ds (replicate (length cs) False) cs = Some out"
  shows "mset out = mset cs" "dimension_order cs ds out"
proof -
  have o: "map size_of out = map Some ds" "mset out \<subseteq># mset cs"
      "\<exists>rest. filter (\<lambda>c. size_of c = Some n) cs = filter (\<lambda>c. size_of c = Some n) out @ rest" for n
    using match_dims_Some [OF assms(3)] by simp_all
  have len: "length out = length cs" using o(1) assms(2) by (metis length_map)
  then show ms: "mset out = mset cs" using o(2) by (intro msubset_size_eq) simp_all
  then have co: "list_all is_coordinate out" using assms(1) by (metis list_all_iff set_mset_mset)
  have "map Some (map axis_len out) = map Some ds" using o(1) sizes_of_coords [OF co] by (simp add: comp_def)
  then have "map axis_len out = ds" by (simp only: inj_map_eq_map [OF inj_Some])
  moreover have "filter (\<lambda>c. axis_len c = n) out = filter (\<lambda>c. axis_len c = n) cs" for n
  proof -
    obtain rest where r: "filter (\<lambda>c. size_of c = Some n) cs = filter (\<lambda>c. size_of c = Some n) out @ rest" using o(3) by blast
    have "mset (filter (\<lambda>c. size_of c = Some n) out) = mset (filter (\<lambda>c. size_of c = Some n) cs)" using ms by simp
    then have "rest = []" using r by simp
    moreover have "filter (\<lambda>c. size_of c = Some n) xs = filter (\<lambda>c. axis_len c = n) xs"
      if "list_all is_coordinate xs" for xs :: "'a ZarrArrayMeta list"
      using that by (intro filter_cong) (auto simp: list_all_iff is_coordinate_def first_opt_def axis_len_def split: list.split)
    ultimately show ?thesis using r assms(1) co by simp
  qed
  ultimately show "dimension_order cs ds out" by (simp add: dimension_order_def)
qed

lemma first_match_eq:
  assumes "list_all is_coordinate cs"
  shows "case find (\<lambda>v. mset (shape v) = mset (map axis_len cs)) vs of
      Some v \<Rightarrow> \<exists>out. first_match cs vs = Some out \<and> mset out = mset cs \<and> dimension_order cs (shape v) out
    | None \<Rightarrow> first_match cs vs = None"
proof (induction vs)
  case (Cons v vs)
  let ?m = "match_dims (shape v) (replicate (length cs) False) cs"
  show ?case
  proof (cases "mset (shape v) = mset (map axis_len cs)")
    case True
    then have len: "length (shape v) = length cs" by (metis length_map size_mset)
    then obtain out where o: "?m = Some out" using match_dims_iff [OF assms len] True by auto
    note ord = match_dims_order [OF assms len o]
    then have "length out = length cs" by (metis size_mset)
    then have "first_match cs (v # vs) = Some out" using len o by simp
    then show ?thesis using True ord by (simp add: comp_def del: first_match.simps)
  next
    case False
    have "?m = None" if "length (shape v) = length cs" using match_dims_iff [OF assms that] False by blast
    then have "first_match cs (v # vs) = first_match cs vs" by auto
    then show ?thesis using False Cons.IH by (auto split: option.splits)
  qed
qed simp

lemma sort_by_name_props [simp]:
  "mset (sort_by_name xs) = mset xs" "set (sort_by_name xs) = set xs" "sorted (map meta_name (sort_by_name xs))"
  by (simp_all add: sort_by_name_def)

lemma infer_order:
  assumes "list_all is_coordinate cs"
  shows "mset (infer_coord_order_from_data_vars cs vs) = mset cs \<and>
    (case find (\<lambda>v. mset (shape v) = mset (map axis_len cs)) vs of
       Some v \<Rightarrow> dimension_order cs (shape v) (infer_coord_order_from_data_vars cs vs)
     | None \<Rightarrow> infer_coord_order_from_data_vars cs vs = sort_by_name cs)"
proof (cases "cs = [] \<or> vs = []")
  case True
  then show ?thesis
    by (auto simp: infer_coord_order_from_data_vars_def sort_by_name_def dimension_order_def split: option.split dest!: find_Some_iff [THEN iffD1])
next
  case False
  then have "infer_coord_order_from_data_vars cs vs = (case first_match cs vs of Some out \<Rightarrow> out | None \<Rightarrow> sort_by_name cs)"
    by (simp add: infer_coord_order_from_data_vars_def)
  then show ?thesis using first_match_eq [OF assms, of vs] by (auto split: option.splits)
qed

section \<open>The metadata is well formed\<close>

definition meta_wf :: "'f ZarrStoreMeta \<Rightarrow> bool" where
  "meta_wf m \<longleftrightarrow>
     list_all is_coordinate (coords m) \<and> list_all (\<lambda>v. \<not> is_coordinate v) (data_vars m) \<and>
     sorted (map meta_name (data_vars m)) \<and> total_rows m = u64 (prod_list (map axis_len (coords m)))"

definition coord_field_ok :: "'f ZarrArrayMeta \<Rightarrow> string \<times> DataType \<times> bool \<Rightarrow> bool" where
  "coord_field_ok c = (\<lambda>(name, dt, nullable).
     name = meta_name c \<and> \<not> nullable \<and> (case dt of Dictionary kt vt \<Rightarrow> key_fits kt (axis_len c) | _ \<Rightarrow> False))"

definition var_field_ok :: "'f ZarrArrayMeta \<Rightarrow> string \<times> DataType \<times> bool \<Rightarrow> bool" where
  "var_field_ok v = (\<lambda>(name, dt, nullable). name = meta_name v \<and> nullable \<and> dt = zarr_dtype_to_arrow (data_type v))"

definition schema_of :: "(string \<times> DataType \<times> bool) list \<Rightarrow> 'f ZarrStoreMeta \<Rightarrow> bool" where
  "schema_of schema m \<longleftrightarrow>
     (\<exists>cs vs. schema = cs @ vs \<and> list_all2 coord_field_ok (coords m) cs \<and> list_all2 var_field_ok (data_vars m) vs)"

lemma key_type_fits [simp]: "key_fits (dictionary_key_type_for_cardinality n) n"
  by (simp add: key_fits_def dictionary_key_type_for_cardinality_def)

lemma coord_len: "is_coordinate c \<Longrightarrow> unwrap_or (first_opt (shape c)) 0 = axis_len c"
  by (cases "shape c") (simp_all add: is_coordinate_def first_opt_def axis_len_def unwrap_or_def)

lemma coord_type_dictionary:
  "is_coordinate c \<Longrightarrow> \<exists>vt. coord_type c = Dictionary (dictionary_key_type_for_cardinality (axis_len c)) vt"
  by (auto simp: coord_type_def coord_len zarr_dtype_to_arrow_dictionary_def Let_def)

lemma built_schema_ok:
  assumes "list_all is_coordinate (coords m)"
  shows "schema_of (build_schema_from_store_meta m) m"
proof -
  let ?cs = "map (\<lambda>c. (meta_name c, coord_type c, False)) (coords m)"
  let ?vs = "map (\<lambda>v. (meta_name v, zarr_dtype_to_arrow (data_type v), True)) (data_vars m)"
  have "coord_field_ok c (meta_name c, coord_type c, False)" if "is_coordinate c" for c :: "'a ZarrArrayMeta"
    using coord_type_dictionary [OF that] by (auto simp: coord_field_ok_def)
  then have "list_all2 coord_field_ok (coords m) ?cs"
    using assms by (auto simp: list_all2_map2 list_all_iff intro!: list.rel_refl_strong)
  moreover have "list_all2 var_field_ok (data_vars m) ?vs"
    by (auto simp: list_all2_map2 var_field_ok_def intro!: list.rel_refl_strong)
  moreover have "build_schema_from_store_meta m = ?cs @ ?vs" by (simp add: build_schema_from_store_meta_def)
  ultimately show ?thesis unfolding schema_of_def by blast
qed

lemma count_rows_eq: "count_rows cs = u64 (prod_list (map axis_len cs))"
proof -
  have "foldl (\<lambda>acc c. u64 (acc * axis_len c)) k cs = u64 (k * prod_list (map axis_len cs))" if "k < 2 ^ 64" for k
    using that
  proof (induction cs arbitrary: k)
    case (Cons c cs)
    have "u64 (k * axis_len c) < 2 ^ 64" by (simp add: u64_def)
    from Cons.IH [OF this] show ?case by (simp add: u64_def mod_mult_left_eq mult.assoc)
  qed (simp add: u64_def)
  from this [of 1] show ?thesis by (simp add: count_rows_def axis_len_def)
qed

lemma separated:
  "coords (separate_and_sort_arrays_async arrays) =
    infer_coord_order_from_data_vars (filter is_coordinate arrays) (data_vars (separate_and_sort_arrays_async arrays))"
  "data_vars (separate_and_sort_arrays_async arrays) =
    sort_by_name (filter (\<lambda>a. \<not> is_coordinate a \<and> \<not> is_scalar a) arrays)"
  by (auto simp: separate_and_sort_arrays_async_def Let_def partition_filter_conv is_coordinate_def is_scalar_def
      intro!: arg_cong [where f = "\<lambda>cs. infer_coord_order_from_data_vars cs _"] arg_cong [where f = sort_by_name] filter_cong)

lemma no_stats_eq_async: "separate_and_sort_arrays_no_stats = separate_and_sort_arrays_async"
  by (simp add: fun_eq_iff separate_and_sort_arrays_no_stats_def separate_and_sort_arrays_async_def)

lemma infer_order_set:
  "list_all is_coordinate cs \<Longrightarrow> set (infer_coord_order_from_data_vars cs vs) = set cs"
  using infer_order [of cs vs] by (metis set_mset_mset)

lemma filter_coordinates [simp]: "list_all is_coordinate (filter is_coordinate arrays)"
  by (simp add: list_all_iff)

lemma separate_async_wf: "meta_wf (separate_and_sort_arrays_async arrays)"
proof -
  let ?m = "separate_and_sort_arrays_async arrays"
  have "total_rows ?m = count_rows (coords ?m)"
    by (simp add: separate_and_sort_arrays_async_def Let_def split: prod.split)
  then show ?thesis
    by (simp add: meta_wf_def count_rows_eq separated infer_order_set list_all_iff)
qed

text \<open>The local discovery keeps scalars among the variables and has the statistics of the coordinates.\<close>

definition strip :: "'f ZarrStoreMeta \<Rightarrow> 'f ZarrStoreMeta" where
  "strip m = m\<lparr>coords := map (coord_min_max_update (\<lambda>_. None)) (coords m), data_vars := filter (\<lambda>v. \<not> is_scalar v) (data_vars m)\<rparr>"

lemma set_min_max_simps [simp]:
  "(set_min_max fl rd c)\<lparr>coord_min_max := None\<rparr> = c\<lparr>coord_min_max := None\<rparr>" "axis_len (set_min_max fl rd c) = axis_len c"
  "is_coordinate (set_min_max fl rd c) = is_coordinate c" "meta_name (set_min_max fl rd c) = meta_name c"
  "data_type (set_min_max fl rd c) = data_type c" "shape (set_min_max fl rd c) = shape c"
  by (auto simp: set_min_max_def axis_len_def is_coordinate_def split: option.split)

lemma first_match_scalars:
  "cs \<noteq> [] \<Longrightarrow> first_match cs (filter (\<lambda>v. \<not> is_scalar v) vs) = first_match cs vs"
  by (induction vs) (auto simp: is_scalar_def split: option.split)

lemma infer_order_scalars:
  "infer_coord_order_from_data_vars cs (filter (\<lambda>v. \<not> is_scalar v) vs) = infer_coord_order_from_data_vars cs vs"
proof (cases "cs = []")
  case False
  have "first_match cs vs = None" if "filter (\<lambda>v. \<not> is_scalar v) vs = []"
    using first_match_scalars [OF False, of vs] that by simp
  then show ?thesis using False by (auto simp: infer_coord_order_from_data_vars_def first_match_scalars)
qed (simp add: infer_coord_order_from_data_vars_def)

lemma separate_local:
  "coords (separate_and_sort_arrays fl rd arrays) =
    map (set_min_max fl rd) (infer_coord_order_from_data_vars (filter is_coordinate arrays)
      (data_vars (separate_and_sort_arrays fl rd arrays)))"
  "data_vars (separate_and_sort_arrays fl rd arrays) = sort_by_name (filter (\<lambda>a. \<not> is_coordinate a) arrays)"
  "total_rows (separate_and_sort_arrays fl rd arrays) = count_rows (coords (separate_and_sort_arrays fl rd arrays))"
  by (simp_all add: separate_and_sort_arrays_def Let_def partition_filter_conv comp_def)

lemma separate_local_wf: "meta_wf (separate_and_sort_arrays fl rd arrays)"
  by (simp add: meta_wf_def separate_local count_rows_eq list_all_iff infer_order_set comp_def)

lemma no_min_max: "coord_min_max c = None \<Longrightarrow> c\<lparr>coord_min_max := None\<rparr> = c"
  by (cases c) simp

lemma strip_separate:
  assumes "list_all (\<lambda>a. coord_min_max a = None) arrays"
  shows "strip (separate_and_sort_arrays fl rd arrays) = separate_and_sort_arrays_async arrays"
proof -
  let ?l = "separate_and_sort_arrays fl rd arrays" and ?r = "separate_and_sort_arrays_async arrays"
  let ?o = "infer_coord_order_from_data_vars (filter is_coordinate arrays) (data_vars ?l)"
  have vs: "filter (\<lambda>v. \<not> is_scalar v) (data_vars ?l) = data_vars ?r"
    by (simp add: separate_local separated sort_by_name_def filter_sort conj_commute)
  have "set ?o \<subseteq> set arrays" by (simp add: infer_order_set)
  then have "map (coord_min_max_update (\<lambda>_. None)) ?o = ?o"
    using assms by (intro map_idI no_min_max) (auto simp: list_all_iff)
  then have cs: "map (coord_min_max_update (\<lambda>_. None)) (coords ?l) = coords ?r"
    using infer_order_scalars [of "filter is_coordinate arrays" "data_vars ?l"]
    by (simp add: separate_local(1) separated(1) vs comp_def)
  have "total_rows ?r = count_rows (coords ?r)"
    by (simp add: separate_and_sort_arrays_async_def Let_def split: prod.split)
  moreover have "map axis_len (coords ?l) = map axis_len (coords ?r)"
    by (simp add: cs [symmetric] comp_def axis_len_def)
  ultimately have "total_rows ?l = total_rows ?r" by (simp add: separate_local(3) count_rows_eq)
  then show ?thesis using vs cs by (cases ?l, cases ?r) (simp add: strip_def)
qed

lemma strip_async [simp]:
  assumes "list_all (\<lambda>a. coord_min_max a = None) arrays"
  shows "strip (separate_and_sort_arrays_async arrays) = separate_and_sort_arrays_async arrays"
proof -
  let ?m = "separate_and_sort_arrays_async arrays"
  have "set (coords ?m) \<subseteq> set arrays" by (simp add: separated(1) infer_order_set)
  then have "map (coord_min_max_update (\<lambda>_. None)) (coords ?m) = coords ?m"
    using assms by (intro map_idI no_min_max) (auto simp: list_all_iff)
  moreover have "filter (\<lambda>v. \<not> is_scalar v) (data_vars ?m) = data_vars ?m" by (simp add: separated(2) filter_id_conv)
  ultimately show ?thesis by (simp add: strip_def)
qed

section \<open>Properties\<close>

text \<open>C9: The coordinates of a table are the one-dimensional arrays.  If the shape of a variable is a permutation of their
  sizes, their sizes are, in order, the shape of the first such variable, and coordinates of equal size stay in the order of
  discovery, whatever dimensions the variable names (\<open>listing_order_decides\<close>; the documentation says alphabetical).
  Otherwise they are sorted by name.\<close>

theorem coordinate_order_exact:
  "let m = separate_and_sort_arrays_no_stats arrays; cs = filter is_coordinate arrays in
    mset (coords m) = mset cs \<and>
    (case find (\<lambda>v. mset (shape v) = mset (map axis_len cs)) (data_vars m) of
       Some v \<Rightarrow> map axis_len (coords m) = shape v \<and>
         (\<forall>n. filter (\<lambda>c. axis_len c = n) (coords m) = filter (\<lambda>c. axis_len c = n) cs)
     | None \<Rightarrow> coords m = sort_by_name cs)"
  using infer_order [OF filter_coordinates, of arrays "data_vars (separate_and_sort_arrays_no_stats arrays)"]
  by (auto simp: Let_def no_stats_eq_async separated(1) dimension_order_def split: option.splits)

section \<open>Where discovery goes wrong\<close>

text \<open>Coordinates of one size keep the order in which the store lists them, whatever dimensions the variables name.\<close>

definition named_array :: "string \<Rightarrow> nat list \<Rightarrow> string list \<Rightarrow> rat ZarrArrayMeta" where
  "named_array name sh dims = \<lparr>meta_name = name, data_type = ''float64'', shape = sh, chunks = None, coord_min_max = None,
     cf_time_attrs = None, dimensions = Some dims\<rparr>"

lemma listing_order_decides:
  "map meta_name (coords (separate_and_sort_arrays_no_stats
     [named_array ''lon'' [2] [''lon''], named_array ''lat'' [2] [''lat''], named_array ''t'' [2, 2] [''lat'', ''lon'']])) =
   [''lon'', ''lat'']"
  by (simp add: separate_and_sort_arrays_no_stats_def named_array_def is_coordinate_def is_scalar_def
      infer_coord_order_from_data_vars_def sort_by_name_def first_opt_def Let_def)

lemma scalars_kept_locally:
  "data_vars (separate_and_sort_arrays fl rd [named_array ''crs'' [] []]) = [named_array ''crs'' [] []]"
  "data_vars (separate_and_sort_arrays_async [named_array ''crs'' [] []]) = []"
  by (simp_all add: separate_local separated named_array_def is_coordinate_def is_scalar_def sort_by_name_def)

lemma strings_become_floats:
  "parse_v2_dtype ''|S10'' = ''float64''" "parse_v2_dtype ''<U4'' = ''float64''"
  by (simp_all add: parse_v2_dtype_def contains_str_def v2_type_name_def Let_def)

end
