(* ===== verification/Discovery.thy ===== *)
theory Discovery
  imports Schema
begin

text \<open>
  Discovery of the arrays of a store (\<open>src/reader/schema_inference.rs\<close>), in a directory and in a remote key store.  The
  lemmas show that the discovered metadata and the schema built from it are well formed, and that the remote
  twin finds in a mirror of a directory what the local discovery finds in the directory.
\<close>

section \<open>Discovery in a directory\<close>

text \<open>
  A directory store: its root and its entries, with the files directly in them.  Reading the directory may
  fail as a whole or at an entry.
\<close>

record dir_entry =
  entry_name :: "string option"
  entry_is_dir :: bool
  entry_has :: "string \<Rightarrow> bool"
  entry_read :: "string \<Rightarrow> DiscoveryError + string"

record local_store =
  root_has :: "string \<Rightarrow> bool"
  root_read :: "string \<Rightarrow> DiscoveryError + string"
  root_entries :: "DiscoveryError + (DiscoveryError + dir_entry) list"
  has_parquet_refs :: bool

datatype ZarrVersion = V2 | V3

text \<open>The first entry that decides, an error before it included.\<close>

fun first_version :: "(DiscoveryError + dir_entry) list \<Rightarrow> DiscoveryError + ZarrVersion" where
  "first_version [] = Inl UnknownVersion"
| "first_version (Inl e # es) = Inl e"
| "first_version (Inr d # es) =
     (if entry_is_dir d then
        (if entry_has d ''zarr.json'' then Inr V3 else if entry_has d ''.zarray'' then Inr V2 else first_version es)
      else first_version es)"

definition detect_zarr_version :: "local_store \<Rightarrow> DiscoveryError + ZarrVersion" where
  "detect_zarr_version st =
     (if root_has st ''zarr.json'' then Inr V3
      else if root_has st ''.zgroup'' \<or> root_has st ''.zarray'' then Inr V2
      else case root_entries st of Inl e \<Rightarrow> Inl e | Inr es \<Rightarrow> first_version es)"

definition result_ok :: "'e + 'a \<Rightarrow> 'a option" where
  "result_ok r = (case r of Inl e \<Rightarrow> None | Inr x \<Rightarrow> Some x)"

text \<open>One entry of a version 2 store; attributes that cannot be read or parsed count as absent.\<close>

definition v2_entry :: "(string \<Rightarrow> DiscoveryError + json) \<Rightarrow> dir_entry \<Rightarrow> DiscoveryError + 'f ZarrArrayMeta option" where
  "v2_entry parse d =
     (if \<not> entry_is_dir d \<or> \<not> entry_has d ''.zarray'' then Inr None
      else case entry_read d ''.zarray'' of
        Inl e \<Rightarrow> Inl e
      | Inr content \<Rightarrow>
          (case parse content of
             Inl e \<Rightarrow> Inl e
           | Inr meta \<Rightarrow>
               let attrs = (if entry_has d ''.zattrs''
                     then Option.bind (result_ok (entry_read d ''.zattrs'')) (\<lambda>c. result_ok (parse c)) else None)
               in Inr (Some (v2_array (unwrap_or (entry_name d) ''unknown'') meta attrs))))"

definition v3_entry :: "(string \<Rightarrow> DiscoveryError + json) \<Rightarrow> dir_entry \<Rightarrow> DiscoveryError + 'f ZarrArrayMeta option" where
  "v3_entry parse d =
     (if \<not> entry_is_dir d \<or> \<not> entry_has d ''zarr.json'' then Inr None
      else case entry_read d ''zarr.json'' of
        Inl e \<Rightarrow> Inl e
      | Inr content \<Rightarrow>
          (case parse content of Inl e \<Rightarrow> Inl e | Inr meta \<Rightarrow> Inr (v3_array (unwrap_or (entry_name d) ''unknown'') meta)))"

definition scan_entries :: "(dir_entry \<Rightarrow> DiscoveryError + 'f ZarrArrayMeta option) \<Rightarrow> local_store \<Rightarrow>
    DiscoveryError + 'f ZarrArrayMeta list" where
  "scan_entries f st =
     (case root_entries st of
        Inl e \<Rightarrow> Inl e
      | Inr es \<Rightarrow>
          (case collect_results (map (\<lambda>r. case r of Inl e \<Rightarrow> Inl e | Inr d \<Rightarrow> f d) es) of
             Inl e \<Rightarrow> Inl e
           | Inr found \<Rightarrow> Inr (List.map_filter id found)))"

definition discover_arrays_v2 :: "('f :: linorder) F64 \<Rightarrow> 'f coord_reader \<Rightarrow> (string \<Rightarrow> DiscoveryError + json) \<Rightarrow> local_store \<Rightarrow>
    DiscoveryError + 'f ZarrStoreMeta" where
  "discover_arrays_v2 fl rd parse st =
     (case scan_entries (v2_entry parse) st of Inl e \<Rightarrow> Inl e | Inr arrays \<Rightarrow> Inr (separate_and_sort_arrays fl rd arrays))"

definition discover_arrays_v3 :: "('f :: linorder) F64 \<Rightarrow> 'f coord_reader \<Rightarrow> (string \<Rightarrow> DiscoveryError + json) \<Rightarrow> local_store \<Rightarrow>
    DiscoveryError + 'f ZarrStoreMeta" where
  "discover_arrays_v3 fl rd parse st =
     (case scan_entries (v3_entry parse) st of Inl e \<Rightarrow> Inl e | Inr arrays \<Rightarrow> Inr (separate_and_sort_arrays fl rd arrays))"

text \<open>\<open>str::replace\<close>.\<close>

lemma split_once_append: "split_once pat s = Some (a, b) \<Longrightarrow> s = a @ pat @ b"
  by (induction pat s arbitrary: a b rule: split_once.induct)
    (auto split: if_splits, metis append_take_drop_id)

function replace_all :: "string \<Rightarrow> string \<Rightarrow> string \<Rightarrow> string" where
  "replace_all pat rep s =
     (if pat = [] then s
      else case split_once pat s of None \<Rightarrow> s | Some (a, b) \<Rightarrow> a @ rep @ replace_all pat rep b)"
  by auto
termination by (relation "measure (\<lambda>(p, r, s). length s)") (auto dest!: split_once_append)

declare replace_all.simps [simp del]

text \<open>The replacement of the numbers JSON does not have, in order.\<close>

definition sanitize_json :: "string \<Rightarrow> string" where
  "sanitize_json s =
     fold (\<lambda>(p, r). replace_all p r)
       [('':NaN'', '':null''), ('': NaN'', '': null''), ('':Infinity'', '':null''), ('': Infinity'', '': null''),
        ('':-Infinity'', '':null''), ('': -Infinity'', '': null'')] s"

definition is_virtualizarr_store :: "local_store \<Rightarrow> bool" where
  "is_virtualizarr_store st \<longleftrightarrow> root_has st ''.zmetadata'' \<and> has_parquet_refs st"

definition discover_arrays_from_zmetadata :: "('f :: linorder) F64 \<Rightarrow> 'f coord_reader \<Rightarrow> (string \<Rightarrow> DiscoveryError + json) \<Rightarrow>
    local_store \<Rightarrow> DiscoveryError + 'f ZarrStoreMeta option" where
  "discover_arrays_from_zmetadata fl rd parse st =
     (if \<not> root_has st ''.zmetadata'' then Inr None
      else case root_read st ''.zmetadata'' of
        Inl e \<Rightarrow> Inl e
      | Inr content \<Rightarrow>
          (case parse (sanitize_json content) of
             Inl e \<Rightarrow> Inl e
           | Inr meta \<Rightarrow>
               (case consolidated_arrays meta of
                  Inl e \<Rightarrow> Inl e
                | Inr arrays \<Rightarrow>
                    if arrays = [] then Inr None
                    else if is_virtualizarr_store st then Inr (Some (separate_and_sort_arrays_no_stats arrays))
                    else Inr (Some (separate_and_sort_arrays fl rd arrays)))))"

definition discover_arrays :: "('f :: linorder) F64 \<Rightarrow> 'f coord_reader \<Rightarrow> (string \<Rightarrow> DiscoveryError + json) \<Rightarrow> local_store \<Rightarrow>
    DiscoveryError + 'f ZarrStoreMeta" where
  "discover_arrays fl rd parse st =
     (case discover_arrays_from_zmetadata fl rd parse st of
        Inl e \<Rightarrow> Inl e
      | Inr (Some meta) \<Rightarrow> Inr meta
      | Inr None \<Rightarrow>
          (case detect_zarr_version st of
             Inl e \<Rightarrow> Inl e
           | Inr V2 \<Rightarrow> discover_arrays_v2 fl rd parse st
           | Inr V3 \<Rightarrow> discover_arrays_v3 fl rd parse st))"

definition infer_schema_with_meta :: "('f :: linorder) F64 \<Rightarrow> 'f coord_reader \<Rightarrow> (string \<Rightarrow> DiscoveryError + json) \<Rightarrow> local_store \<Rightarrow>
    DiscoveryError + ((string \<times> DataType \<times> bool) list \<times> 'f ZarrStoreMeta)" where
  "infer_schema_with_meta fl rd parse st =
     (case discover_arrays fl rd parse st of
        Inl e \<Rightarrow> Inl e | Inr meta \<Rightarrow> Inr (build_schema_from_store_meta meta, meta))"

definition infer_schema :: "('f :: linorder) F64 \<Rightarrow> 'f coord_reader \<Rightarrow> (string \<Rightarrow> DiscoveryError + json) \<Rightarrow> local_store \<Rightarrow>
    DiscoveryError + (string \<times> DataType \<times> bool) list" where
  "infer_schema fl rd parse st =
     (case infer_schema_with_meta fl rd parse st of Inl e \<Rightarrow> Inl e | Inr (schema, meta) \<Rightarrow> Inr schema)"

definition discover_arrays_from_json :: "json \<Rightarrow> DiscoveryError + 'f ZarrStoreMeta option" where
  "discover_arrays_from_json meta =
     (case consolidated_arrays meta of
        Inl e \<Rightarrow> Inl e
      | Inr arrays \<Rightarrow> if arrays = [] then Inr None else Inr (Some (separate_and_sort_arrays_no_stats arrays)))"

definition infer_schema_from_zmetadata_json :: "json \<Rightarrow>
    DiscoveryError + ((string \<times> DataType \<times> bool) list \<times> 'f ZarrStoreMeta)" where
  "infer_schema_from_zmetadata_json metadata =
     (case discover_arrays_from_json metadata of
        Inl e \<Rightarrow> Inl e
      | Inr None \<Rightarrow> Inl NoArrays
      | Inr (Some meta) \<Rightarrow> Inr (build_schema_from_store_meta meta, meta))"

section \<open>Discovery in a remote store\<close>

text \<open>
  An asynchronous key store: keys and prefixes that are accepted, the bytes and the size of a key, the
  directories under a prefix.  \<open>StorageError\<close> covers the failures of the store and of UTF-8 decoding.
\<close>

record remote_store =
  valid_key :: "string \<Rightarrow> bool"
  get_bytes :: "string \<Rightarrow> DiscoveryError + nat list option"
  size_key :: "string \<Rightarrow> DiscoveryError + nat option"
  valid_prefix :: "string \<Rightarrow> bool"
  list_prefixes :: "string \<Rightarrow> DiscoveryError + string list"
  from_utf8 :: "nat list \<Rightarrow> string option"

definition store_key_exists :: "remote_store \<Rightarrow> string \<Rightarrow> bool" where
  "store_key_exists rs key \<longleftrightarrow> valid_key rs key \<and> (case size_key rs key of Inr (Some n) \<Rightarrow> True | _ \<Rightarrow> False)"

definition store_get_string :: "remote_store \<Rightarrow> string \<Rightarrow> DiscoveryError + string" where
  "store_get_string rs key =
     (if \<not> valid_key rs key then Inl (StoreFailure ''Invalid key'')
      else case get_bytes rs key of
        Inl e \<Rightarrow> Inl (StoreFailure ''Failed to read'')
      | Inr None \<Rightarrow> Inl (StoreFailure ''Key not found'')
      | Inr (Some bytes) \<Rightarrow> (case from_utf8 rs bytes of None \<Rightarrow> Inl (StoreFailure ''Invalid UTF-8'') | Some s \<Rightarrow> Inr s))"

text \<open>A key under a prefix; there is no leading slash at the root.\<close>

definition join_key :: "string \<Rightarrow> string \<Rightarrow> string" where
  "join_key prefix name = (if prefix = [] then name else trim_end_matches prefix ''/'' @ ''/'' @ name)"

definition prefix_str :: "string \<Rightarrow> string" where
  "prefix_str prefix = (if prefix = [] then [] else trim_end_matches prefix ''/'' @ ''/'')"

definition list_dir :: "remote_store \<Rightarrow> string \<Rightarrow> DiscoveryError + string list" where
  "list_dir rs prefix =
     (if \<not> valid_prefix rs (prefix_str prefix) then Inl (StoreFailure ''Invalid prefix'')
      else case list_prefixes rs (prefix_str prefix) of Inl e \<Rightarrow> Inl (StoreFailure ''Failed to list directory'') | Inr ds \<Rightarrow> Inr ds)"

fun first_version_async :: "remote_store \<Rightarrow> string list \<Rightarrow> DiscoveryError + ZarrVersion" where
  "first_version_async rs [] = Inl UnknownVersion"
| "first_version_async rs (sub # subs) =
     (let d = trim_end_matches sub ''/'' in
      if store_key_exists rs (d @ ''/zarr.json'') then Inr V3
      else if store_key_exists rs (d @ ''/.zarray'') then Inr V2
      else first_version_async rs subs)"

definition detect_zarr_version_async :: "remote_store \<Rightarrow> string \<Rightarrow> DiscoveryError + ZarrVersion" where
  "detect_zarr_version_async rs prefix =
     (let root = trim_end_matches prefix ''/'';
          join = (\<lambda>name. if root = [] then name else root @ ''/'' @ name)
      in if store_key_exists rs (join ''zarr.json'') then Inr V3
         else if store_key_exists rs (join ''.zgroup'') then Inr V2
         else case list_dir rs prefix of Inl e \<Rightarrow> Inl e | Inr subs \<Rightarrow> first_version_async rs subs)"

text \<open>\<open>rsplit('/').next()\<close>: what follows the last slash.\<close>

definition last_component :: "string \<Rightarrow> string" where
  "last_component s = rev (takeWhile (\<lambda>c. c \<noteq> CHR ''/'') (rev s))"

definition v2_entry_async :: "(string \<Rightarrow> DiscoveryError + json) \<Rightarrow> remote_store \<Rightarrow> string \<Rightarrow>
    DiscoveryError + 'f ZarrArrayMeta option" where
  "v2_entry_async parse rs sub =
     (let d = trim_end_matches sub ''/'' in
      case store_get_string rs (d @ ''/.zarray'') of
        Inl e \<Rightarrow> Inr None
      | Inr content \<Rightarrow>
          (case parse content of
             Inl e \<Rightarrow> Inl e
           | Inr meta \<Rightarrow>
               let attrs = Option.bind (result_ok (store_get_string rs (d @ ''/.zattrs''))) (\<lambda>c. result_ok (parse c))
               in Inr (Some (v2_array (last_component (trim_end_matches d ''/'')) meta attrs))))"

definition v3_entry_async :: "(string \<Rightarrow> DiscoveryError + json) \<Rightarrow> remote_store \<Rightarrow> string \<Rightarrow> 'f ZarrArrayMeta option" where
  "v3_entry_async parse rs sub =
     (let d = trim_end_matches sub ''/'' in
      case store_get_string rs (d @ ''/zarr.json'') of
        Inl e \<Rightarrow> None
      | Inr content \<Rightarrow>
          (case parse content of
             Inl e \<Rightarrow> None
           | Inr meta \<Rightarrow> v3_array (last_component (trim_end_matches d ''/'')) meta))"

definition discover_arrays_v2_async :: "(string \<Rightarrow> DiscoveryError + json) \<Rightarrow> remote_store \<Rightarrow> string \<Rightarrow>
    DiscoveryError + 'f ZarrStoreMeta" where
  "discover_arrays_v2_async parse rs prefix =
     (case list_dir rs prefix of
        Inl e \<Rightarrow> Inl e
      | Inr subs \<Rightarrow>
          (case collect_results (map (v2_entry_async parse rs) subs) of
             Inl e \<Rightarrow> Inl e
           | Inr found \<Rightarrow> Inr (separate_and_sort_arrays_async (List.map_filter id found))))"

definition discover_arrays_v3_async :: "(string \<Rightarrow> DiscoveryError + json) \<Rightarrow> remote_store \<Rightarrow> string \<Rightarrow>
    DiscoveryError + 'f ZarrStoreMeta" where
  "discover_arrays_v3_async parse rs prefix =
     (case list_dir rs prefix of
        Inl e \<Rightarrow> Inl e
      | Inr subs \<Rightarrow> Inr (separate_and_sort_arrays_async (List.map_filter (v3_entry_async parse rs) subs)))"

definition discover_arrays_from_zmetadata_async :: "(string \<Rightarrow> DiscoveryError + json) \<Rightarrow> remote_store \<Rightarrow> string \<Rightarrow>
    DiscoveryError + 'f ZarrStoreMeta option" where
  "discover_arrays_from_zmetadata_async parse rs prefix =
     (case store_get_string rs (join_key prefix ''.zmetadata'') of
        Inl e \<Rightarrow> Inr None
      | Inr content \<Rightarrow>
          (case parse content of
             Inl e \<Rightarrow> Inl e
           | Inr meta \<Rightarrow>
               (case consolidated_arrays meta of
                  Inl e \<Rightarrow> Inl e
                | Inr arrays \<Rightarrow> if arrays = [] then Inr None else Inr (Some (separate_and_sort_arrays_async arrays)))))"

definition discover_arrays_async :: "(string \<Rightarrow> DiscoveryError + json) \<Rightarrow> remote_store \<Rightarrow> string \<Rightarrow>
    DiscoveryError + 'f ZarrStoreMeta" where
  "discover_arrays_async parse rs prefix =
     (case discover_arrays_from_zmetadata_async parse rs prefix of
        Inl e \<Rightarrow> Inl e
      | Inr (Some meta) \<Rightarrow> Inr meta
      | Inr None \<Rightarrow>
          (case detect_zarr_version_async rs prefix of
             Inl e \<Rightarrow> Inl e
           | Inr V2 \<Rightarrow> discover_arrays_v2_async parse rs prefix
           | Inr V3 \<Rightarrow> discover_arrays_v3_async parse rs prefix))"

definition infer_schema_with_meta_async :: "(string \<Rightarrow> DiscoveryError + json) \<Rightarrow> remote_store \<Rightarrow> string \<Rightarrow>
    DiscoveryError + ((string \<times> DataType \<times> bool) list \<times> 'f ZarrStoreMeta)" where
  "infer_schema_with_meta_async parse rs prefix =
     (case discover_arrays_async parse rs prefix of
        Inl e \<Rightarrow> Inl e | Inr meta \<Rightarrow> Inr (build_schema_from_store_meta meta, meta))"

text \<open>The schema does not depend on the numbers of the statistics, which no remote discovery has.\<close>

definition infer_schema_async :: "(string \<Rightarrow> DiscoveryError + json) \<Rightarrow> remote_store \<Rightarrow> string \<Rightarrow>
    DiscoveryError + (string \<times> DataType \<times> bool) list" where
  "infer_schema_async parse rs prefix =
     (case (infer_schema_with_meta_async parse rs prefix :: DiscoveryError + ((string \<times> DataType \<times> bool) list \<times> rat ZarrStoreMeta)) of Inl e \<Rightarrow> Inl e | Inr (schema, m) \<Rightarrow> Inr schema)"

section \<open>Results of a discovery\<close>

lemma arrays_without_stats [simp]:
  "coord_min_max (v2_array name value attrs) = None" "v3_array name value = Some a \<Longrightarrow> coord_min_max a = None"
  by (auto simp: v2_array_def v3_array_def Let_def split: if_splits)

lemma map_filter_id_all: "list_all (\<lambda>x. case x of None \<Rightarrow> True | Some a \<Rightarrow> P a) xs \<Longrightarrow> list_all P (List.map_filter id xs)"
  by (induction xs) (auto simp: List.map_filter_simps split: option.splits)

lemma consolidated_without_stats:
  "consolidated_arrays meta = Inr arrays \<Longrightarrow> list_all (\<lambda>a. coord_min_max a = None) arrays"
  by (auto simp: consolidated_arrays_def list_all_iff List.map_filter_def Let_def split: option.splits if_splits)

lemma discover_arrays_wf: "discover_arrays fl rd parse st = Inr m \<Longrightarrow> meta_wf m"
  by (auto simp: discover_arrays_def discover_arrays_from_zmetadata_def discover_arrays_v2_def discover_arrays_v3_def
      no_stats_eq_async separate_local_wf separate_async_wf split: sum.splits option.splits ZarrVersion.splits if_splits)

lemma discover_async_wf: "discover_arrays_async parse rs prefix = Inr m \<Longrightarrow> meta_wf m"
  by (auto simp: discover_arrays_async_def discover_arrays_from_zmetadata_async_def discover_arrays_v2_async_def
      discover_arrays_v3_async_def separate_async_wf split: sum.splits option.splits ZarrVersion.splits if_splits)

lemma discover_json_wf: "discover_arrays_from_json meta = Inr (Some m) \<Longrightarrow> meta_wf m"
  by (auto simp: discover_arrays_from_json_def no_stats_eq_async separate_async_wf split: sum.splits if_splits)

lemma built_schema_of: "meta_wf m \<Longrightarrow> schema_of (build_schema_from_store_meta m) m"
  by (simp add: meta_wf_def built_schema_ok)

section \<open>A remote mirror of a directory\<close>

definition meta_files :: "string list" where
  "meta_files = [''zarr.json'', ''.zgroup'', ''.zarray'', ''.zattrs'', ''.zmetadata'']"

text \<open>A key of the store is a file of the directory.\<close>

definition serves :: "remote_store \<Rightarrow> string \<Rightarrow> bool \<Rightarrow> DiscoveryError + string \<Rightarrow> bool" where
  "serves rs key has read \<longleftrightarrow>
     store_key_exists rs key = has \<and> result_ok (store_get_string rs key) = (if has then result_ok read else None)"

definition entry_key :: "string \<Rightarrow> dir_entry \<Rightarrow> string" where
  "entry_key prefix d = join_key prefix (the (entry_name d))"

definition plain_name :: "dir_entry \<Rightarrow> bool" where
  "plain_name d \<longleftrightarrow> (case entry_name d of None \<Rightarrow> False | Some n \<Rightarrow> n \<noteq> [] \<and> CHR ''/'' \<notin> set n)"

definition mirrors :: "string \<Rightarrow> local_store \<Rightarrow> remote_store \<Rightarrow> bool" where
  "mirrors prefix st rs \<longleftrightarrow>
     \<not> ends_with prefix ''/'' \<and> list_all (\<lambda>f. serves rs (join_key prefix f) (root_has st f) (root_read st f)) meta_files \<and>
     (case root_entries st of
        Inl e \<Rightarrow> False
      | Inr es \<Rightarrow>
          (\<exists>ds. es = map Inr ds \<and>
             list_dir rs prefix = Inr (map (\<lambda>d. entry_key prefix d @ ''/'') (filter entry_is_dir ds)) \<and>
             list_all (\<lambda>d. plain_name d \<and>
               list_all (\<lambda>f. serves rs (entry_key prefix d @ ''/'' @ f) (entry_has d f) (entry_read d f)) meta_files)
               (filter entry_is_dir ds)))"

lemma ends_with_single: "ends_with s [c] \<longleftrightarrow> (\<exists>t. s = t @ [c])"
proof
  assume "ends_with s [c]"
  then show "\<exists>t. s = t @ [c]" unfolding ends_with_def by (metis append_take_drop_id)
qed (auto simp: ends_with_def)

lemma trim_slash:
  "\<not> ends_with s ''/'' \<Longrightarrow> trim_end_matches s ''/'' = s"
  "\<not> ends_with s ''/'' \<Longrightarrow> trim_end_matches (s @ ''/'') ''/'' = s"
  by (simp_all add: trim_end_matches.simps [of s] trim_end_matches.simps [of "s @ _"] ends_with_single)

lemma entry_key_props:
  assumes "\<not> ends_with prefix ''/''" "plain_name d"
  shows "trim_end_matches (entry_key prefix d @ ''/'') ''/'' = entry_key prefix d"
    "trim_end_matches (entry_key prefix d) ''/'' = entry_key prefix d"
    "last_component (entry_key prefix d) = unwrap_or (entry_name d) ''unknown''"
proof -
  obtain n where n: "entry_name d = Some n" "n \<noteq> []" "CHR ''/'' \<notin> set n" using assms(2) by (auto simp: plain_name_def split: option.splits)
  have k: "entry_key prefix d = (if prefix = [] then n else prefix @ ''/'' @ n)"
    using n(1) trim_slash(1) [OF assms(1)] by (simp add: entry_key_def join_key_def)
  have "last (entry_key prefix d) \<noteq> CHR ''/''" "entry_key prefix d \<noteq> []"
    using n(2,3) k last_in_set [OF n(2)] by (auto simp del: last_in_set)
  then have "\<not> ends_with (entry_key prefix d) ''/''" by (auto simp: ends_with_single)
  then show "trim_end_matches (entry_key prefix d @ ''/'') ''/'' = entry_key prefix d"
    "trim_end_matches (entry_key prefix d) ''/'' = entry_key prefix d" using trim_slash by blast+
  have a: "\<forall>c \<in> set (rev n). c \<noteq> CHR ''/''" using n(3) by auto
  have t1: "takeWhile (\<lambda>c. c \<noteq> CHR ''/'') (rev n @ CHR ''/'' # t) = rev n" for t
    by (subst takeWhile_append2) (use a in auto)
  have t2: "takeWhile (\<lambda>c. c \<noteq> CHR ''/'') (rev n) = rev n" using a by (simp add: takeWhile_eq_all_conv)
  have "last_component (entry_key prefix d) = n" by (simp add: k last_component_def t1 t2)
  then show "last_component (entry_key prefix d) = unwrap_or (entry_name d) ''unknown''" using n(1) by (simp add: unwrap_or_def)
qed

text \<open>What a mirror serves of an entry, and of the root.\<close>

definition entry_mirrored :: "string \<Rightarrow> remote_store \<Rightarrow> dir_entry \<Rightarrow> bool" where
  "entry_mirrored prefix rs d \<longleftrightarrow> plain_name d \<and>
     list_all (\<lambda>f. serves rs (entry_key prefix d @ ''/'' @ f) (entry_has d f) (entry_read d f)) meta_files"

lemma mirrorsE:
  assumes "mirrors prefix st rs"
  obtains ds where "\<not> ends_with prefix ''/''" "root_entries st = Inr (map Inr ds)"
    "list_dir rs prefix = Inr (map (\<lambda>d. entry_key prefix d @ ''/'') (filter entry_is_dir ds))"
    "list_all (entry_mirrored prefix rs) (filter entry_is_dir ds)"
  using assms by (auto simp: mirrors_def entry_mirrored_def [abs_def] split: sum.splits)

lemma mirrorsI:
  assumes "\<not> ends_with prefix ''/''" "root_entries st = Inr (map Inr ds)"
    "list_dir rs prefix = Inr (map (\<lambda>d. entry_key prefix d @ ''/'') (filter entry_is_dir ds))"
    "list_all (entry_mirrored prefix rs) (filter entry_is_dir ds)"
    "list_all (\<lambda>f. serves rs (join_key prefix f) (root_has st f) (root_read st f)) meta_files"
  shows "mirrors prefix st rs"
  using assms by (auto simp: mirrors_def entry_mirrored_def [abs_def])

lemma served:
  assumes "serves rs key has read"
  shows "store_key_exists rs key = has" "result_ok (store_get_string rs key) = (if has then result_ok read else None)"
  using assms by (simp_all add: serves_def)

lemma result_ok_simps [simp]: "result_ok r = Some x \<longleftrightarrow> r = Inr x" "result_ok r = None \<longleftrightarrow> (\<exists>e. r = Inl e)" "result_ok (Inr x) = Some x" "result_ok (Inl e) = None"
  by (cases r, auto simp: result_ok_def)+

lemma entry_files:
  assumes "entry_mirrored prefix rs d" "f \<in> set meta_files"
  shows "store_key_exists rs (entry_key prefix d @ ''/'' @ f) = entry_has d f"
    "result_ok (store_get_string rs (entry_key prefix d @ ''/'' @ f)) = (if entry_has d f then result_ok (entry_read d f) else None)"
proof -
  have "serves rs (entry_key prefix d @ ''/'' @ f) (entry_has d f) (entry_read d f)"
    using assms by (auto simp: entry_mirrored_def list_all_iff)
  then show "store_key_exists rs (entry_key prefix d @ ''/'' @ f) = entry_has d f"
    "result_ok (store_get_string rs (entry_key prefix d @ ''/'' @ f)) = (if entry_has d f then result_ok (entry_read d f) else None)"
    by (rule served)+
qed

lemma v2_entry_mirrored:
  assumes "\<not> ends_with prefix ''/''" "entry_mirrored prefix rs d" "entry_is_dir d" "v2_entry parse d = Inr x"
  shows "v2_entry_async parse rs (entry_key prefix d @ ''/'') = Inr x"
proof -
  note k = entry_key_props [OF assms(1), of d]
  have d: "plain_name d" using assms(2) by (simp add: entry_mirrored_def)
  have za: "''.zarray'' \<in> set meta_files" and zt: "''.zattrs'' \<in> set meta_files" by (simp_all add: meta_files_def)
  note a = entry_files(2) [OF assms(2) za] and t = entry_files(2) [OF assms(2) zt]
  show ?thesis
  proof (cases "entry_has d ''.zarray''")
    case False
    then have "\<exists>e. store_get_string rs (entry_key prefix d @ ''/.zarray'') = Inl e" using a by simp
    then show ?thesis using False assms(3,4) k(1) [OF d] by (auto simp: v2_entry_async_def v2_entry_def)
  next
    case True
    then obtain content meta where c: "entry_read d ''.zarray'' = Inr content" "parse content = Inr meta"
      using assms(3,4) by (auto simp: v2_entry_def split: sum.splits)
    then have "store_get_string rs (entry_key prefix d @ ''/.zarray'') = Inr content" using a True by simp
    then show ?thesis using True assms(3,4) c t k [OF d] by (auto simp: v2_entry_async_def v2_entry_def Let_def)
  qed
qed

lemma v3_entry_mirrored:
  assumes "\<not> ends_with prefix ''/''" "entry_mirrored prefix rs d" "entry_is_dir d" "v3_entry parse d = Inr x"
  shows "v3_entry_async parse rs (entry_key prefix d @ ''/'') = x"
proof -
  note k = entry_key_props [OF assms(1), of d]
  have d: "plain_name d" using assms(2) by (simp add: entry_mirrored_def)
  have z: "''zarr.json'' \<in> set meta_files" by (simp add: meta_files_def)
  note a = entry_files(2) [OF assms(2) z]
  show ?thesis
  proof (cases "entry_has d ''zarr.json''")
    case False
    then have "\<exists>e. store_get_string rs (entry_key prefix d @ ''/zarr.json'') = Inl e" using a by simp
    then show ?thesis using False assms(3,4) k(1) [OF d] by (auto simp: v3_entry_async_def v3_entry_def)
  next
    case True
    then obtain content meta where c: "entry_read d ''zarr.json'' = Inr content" "parse content = Inr meta"
      using assms(3,4) by (auto simp: v3_entry_def split: sum.splits)
    then have "store_get_string rs (entry_key prefix d @ ''/zarr.json'') = Inr content" using a True by simp
    then show ?thesis using True assms(3,4) c k [OF d] by (simp add: v3_entry_async_def v3_entry_def)
  qed
qed

lemma first_version_mirrored:
  assumes "\<not> ends_with prefix ''/''" "list_all (entry_mirrored prefix rs) (filter entry_is_dir ds)"
  shows "first_version_async rs (map (\<lambda>d. entry_key prefix d @ ''/'') (filter entry_is_dir ds)) = first_version (map Inr ds)"
  using assms(2)
proof (induction ds)
  case (Cons d ds)
  have z: "''zarr.json'' \<in> set meta_files" "''.zarray'' \<in> set meta_files" by (simp_all add: meta_files_def)
  show ?case
  proof (cases "entry_is_dir d")
    case True
    then have d: "entry_mirrored prefix rs d" using Cons.prems by simp
    then have "plain_name d" by (simp add: entry_mirrored_def)
    from entry_key_props(1) [OF assms(1) this] show ?thesis
      using True Cons entry_files(1) [OF d z(1)] entry_files(1) [OF d z(2)] by (simp add: Let_def)
  qed (use Cons in simp)
qed simp

lemma root_files:
  assumes "mirrors prefix st rs" "f \<in> set meta_files"
  shows "store_key_exists rs (join_key prefix f) = root_has st f"
    "result_ok (store_get_string rs (join_key prefix f)) = (if root_has st f then result_ok (root_read st f) else None)"
proof -
  have "serves rs (join_key prefix f) (root_has st f) (root_read st f)"
    using assms by (auto simp: mirrors_def list_all_iff)
  then show "store_key_exists rs (join_key prefix f) = root_has st f"
    "result_ok (store_get_string rs (join_key prefix f)) = (if root_has st f then result_ok (root_read st f) else None)"
    by (rule served)+
qed

lemma detect_mirrored:
  assumes "mirrors prefix st rs" "\<not> root_has st ''.zarray''"
  shows "detect_zarr_version_async rs prefix = detect_zarr_version st"
proof -
  obtain ds where ds: "\<not> ends_with prefix ''/''" "root_entries st = Inr (map Inr ds)"
    "list_dir rs prefix = Inr (map (\<lambda>d. entry_key prefix d @ ''/'') (filter entry_is_dir ds))"
    "list_all (entry_mirrored prefix rs) (filter entry_is_dir ds)"
    using assms(1) by (rule mirrorsE)
  have z: "''zarr.json'' \<in> set meta_files" "''.zgroup'' \<in> set meta_files" by (simp_all add: meta_files_def)
  have j: "(let root = trim_end_matches prefix ''/''; join = (\<lambda>name. if root = [] then name else root @ ''/'' @ name) in P join) =
      P (join_key prefix)" for P :: "(string \<Rightarrow> string) \<Rightarrow> 'z"
    by (simp only: Let_def trim_slash(1) [OF ds(1)] join_key_def [abs_def])
  show ?thesis
    using root_files(1) [OF assms(1) z(1)] root_files(1) [OF assms(1) z(2)] assms(2) ds(2,3) first_version_mirrored [OF ds(1,4)]
    unfolding detect_zarr_version_async_def j by (simp add: detect_zarr_version_def)
qed

text \<open>Entries that are not directories hold no array.\<close>

lemma scan_entries_dirs:
  assumes "root_entries st = Inr (map Inr ds)" "scan_entries f st = Inr arrays" "\<And>d. \<not> entry_is_dir d \<Longrightarrow> f d = Inr None"
  shows "\<exists>g. (\<forall>d \<in> set ds. f d = Inr (g d)) \<and> arrays = List.map_filter g (filter entry_is_dir ds)"
proof -
  obtain found where f: "map f ds = map Inr found" "arrays = List.map_filter id found"
    using assms(1,2) by (auto simp: scan_entries_def collect_results_Inr comp_def split: sum.splits)
  define g where "g d = projr (f d)" for d
  have len: "length found = length ds" using f(1) by (metis length_map)
  have r: "f d = Inr (g d)" if "d \<in> set ds" for d
  proof -
    have "f d \<in> set (map Inr found)" using that f(1) by (metis imageI list.set_map)
    then show ?thesis by (auto simp: g_def)
  qed
  then have "map Inr found = (map Inr (map g ds) :: (DiscoveryError + 'a ZarrArrayMeta option) list)"
    unfolding f(1) [symmetric] by (simp only: list.map_comp comp_def) (rule map_cong [OF refl], simp)
  then have "found = map g ds" by (simp only: inj_map_eq_map [OF inj_Inr])
  then have "arrays = List.map_filter g ds" using f(2) by (simp add: map_filter_def filter_map comp_def)
  moreover have "g d = None" if "\<not> entry_is_dir d" "d \<in> set ds" for d
    using r [OF that(2)] assms(3) [OF that(1)] by simp
  then have "List.map_filter g ds = List.map_filter g (filter entry_is_dir ds)"
    by (induction ds) (auto simp: List.map_filter_simps split: option.split)
  ultimately show ?thesis using r by blast
qed

lemma scanned_without_stats:
  assumes "scan_entries f st = Inr arrays" "\<And>d a. f d = Inr (Some a) \<Longrightarrow> coord_min_max a = None"
  shows "list_all (\<lambda>a. coord_min_max a = None) arrays"
proof -
  obtain es found where e: "map (\<lambda>r. case r of Inl e \<Rightarrow> Inl e | Inr d \<Rightarrow> f d) es = map Inr found" "arrays = List.map_filter id found"
    using assms(1) by (auto simp: scan_entries_def collect_results_Inr split: sum.splits)
  have "coord_min_max a = None" if "Some a \<in> set found" for a
  proof -
    have "Inr (Some a) \<in> set (map (\<lambda>r. case r of Inl e \<Rightarrow> Inl e | Inr d \<Rightarrow> f d) es)" using that unfolding e(1) by simp
    then obtain r where "(case r of Inl e \<Rightarrow> Inl e | Inr d \<Rightarrow> f d) = Inr (Some a)" by auto
    then show ?thesis using assms(2) by (cases r) auto
  qed
  then show ?thesis using e(2) by (auto simp: list_all_iff List.map_filter_def)
qed

lemma v2_mirrored:
  assumes "mirrors prefix st rs" "discover_arrays_v2 fl rd parse st = Inr m"
  shows "discover_arrays_v2_async parse rs prefix = Inr (strip m)"
proof -
  obtain ds where ds: "\<not> ends_with prefix ''/''" "root_entries st = Inr (map Inr ds)"
    "list_dir rs prefix = Inr (map (\<lambda>d. entry_key prefix d @ ''/'') (filter entry_is_dir ds))"
    "list_all (entry_mirrored prefix rs) (filter entry_is_dir ds)"
    using assms(1) by (rule mirrorsE)
  obtain arrays where a: "scan_entries (v2_entry parse) st = Inr arrays" "m = separate_and_sort_arrays fl rd arrays"
    using assms(2) by (auto simp: discover_arrays_v2_def split: sum.splits)
  obtain g where g: "\<forall>d \<in> set ds. v2_entry parse d = Inr (g d)" "arrays = List.map_filter g (filter entry_is_dir ds)"
    using scan_entries_dirs [OF ds(2) a(1)] by (auto simp: v2_entry_def)
  have e: "v2_entry_async parse rs (entry_key prefix d @ ''/'') = Inr (g d)" if "d \<in> set ds" "entry_is_dir d" for d
    by (rule v2_entry_mirrored [OF ds(1) _ that(2)]) (use that ds(4) g(1) in \<open>auto simp: list_all_iff\<close>)
  have "collect_results (map (v2_entry_async parse rs) (map (\<lambda>d. entry_key prefix d @ ''/'') (filter entry_is_dir ds))) =
      Inr (map g (filter entry_is_dir ds))"
    using e by (auto simp: collect_results_Inr)
  moreover have "List.map_filter id (map g (filter entry_is_dir ds)) = arrays"
    by (simp add: g(2) map_filter_def filter_map comp_def)
  moreover have "list_all (\<lambda>a. coord_min_max a = None) arrays"
    by (rule scanned_without_stats [OF a(1)]) (auto simp: v2_entry_def Let_def split: sum.splits if_splits)
  ultimately show ?thesis using ds(3) a(2) by (simp add: discover_arrays_v2_async_def strip_separate)
qed

lemma v3_mirrored:
  assumes "mirrors prefix st rs" "discover_arrays_v3 fl rd parse st = Inr m"
  shows "discover_arrays_v3_async parse rs prefix = Inr (strip m)"
proof -
  obtain ds where ds: "\<not> ends_with prefix ''/''" "root_entries st = Inr (map Inr ds)"
    "list_dir rs prefix = Inr (map (\<lambda>d. entry_key prefix d @ ''/'') (filter entry_is_dir ds))"
    "list_all (entry_mirrored prefix rs) (filter entry_is_dir ds)"
    using assms(1) by (rule mirrorsE)
  obtain arrays where a: "scan_entries (v3_entry parse) st = Inr arrays" "m = separate_and_sort_arrays fl rd arrays"
    using assms(2) by (auto simp: discover_arrays_v3_def split: sum.splits)
  obtain g where g: "\<forall>d \<in> set ds. v3_entry parse d = Inr (g d)" "arrays = List.map_filter g (filter entry_is_dir ds)"
    using scan_entries_dirs [OF ds(2) a(1)] by (auto simp: v3_entry_def)
  have e: "v3_entry_async parse rs (entry_key prefix d @ ''/'') = g d" if "d \<in> set ds" "entry_is_dir d" for d
    by (rule v3_entry_mirrored [OF ds(1) _ that(2)]) (use that ds(4) g(1) in \<open>auto simp: list_all_iff\<close>)
  have "List.map_filter (v3_entry_async parse rs) (map (\<lambda>d. entry_key prefix d @ ''/'') (filter entry_is_dir ds)) =
      List.map_filter (\<lambda>d. v3_entry_async parse rs (entry_key prefix d @ ''/'')) (filter entry_is_dir ds)"
    by (simp add: map_filter_def filter_map comp_def)
  also have "\<dots> = arrays"
    unfolding g(2) using e by (intro map_filter_cong) auto
  finally have "List.map_filter (v3_entry_async parse rs) (map (\<lambda>d. entry_key prefix d @ ''/'') (filter entry_is_dir ds)) = arrays" .
  moreover have "list_all (\<lambda>a. coord_min_max a = None) arrays"
    by (rule scanned_without_stats [OF a(1)]) (auto simp: v3_entry_def split: sum.splits if_splits)
  ultimately show ?thesis using ds(3) a(2) by (simp add: discover_arrays_v3_async_def strip_separate)
qed

lemma zmetadata_mirrored:
  assumes "mirrors prefix st rs" "\<And>content. root_read st ''.zmetadata'' = Inr content \<Longrightarrow> sanitize_json content = content"
    "discover_arrays_from_zmetadata fl rd parse st = Inr r"
  shows "discover_arrays_from_zmetadata_async parse rs prefix = Inr (map_option strip r)"
proof -
  have "''.zmetadata'' \<in> set meta_files" by (simp add: meta_files_def)
  note f = root_files(2) [OF assms(1) this]
  show ?thesis
  proof (cases "root_has st ''.zmetadata''")
    case False
    then have "r = None" using assms(3) by (simp add: discover_arrays_from_zmetadata_def)
    moreover obtain e where "store_get_string rs (join_key prefix ''.zmetadata'') = Inl e" using f False by auto
    ultimately show ?thesis by (simp add: discover_arrays_from_zmetadata_async_def)
  next
    case True
    then obtain content meta arrays where c: "root_read st ''.zmetadata'' = Inr content" "parse (sanitize_json content) = Inr meta"
        "consolidated_arrays meta = Inr (arrays :: 'a ZarrArrayMeta list)"
        "r = (if arrays = [] then None else if is_virtualizarr_store st then Some (separate_and_sort_arrays_no_stats arrays)
          else Some (separate_and_sort_arrays fl rd arrays))"
      using assms(3) by (auto simp: discover_arrays_from_zmetadata_def split: sum.splits if_splits)
    have "store_get_string rs (join_key prefix ''.zmetadata'') = Inr content" using f True c(1) by simp
    then show ?thesis
      using c assms(2) [OF c(1)] consolidated_without_stats [OF c(3)]
      by (simp add: discover_arrays_from_zmetadata_async_def no_stats_eq_async strip_separate)
  qed
qed

lemma discovery_mirrored:
  assumes m: "mirrors prefix st rs" and root: "\<not> root_has st ''.zarray''"
    and js: "\<And>content. root_read st ''.zmetadata'' = Inr content \<Longrightarrow> sanitize_json content = content"
    and loc: "discover_arrays fl rd parse st = Inr m"
  shows "discover_arrays_async parse rs prefix = Inr (strip m)"
proof -
  obtain r where r: "discover_arrays_from_zmetadata fl rd parse st = Inr r"
    using loc by (auto simp: discover_arrays_def split: sum.splits)
  note z = zmetadata_mirrored [OF m js r]
  show ?thesis
  proof (cases r)
    case None
    then obtain v where v: "detect_zarr_version st = Inr v"
        "(case v of V2 \<Rightarrow> discover_arrays_v2 fl rd parse st | V3 \<Rightarrow> discover_arrays_v3 fl rd parse st) = Inr m"
      using loc r by (auto simp: discover_arrays_def split: sum.splits)
    then show ?thesis
      using z None detect_mirrored [OF m root] v2_mirrored [OF m] v3_mirrored [OF m]
      by (cases v) (auto simp: discover_arrays_async_def)
  next
    case (Some m')
    then show ?thesis using loc r z by (simp add: discover_arrays_def discover_arrays_async_def)
  qed
qed

section \<open>Properties\<close>

text \<open>C11: Whatever a discovery reads, the metadata it returns is well formed (coordinates one-dimensional, variables not,
  rows counted) and the schema has a non-null dictionary per coordinate, whose keys hold every position, and a
  nullable column per variable.\<close>

theorem discovered_schema_wf:
  "(case infer_schema_with_meta fl rd parse st of Inl e \<Rightarrow> True | Inr (schema, m) \<Rightarrow> meta_wf m \<and> schema_of schema m) \<and>
   (case infer_schema_with_meta_async parse rs prefix of Inl e \<Rightarrow> True | Inr (schema, m) \<Rightarrow> meta_wf m \<and> schema_of schema m) \<and>
   (case infer_schema_from_zmetadata_json json of Inl e \<Rightarrow> True | Inr (schema, m) \<Rightarrow> meta_wf m \<and> schema_of schema m)"
  by (auto simp: infer_schema_with_meta_def infer_schema_with_meta_async_def infer_schema_from_zmetadata_json_def
      discover_arrays_wf discover_async_wf discover_json_wf built_schema_of split: sum.splits option.splits)

text \<open>C10: The remote twin agrees with a successful local discovery on a mirror of the directory that lists its entries in
  the same order, up to the statistics of the coordinates and the scalars: same coordinates in the same order, same
  variables, same number of rows.  The root is no array of its own (no root \<open>.zarray\<close>), and the consolidated metadata
  has no number the local path replaces before parsing (\<open>NaN\<close> and the infinities, on which the remote path fails).\<close>

theorem remote_discovery_agrees:
  assumes "mirrors prefix st rs" "\<not> root_has st ''.zarray''"
    "\<And>content. root_read st ''.zmetadata'' = Inr content \<Longrightarrow> sanitize_json content = content"
    "discover_arrays fl rd parse st = Inr m"
  shows "discover_arrays_async parse rs prefix = Inr (strip m)"
  using assms by (rule discovery_mirrored)

definition demo_entry :: "string \<Rightarrow> string \<Rightarrow> dir_entry" where
  "demo_entry n content = \<lparr>entry_name = Some n, entry_is_dir = True, entry_has = (\<lambda>f. f = ''.zarray''),
     entry_read = (\<lambda>f. if f = ''.zarray'' then Inr content else Inl (IoError f))\<rparr>"

definition demo_dir :: local_store where
  "demo_dir = \<lparr>root_has = (\<lambda>f. f = ''.zgroup''), root_read = (\<lambda>f. if f = ''.zgroup'' then Inr [] else Inl (IoError f)),
     root_entries = Inr (map Inr [demo_entry ''y'' ''1'', demo_entry ''x'' ''2'', demo_entry ''t'' ''3'']), has_parquet_refs = False\<rparr>"

definition demo_parse :: "string \<Rightarrow> DiscoveryError + json" where
  "demo_parse s = Inr (JObject [(''dtype'', JString ''<f8''), (''shape'', JArray (map JU64
     (if s = ''1'' then [2] else if s = ''2'' then [3] else [3, 2])))])"

definition demo_keys :: "(string \<times> string) list" where
  "demo_keys = [(''s/.zgroup'', []), (''s/y/.zarray'', ''1''), (''s/x/.zarray'', ''2''), (''s/t/.zarray'', ''3'')]"

definition demo_bucket :: remote_store where
  "demo_bucket = \<lparr>valid_key = (\<lambda>k. True), get_bytes = (\<lambda>k. Inr (map_option (map of_char) (map_of demo_keys k))),
     size_key = (\<lambda>k. Inr (map_option size (map_of demo_keys k))), valid_prefix = (\<lambda>p. True),
     list_prefixes = (\<lambda>p. if p = ''s/'' then Inr [''s/y/'', ''s/x/'', ''s/t/''] else Inr []), from_utf8 = (\<lambda>b. Some (map char_of b))\<rparr>"

definition demo_reader :: "rat coord_reader" where
  "demo_reader = \<lparr>read_floats = (\<lambda>name dtype. Some [1, 2]), read_ints = (\<lambda>name dtype. None)\<rparr>"

lemma demo_trim: "trim_end_matches ''s'' ''/'' = ''s''" "\<not> ends_with ''s'' ''/''"
  by (simp_all add: trim_end_matches.simps [of "''s''"] ends_with_def)

lemma demo_mirrors: "mirrors ''s'' demo_dir demo_bucket"
proof -
  have s: "store_key_exists demo_bucket k = (map_of demo_keys k \<noteq> None)"
      "result_ok (store_get_string demo_bucket k) = map_of demo_keys k" for k
    by (auto simp: store_key_exists_def store_get_string_def demo_bucket_def result_ok_def comp_def split: option.split)
  have root: "list_all (\<lambda>f. serves demo_bucket (join_key ''s'' f) (root_has demo_dir f) (root_read demo_dir f)) meta_files"
    by (simp add: meta_files_def serves_def s demo_keys_def join_key_def demo_trim demo_dir_def)
  have e: "list_all (\<lambda>f. serves demo_bucket (entry_key ''s'' d @ ''/'' @ f) (entry_has d f) (entry_read d f)) meta_files"
    if "d = demo_entry n c" "(n, c) \<in> {(''y'', ''1''), (''x'', ''2''), (''t'', ''3'')}" for d n c
    using that by (auto simp: meta_files_def serves_def s demo_keys_def entry_key_def join_key_def demo_trim demo_entry_def)
  let ?ds = "[demo_entry ''y'' ''1'', demo_entry ''x'' ''2'', demo_entry ''t'' ''3'']"
  have "list_dir demo_bucket ''s'' = Inr [''s/y/'', ''s/x/'', ''s/t/'']"
    by (simp add: list_dir_def demo_bucket_def prefix_str_def demo_trim)
  then have l: "list_dir demo_bucket ''s'' = Inr (map (\<lambda>d. entry_key ''s'' d @ ''/'') (filter entry_is_dir ?ds))"
    by (simp add: demo_entry_def entry_key_def join_key_def demo_trim)
  have d: "list_all (entry_mirrored ''s'' demo_bucket) (filter entry_is_dir ?ds)"
    using e [OF refl] by (simp add: entry_mirrored_def demo_entry_def plain_name_def)
  have r: "root_entries demo_dir = Inr (map Inr ?ds)" by (simp add: demo_dir_def)
  show ?thesis by (rule mirrorsI [OF demo_trim(2) r l d root])
qed

definition demo_arrays :: "rat ZarrArrayMeta list" where
  "demo_arrays = map (\<lambda>(n, c). v2_array n (projr (demo_parse c)) None) [(''y'', ''1''), (''x'', ''2''), (''t'', ''3'')]"

lemma demo_discovered:
  "discover_arrays exact_f64 demo_reader demo_parse demo_dir = Inr (separate_and_sort_arrays exact_f64 demo_reader demo_arrays)"
proof -
  have "v2_entry demo_parse (demo_entry n c) = Inr (Some (v2_array n (projr (demo_parse c)) None :: rat ZarrArrayMeta))" for n c
    by (simp add: v2_entry_def demo_entry_def demo_parse_def unwrap_or_def)
  then show ?thesis
    by (simp add: discover_arrays_def discover_arrays_from_zmetadata_def demo_dir_def detect_zarr_version_def
        discover_arrays_v2_def scan_entries_def demo_arrays_def List.map_filter_simps)
qed

lemma demo_arrays_eq:
  "demo_arrays = map (\<lambda>(n, sh). \<lparr>meta_name = n, data_type = ''float64'', shape = sh, chunks = None, coord_min_max = None,
     cf_time_attrs = None, dimensions = None\<rparr>) [(''y'', [2]), (''x'', [3]), (''t'', [3, 2])]"
  by (simp add: demo_arrays_def v2_array_def demo_parse_def u64_array_def unwrap_or_def List.map_filter_simps Let_def or_else_def
      parse_v2_dtype_def contains_str_def v2_type_name_def infer_nanosecond_epoch_from_raw_dtype_def parse_u32_def is_digit_def)

text \<open>The variable is transposed against the order of discovery, so that the coordinates change places.\<close>

lemma demo_found:
  "separate_and_sort_arrays exact_f64 demo_reader demo_arrays =
     \<lparr>coords = map (\<lambda>(n, d). \<lparr>meta_name = n, data_type = ''float64'', shape = [d], chunks = None, coord_min_max = Some (1, 2),
        cf_time_attrs = None, dimensions = None\<rparr>) [(''x'', 3), (''y'', 2)],
      data_vars = [\<lparr>meta_name = ''t'', data_type = ''float64'', shape = [3, 2], chunks = None, coord_min_max = None,
        cf_time_attrs = None, dimensions = None\<rparr>], total_rows = 6\<rparr>"
  by (simp add: demo_arrays_eq separate_and_sort_arrays_def is_coordinate_def infer_coord_order_from_data_vars_def sort_by_name_def
      first_opt_def set_min_max_def compute_coord_min_max_def demo_reader_def min_max_def count_rows_def u64_def Let_def)

theorem remote_discovery_agrees_witness:
  "discover_arrays_async demo_parse demo_bucket ''s'' =
    Inr (strip (separate_and_sort_arrays exact_f64 demo_reader demo_arrays)) \<and>
   map meta_name (coords (separate_and_sort_arrays exact_f64 demo_reader demo_arrays)) = [''x'', ''y'']"
  using remote_discovery_agrees [OF demo_mirrors _ _ demo_discovered] by (simp add: demo_dir_def demo_found)

end
