(* ===== verification/Discovered_Scan.thy ===== *)
theory Discovered_Scan
  imports Scan Discovery
begin

text \<open>
  From the discovery of a store to the rows of a scan: the metadata and the schema that discovery returns for a
  regular store (every variable spans all coordinates) are sound for the scan, so that a query on the
  discovered table returns the rows of the arrays.
\<close>

definition table_names :: "'f ZarrStoreMeta \<Rightarrow> string list" where
  "table_names m = map meta_name (coords m)"

definition table_sizes :: "'f ZarrStoreMeta \<Rightarrow> nat list" where
  "table_sizes m = map axis_len (coords m)"

text \<open>The columns of the schema, without their nullability, and the type of the values of a coordinate.\<close>

definition table_columns :: "(string \<times> DataType \<times> bool) list \<Rightarrow> Schema" where
  "table_columns schema = map (\<lambda>(name, dt, nullable). (name, dt)) schema"

definition coord_value_type :: "'f ZarrStoreMeta \<Rightarrow> nat \<Rightarrow> DataType" where
  "coord_value_type m i = (case coord_type (coords m ! i) of Dictionary kt vt \<Rightarrow> vt | dt \<Rightarrow> dt)"

text \<open>
  Every variable spans all coordinates and has a type the reader delivers; names are unique.  The dimensions,
  where the store names them, are the coordinates in their order.
\<close>

definition regular_table :: "'f ZarrStoreMeta \<Rightarrow> bool" where
  "regular_table m \<longleftrightarrow>
     distinct (table_names m @ map meta_name (data_vars m)) \<and>
     list_all (\<lambda>v. mset (shape v) = mset (table_sizes m) \<and> shape v = shape (hd (data_vars m)) \<and>
       data_type v \<in> {''int64'', ''float32'', ''float64''} \<and>
       (dimensions v = None \<or> dimensions v = Some (table_names m))) (data_vars m)"

definition holds_table :: "('f, 'v) zarr_store \<Rightarrow> 'f ZarrStoreMeta \<Rightarrow> (string \<Rightarrow> nat list \<Rightarrow> 'v) \<Rightarrow> bool" where
  "holds_table st m data \<longleftrightarrow>
     list_all (\<lambda>v. open_shape st (meta_name v) = Inr (shape v) \<and>
       row_major_store (elements st (zarr_dtype_to_arrow (data_type v))) (meta_name v) (shape v) (data (meta_name v))) (data_vars m)"

text \<open>Discovery puts the coordinates in the order of the dimensions.\<close>

lemma separated_sizes:
  assumes "find (\<lambda>v. mset (shape v) = mset (table_sizes m)) (data_vars m) = Some v"
    "m = separate_and_sort_arrays fl rd arrays \<or> m = separate_and_sort_arrays_async arrays"
  shows "table_sizes m = shape v"
proof -
  let ?cs = "filter is_coordinate arrays"
  have o: "table_sizes m = map axis_len (infer_coord_order_from_data_vars ?cs (data_vars m))"
    using assms(2) by (auto simp: table_sizes_def separate_local(1) separated(1) comp_def)
  then have "mset (table_sizes m) = mset (map axis_len ?cs)" using infer_order [of ?cs "data_vars m"] by simp
  then show ?thesis
    using assms(1) o infer_order [of ?cs "data_vars m"] by (auto simp: dimension_order_def)
qed

lemma discovered_sizes:
  assumes "discover_arrays fl rd parse st = Inr m" "regular_table m" "data_vars m \<noteq> []"
  shows "list_all (\<lambda>v. shape v = table_sizes m) (data_vars m)"
proof -
  obtain arrays where "m = separate_and_sort_arrays fl rd arrays \<or> m = separate_and_sort_arrays_async arrays"
    using assms(1) by (auto simp: discover_arrays_def discover_arrays_from_zmetadata_def discover_arrays_v2_def
      discover_arrays_v3_def no_stats_eq_async split: sum.splits option.splits ZarrVersion.splits if_splits)
  moreover have "find (\<lambda>v. mset (shape v) = mset (table_sizes m)) (data_vars m) = Some (hd (data_vars m))"
    using assms(2,3) by (cases "data_vars m") (auto simp: regular_table_def)
  ultimately have "table_sizes m = shape (hd (data_vars m))" using separated_sizes by blast
  then show ?thesis using assms(2) by (auto simp: regular_table_def list_all_iff)
qed

lemma built_columns:
  "table_columns (build_schema_from_store_meta m) =
    map (\<lambda>c. (meta_name c, coord_type c)) (coords m) @ map (\<lambda>v. (meta_name v, zarr_dtype_to_arrow (data_type v))) (data_vars m)"
  by (simp add: table_columns_def build_schema_from_store_meta_def comp_def)

lemma distinct_position:
  assumes "distinct xs" "i < length xs"
  shows "position (\<lambda>n. n = xs ! i) xs = Some i"
  by (rule position_eqI) (use assms in \<open>auto simp: nth_eq_iff_index_eq\<close>)

lemma wide_types:
  "zarr_dtype_to_arrow ''int64'' = Int64" "zarr_dtype_to_arrow ''float32'' = Float32" "zarr_dtype_to_arrow ''float64'' = Float64"
  by (simp_all add: zarr_dtype_to_arrow_def)

lemma element_type_wide:
  assumes "d \<in> {''int64'', ''float32'', ''float64''}"
  shows "element_type (zarr_dtype_to_arrow d) = zarr_dtype_to_arrow d"
proof -
  have "d = ''int64'' \<or> d = ''float32'' \<or> d = ''float64''" using assms by blast
  then have "zarr_dtype_to_arrow d = Int64 \<or> zarr_dtype_to_arrow d = Float32 \<or> zarr_dtype_to_arrow d = Float64"
    by (elim disjE) (simp_all only: wide_types simp_thms)
  then show ?thesis by (auto simp: element_type_def)
qed

lemma discovered_field_ok:
  assumes wf: "list_all is_coordinate (coords m)" and reg: "regular_table m" and st: "holds_table st m data"
    and sh: "list_all (\<lambda>v. shape v = table_sizes m) (data_vars m)"
    and ctx: "ctx_coord_names ctx = table_names m" "ctx_coord_sizes ctx = table_sizes m" "ctx_store ctx = st"
    and i: "i < length (table_columns (build_schema_from_store_meta m))"
  shows "field_ok ctx data (coord_value_type m) (table_columns (build_schema_from_store_meta m) ! i)"
proof (cases "i < length (coords m)")
  case True
  let ?c = "coords m ! i"
  have c: "is_coordinate ?c" using wf True by (simp add: list_all_length)
  have f: "table_columns (build_schema_from_store_meta m) ! i = (meta_name ?c, coord_type ?c)"
    using True by (simp add: built_columns nth_append)
  have "table_names m ! i = meta_name ?c" using True by (simp add: table_names_def)
  then have p: "position (\<lambda>n. n = meta_name ?c) (table_names m) = Some i"
    using distinct_position [of "table_names m" i] reg True by (simp add: regular_table_def table_names_def)
  obtain vt where "coord_type ?c = Dictionary (dictionary_key_type_for_cardinality (axis_len ?c)) vt"
    using coord_type_dictionary [OF c] by blast
  then have "dictionary_ok (coord_type ?c) (coord_value_type m i) (table_sizes m ! i)"
    using True by (simp add: coord_value_type_def table_sizes_def)
  then show ?thesis using f p ctx by (simp add: field_ok_def)
next
  case False
  let ?v = "data_vars m ! (i - length (coords m))"
  have k: "i - length (coords m) < length (data_vars m)" using False i by (simp add: built_columns)
  then have v: "?v \<in> set (data_vars m)" by simp
  have f: "table_columns (build_schema_from_store_meta m) ! i = (meta_name ?v, zarr_dtype_to_arrow (data_type ?v))"
    using False k by (simp add: built_columns nth_append)
  have "meta_name ?v \<notin> set (table_names m)" using reg v by (auto simp: regular_table_def)
  then have p: "position (\<lambda>n. n = meta_name ?v) (table_names m) = None" by (auto simp: position_None)
  have "data_type ?v \<in> {''int64'', ''float32'', ''float64''}" using reg v by (auto simp: regular_table_def list_all_iff)
  note e = element_type_wide [OF this]
  have "open_shape st (meta_name ?v) = Inr (table_sizes m) \<and>
      row_major_store (elements st (zarr_dtype_to_arrow (data_type ?v))) (meta_name ?v) (table_sizes m) (data (meta_name ?v))"
    using st sh v by (auto simp: holds_table_def list_all_iff)
  then show ?thesis using f p e ctx by (simp add: field_ok_def)
qed

text \<open>A variable of a regular table spans all coordinates, by name or by size.\<close>

lemma first_unused_next:
  assumes "k < length sizes" "used = replicate k True @ replicate (length sizes - k) False"
  shows "first_unused used sizes (sizes ! k) = Some k"
  unfolding first_unused_def
  by (rule position_eqI) (use assms in \<open>auto simp: nth_append\<close>)

lemma match_shape_all: "match_shape_to_coords sizes sizes = [0..<length sizes]"
proof -
  have "match_shape_loop sizes (drop k sizes) [0..<k] (replicate k True @ replicate (length sizes - k) False) = [0..<length sizes]"
    if "k \<le> length sizes" for k
    using that
  proof (induction "length sizes - k" arbitrary: k)
    case (Suc n)
    then have k: "k < length sizes" by simp
    obtain j where j: "length sizes - k = Suc j" "length sizes - Suc k = j" using Suc.hyps(2) by (metis Suc_diff_Suc k nat.inject)
    have u: "(replicate k True @ replicate (length sizes - k) False)[k := True] =
        replicate (Suc k) True @ replicate (length sizes - Suc k) False"
      unfolding j by (simp add: list_update_append replicate_app_Cons_same)
    have "match_shape_loop sizes (drop (Suc k) sizes) [0..<Suc k] (replicate (Suc k) True @ replicate (length sizes - Suc k) False) =
        [0..<length sizes]"
      using Suc k by (intro Suc.hyps(1)) simp_all
    then show ?case
      using first_unused_next [OF k refl] u k by (simp add: Cons_nth_drop_Suc [symmetric])
  qed simp
  from this [of 0] show ?thesis by (simp add: match_shape_to_coords_def)
qed

lemma regular_spans:
  assumes "regular_table m" "v \<in> set (data_vars m)" "shape v = table_sizes m"
  shows "get_variable_coords (shape v) (dimensions v) (table_names m) (table_sizes m) = [0..<length (coords m)]"
proof (cases "dimensions v")
  case None
  then show ?thesis using assms(3) match_shape_all [of "table_sizes m"] by (simp add: get_variable_coords_def table_sizes_def)
next
  case (Some dims)
  then have d: "dims = table_names m" using assms(1,2) by (auto simp: regular_table_def list_all_iff)
  have "List.map_filter (\<lambda>d. position (\<lambda>c. c = d) (table_names m)) (table_names m) = [0..<length (table_names m)]"
  proof -
    have "map (\<lambda>d. position (\<lambda>c. c = d) (table_names m)) (table_names m) = map Some [0..<length (table_names m)]"
      using assms(1) by (intro nth_equalityI) (auto simp: distinct_position regular_table_def)
    moreover have "List.map_filter f xs = ys" if "map f xs = map Some ys" for f :: "string \<Rightarrow> nat option" and xs ys
      using that by (induction xs arbitrary: ys) (auto simp: List.map_filter_simps)
    ultimately show ?thesis by blast
  qed
  then show ?thesis using Some d by (simp add: get_variable_coords_def table_names_def)
qed

lemma column_name:
  assumes "i < length (coords m) + length (data_vars m)"
  shows "projected_name (table_columns (build_schema_from_store_meta m)) i =
    (if i < length (coords m) then table_names m ! i else meta_name (data_vars m ! (i - length (coords m))))"
  using assms by (simp add: projected_name_def built_columns nth_append table_names_def)

lemma find_by_name:
  "distinct (map meta_name vs) \<Longrightarrow> v \<in> set vs \<Longrightarrow> find (\<lambda>w. meta_name w = meta_name v) vs = Some v"
  by (induction vs) auto

text \<open>A projection with a variable of a regular table uses all coordinates.\<close>

lemma regular_projection:
  assumes reg: "regular_table m" and sh: "list_all (\<lambda>v. shape v = table_sizes m) (data_vars m)"
    and pix: "list_all (\<lambda>i. i < length (coords m) + length (data_vars m)) pix" "list_ex (\<lambda>i. length (coords m) \<le> i) pix"
  shows "spans_all_coords m (table_columns (build_schema_from_store_meta m)) pix (table_sizes m) limit"
proof -
  let ?name = "projected_name (table_columns (build_schema_from_store_meta m))"
  let ?vars = "filter (\<lambda>n. n \<notin> set (table_names m)) (map ?name pix)"
  have name: "\<exists>v \<in> set (data_vars m). ?name i = meta_name v" if "i \<in> set pix" "?name i \<notin> set (table_names m)" for i
  proof -
    have i: "i < length (coords m) + length (data_vars m)" using that(1) pix(1) by (auto simp: list_all_iff)
    then have "\<not> i < length (coords m)" using that(2) column_name [OF i] by (auto simp: table_names_def)
    then show ?thesis using i column_name [OF i] by (intro bexI [of _ "data_vars m ! (i - length (coords m))"]) auto
  qed
  obtain i where i: "i \<in> set pix" "length (coords m) \<le> i" using pix(2) by (auto simp: list_ex_iff)
  then have il: "i < length (coords m) + length (data_vars m)" using pix(1) by (auto simp: list_all_iff)
  then have "data_vars m ! (i - length (coords m)) \<in> set (data_vars m)" using i(2) by auto
  then have "?name i \<notin> set (table_names m)" using reg i(2) column_name [OF il] by (auto simp: regular_table_def)
  then have ne: "?vars \<noteq> []" using i(1) by (auto simp: filter_empty_conv)
  let ?all = "[0..<length (coords m)]"
  have one: "map_option (\<lambda>w. (n, get_variable_coords (shape w) (dimensions w) (table_names m) (table_sizes m)))
      (find (\<lambda>w. meta_name w = n) (data_vars m)) = Some (n, ?all)" if n: "n \<in> set ?vars" for n
  proof -
    obtain v where v: "v \<in> set (data_vars m)" "n = meta_name v" using n name by auto
    have "find (\<lambda>w. meta_name w = n) (data_vars m) = Some v"
      unfolding v(2) by (rule find_by_name [OF _ v(1)]) (use reg in \<open>simp add: regular_table_def\<close>)
    moreover have "shape v = table_sizes m" using sh v(1) by (simp add: list_all_iff)
    ultimately show ?thesis using regular_spans [OF reg v(1)] by simp
  qed
  have "variable_coord_sets ?vars (data_vars m) (table_names m) (table_sizes m) = List.map_filter (\<lambda>n. Some (n, ?all)) ?vars"
    unfolding variable_coord_sets_def using one by (intro map_filter_cong) auto
  also have "\<dots> = map (\<lambda>n. (n, ?all)) ?vars" by (simp add: List.map_filter_def)
  finally have v: "variable_coord_sets ?vars (data_vars m) (table_names m) (table_sizes m) = map (\<lambda>n. (n, ?all)) ?vars" .
  obtain n ns where ns: "?vars = n # ns" using ne by (cases ?vars) auto
  have "determine_effective_coords ?vars (filter (\<lambda>n. n \<in> set (table_names m)) (map ?name pix)) (data_vars m)
      (table_names m) (table_sizes m) limit = Inr ?all"
    using ne v unfolding determine_effective_coords_def ns by (simp add: list_all_iff)
  then show ?thesis by (simp add: spans_all_coords_def table_names_def table_sizes_def)
qed

lemma discovered_sound:
  assumes disc: "discover_arrays fl rd parse dir = Inr m" and reg: "regular_table m" and st: "holds_table st m data"
    and pix: "list_all (\<lambda>i. i < length (coords m) + length (data_vars m)) pix"
    and ne: "data_vars m \<noteq> []"
  shows "sound_ctx (full_ctx st m (table_columns (build_schema_from_store_meta m)) pix (table_sizes m)) data (coord_value_type m)"
proof -
  let ?schema = "table_columns (build_schema_from_store_meta m)"
  let ?ctx = "full_ctx st m ?schema pix (table_sizes m)"
  have co: "list_all is_coordinate (coords m)" using discover_arrays_wf [OF disc] by (simp add: meta_wf_def)
  have sh: "list_all (\<lambda>v. shape v = table_sizes m) (data_vars m)" using discovered_sizes [OF disc reg ne] .
  have len: "length ?schema = length (coords m) + length (data_vars m)" by (simp add: built_columns)
  have f: "field_ok ?ctx data (coord_value_type m) (?schema ! i)" if "i < length ?schema" for i
    by (rule discovered_field_ok [OF co reg st sh _ _ _ that]) (simp_all add: full_ctx_def table_names_def)
  have "length (table_sizes m) = length (coords m)" by (simp add: table_sizes_def)
  moreover have "build_projected_schema ?schema pix (map meta_name (coords m)) [0..<length (table_sizes m)] = map ((!) ?schema) pix"
  proof -
    have "(case position (\<lambda>n. n = projected_name ?schema i) (map meta_name (coords m)) of
        Some ci \<Rightarrow> if ci \<in> set [0..<length (table_sizes m)] then Some (?schema ! i) else None | None \<Rightarrow> Some (?schema ! i)) =
      Some (?schema ! i)" for i
      using position_Some [of "\<lambda>n. n = projected_name ?schema i" "map meta_name (coords m)"]
      by (auto simp: table_sizes_def split: option.split)
    then show ?thesis by (simp only: build_projected_schema_def) (simp add: List.map_filter_def comp_def)
  qed
  ultimately show ?thesis using f pix len by (simp add: sound_ctx_def list_all_iff) (simp add: full_ctx_def)
qed

section \<open>Properties\<close>


abbreviation demo_table :: "rat ZarrStoreMeta" where
  "demo_table \<equiv> separate_and_sort_arrays exact_f64 demo_reader demo_arrays"

definition demo_files :: "(rat, nat list) zarr_store" where
  "demo_files = \<lparr>open_shape = (\<lambda>name. Inr [3, 2]), elements = (\<lambda>dt. demo_retrieve),
     coord_elements = \<lparr>retrieve_float = (\<lambda>name sub. Inl Panic), retrieve_int = (\<lambda>name sub. Inr [0])\<rparr>\<rparr>"

definition demo_coords :: "nat \<Rightarrow> nat \<Rightarrow> (rat, nat list) Cell" where
  "demo_coords i p = Float64Cell (if i = 0 then 10 * rat_of_nat p else rat_of_nat p)"


end
