(* ===== verification/Zarr_Table.thy ===== *)
theory Zarr_Table
  imports Scan_Select Distributed Discovered_Scan
begin

text \<open>
  The table provider (\<open>src/datasource/zarr.rs\<close>): the table and its constructors, what it says about filters, the
  planning of a scan and the statistics it offers to the optimizer; and the logical codec of
  \<open>src/physical_plan/codec.rs\<close>.  The theorem states what the statistics offered
  as exact say of the data; what a planned query reads is in \<open>Planned_Query\<close>.
\<close>

section \<open>The table\<close>

text \<open>Open stores and adapters are handles, as in the scan node.\<close>

record 'f ZarrTable =
  zt_schema :: "(string \<times> DataType) list"
  zt_path :: string
  zt_cached_remote :: "'f ZarrStoreMeta option"
  zt_store_meta :: "'f ZarrStoreMeta option"
  zt_cached_virtualizarr :: "nat option"
  zt_store_kind :: StoreKind

definition ZarrTable_new :: "(string \<times> DataType) list \<Rightarrow> string \<Rightarrow> 'f ZarrTable" where
  "ZarrTable_new schema path =
     \<lparr>zt_schema = schema, zt_path = path, zt_cached_remote = None, zt_store_meta = None, zt_cached_virtualizarr = None,
      zt_store_kind = ZarrKind\<rparr>"

definition with_metadata :: "(string \<times> DataType) list \<Rightarrow> string \<Rightarrow> 'f ZarrStoreMeta \<Rightarrow> 'f ZarrTable" where
  "with_metadata schema path metadata =
     \<lparr>zt_schema = schema, zt_path = path, zt_cached_remote = None, zt_store_meta = Some metadata, zt_cached_virtualizarr = None,
      zt_store_kind = ZarrKind\<rparr>"

definition with_cached_remote :: "(string \<times> DataType) list \<Rightarrow> string \<Rightarrow> 'f ZarrStoreMeta \<Rightarrow> 'f ZarrTable" where
  "with_cached_remote schema path metadata =
     \<lparr>zt_schema = schema, zt_path = path, zt_cached_remote = Some metadata, zt_store_meta = Some metadata,
      zt_cached_virtualizarr = None, zt_store_kind = ZarrKind\<rparr>"

definition with_remote_virtualizarr :: "(string \<times> DataType) list \<Rightarrow> string \<Rightarrow> nat \<Rightarrow> 'f ZarrStoreMeta \<Rightarrow> 'f ZarrTable" where
  "with_remote_virtualizarr schema path adapter metadata =
     \<lparr>zt_schema = schema, zt_path = path, zt_cached_remote = None, zt_store_meta = Some metadata,
      zt_cached_virtualizarr = Some adapter, zt_store_kind = ZarrKind\<rparr>"

definition with_cached_icechunk :: "(string \<times> DataType) list \<Rightarrow> string \<Rightarrow> string \<Rightarrow> 'f ZarrStoreMeta \<Rightarrow> bool \<Rightarrow> 'f ZarrTable" where
  "with_cached_icechunk schema path prefix metadata anonymous =
     \<lparr>zt_schema = schema, zt_path = path, zt_cached_remote = Some metadata, zt_store_meta = Some metadata,
      zt_cached_virtualizarr = None, zt_store_kind = IcechunkKind (if prefix = [] then None else Some prefix) anonymous\<rparr>"

section \<open>Planning a scan\<close>

datatype FilterPushDown = ExactFilter | InexactFilter

definition supports_filters_pushdown :: "'f cast \<Rightarrow> 'f Expr list \<Rightarrow> FilterPushDown list" where
  "supports_filters_pushdown conv filters =
     map (\<lambda>f. if is_date_part_filter conv f then ExactFilter else InexactFilter) filters"

text \<open>The filters of the coordinates; none when there is no metadata or no supported filter.\<close>

definition table_filters :: "'f cast \<Rightarrow> 'f ZarrTable \<Rightarrow> 'f Expr list \<Rightarrow> 'f CoordFilters option" where
  "table_filters conv t filters =
     Option.bind (zt_store_meta t) (\<lambda>meta.
       let parsed = parse_coord_filters conv filters (map meta_name (coords meta))
       in if filters_is_empty parsed then None else Some parsed)"

text \<open>
  The outer selection on the head: through the cached store, for a local table from the file system.  A remote
  path without a cached store is not resolved.
\<close>

definition resolve_outer ::
    "'f ZarrTable \<Rightarrow> (OuterSelection read_result) \<Rightarrow> (OuterSelection read_result) \<Rightarrow> OuterSelection read_result" where
  "resolve_outer t from_cached from_path =
     (if zt_cached_remote t \<noteq> None then from_cached
      else if is_remote_url (zt_path t) then Inr Unfiltered
      else from_path)"

text \<open>A scan; \<open>None\<close> is the panic of a projection out of range.\<close>

definition table_scan ::
    "'f cast \<Rightarrow> (string \<Rightarrow> bool) \<Rightarrow> ('f ZarrStoreMeta \<Rightarrow> 'f CoordFilters option \<Rightarrow> OuterSelection read_result) \<Rightarrow>
     ('f ZarrStoreMeta \<Rightarrow> 'f CoordFilters option \<Rightarrow> OuterSelection read_result) \<Rightarrow> nat \<Rightarrow> 'f ZarrTable \<Rightarrow> nat list option \<Rightarrow>
     'f Expr list \<Rightarrow> nat option \<Rightarrow> 'f ZarrExec option" where
  "table_scan conv is_virtualizarr resolve_cached resolve_path target_partitions t projection filters limit =
     (let fs = table_filters conv t filters;
          outer_result = (case zt_store_meta t of None \<Rightarrow> Inr Unfiltered
            | Some meta \<Rightarrow> resolve_outer t (resolve_cached meta fs) (resolve_path meta fs));
          specs = plan_scan_partitions limit (is_virtualizarr (zt_path t)) (zt_store_meta t) target_partitions fs outer_result
      in Option.bind (ZarrExec_new (zt_schema t) (zt_path t) projection limit (zt_cached_remote t) fs (zt_cached_virtualizarr t)) (\<lambda>z.
         map_option (\<lambda>z. with_store_kind (with_store_meta z (zt_store_meta t)) (zt_store_kind t)) (with_partitions z specs)))"

section \<open>Statistics\<close>

datatype 'a Precision = Exactly 'a | Inexactly 'a | Absent

record 'f ColumnStatistics =
  null_count :: "nat Precision"
  min_value :: "'f ScalarValue Precision"
  max_value :: "'f ScalarValue Precision"
  distinct_count :: "nat Precision"

record 'f Statistics =
  num_rows :: "nat Precision"
  column_statistics :: "'f ColumnStatistics list"

text \<open>A float cast to an integer type is truncated and saturates.\<close>

definition saturate :: "int \<Rightarrow> int \<Rightarrow> int \<Rightarrow> int" where
  "saturate lo hi n = max lo (min n hi)"

definition scalar_from_f64 :: "'f F64 \<Rightarrow> 'f \<Rightarrow> DataType \<Rightarrow> 'f ScalarValue" where
  "scalar_from_f64 fl x dt =
     (case dt of
        Float32 \<Rightarrow> SFloat32 (Some (f_to_f32 fl x))
      | Int64 \<Rightarrow> SInt64 (Some (saturate (- (2 ^ 63)) (2 ^ 63 - 1) (f_trunc fl x)))
      | Int32 \<Rightarrow> SInt32 (Some (saturate (- (2 ^ 31)) (2 ^ 31 - 1) (f_trunc fl x)))
      | Int16 \<Rightarrow> SInt16 (Some (saturate (- (2 ^ 15)) (2 ^ 15 - 1) (f_trunc fl x)))
      | UInt64 \<Rightarrow> SUInt64 (Some (nat (saturate 0 (2 ^ 64 - 1) (f_trunc fl x))))
      | UInt32 \<Rightarrow> SUInt32 (Some (nat (saturate 0 (2 ^ 32 - 1) (f_trunc fl x))))
      | _ \<Rightarrow> SFloat64 (Some x))"

definition scalar_values_from_f64 :: "'f F64 \<Rightarrow> 'f \<Rightarrow> 'f \<Rightarrow> DataType \<Rightarrow> 'f ScalarValue \<times> 'f ScalarValue" where
  "scalar_values_from_f64 fl mn mx dt = (scalar_from_f64 fl mn dt, scalar_from_f64 fl mx dt)"

definition no_statistics :: "'f ColumnStatistics" where
  "no_statistics = \<lparr>null_count = Exactly 0, min_value = Absent, max_value = Absent, distinct_count = Absent\<rparr>"

definition column_statistics_of :: "'f F64 \<Rightarrow> 'f ZarrStoreMeta \<Rightarrow> string \<times> DataType \<Rightarrow> 'f ColumnStatistics" where
  "column_statistics_of fl meta = (\<lambda>(name, dt).
     case Option.bind (find (\<lambda>c. meta_name c = name) (coords meta)) (\<lambda>c. map_option (Pair c) (coord_min_max c)) of
       None \<Rightarrow> no_statistics
     | Some (c, mn, mx) \<Rightarrow>
         let (mn', mx') = scalar_values_from_f64 fl mn mx (case dt of Dictionary k v \<Rightarrow> v | _ \<Rightarrow> dt)
         in \<lparr>null_count = Exactly 0, min_value = Exactly mn', max_value = Exactly mx', distinct_count = Exactly (hd (shape c))\<rparr>)"

definition statistics :: "'f F64 \<Rightarrow> 'f ZarrTable \<Rightarrow> 'f Statistics option" where
  "statistics fl t =
     map_option (\<lambda>meta. \<lparr>num_rows = Exactly (total_rows meta),
       column_statistics = map (column_statistics_of fl meta) (zt_schema t)\<rparr>) (zt_store_meta t)"

section \<open>The logical codec\<close>

record 'f ZarrTableDto =
  dto_table_path :: string
  dto_store_meta :: "'f ZarrStoreMeta option"

definition try_encode_table_provider :: "('f ZarrTableDto \<Rightarrow> 'w option) \<Rightarrow> 'f ZarrTable \<Rightarrow> 'w option" where
  "try_encode_table_provider encode t = encode \<lparr>dto_table_path = zt_path t, dto_store_meta = zt_store_meta t\<rparr>"

definition try_decode_table_provider ::
    "('w \<Rightarrow> 'f ZarrTableDto option) \<Rightarrow> 'w \<Rightarrow> (string \<times> DataType) list \<Rightarrow> 'f ZarrTable option" where
  "try_decode_table_provider decode buf schema =
     map_option (\<lambda>dto. case dto_store_meta dto of
         Some meta \<Rightarrow> with_metadata schema (dto_table_path dto) meta
       | None \<Rightarrow> ZarrTable_new schema (dto_table_path dto)) (decode buf)"

section \<open>Properties\<close>

lemma find_named:
  assumes "distinct (map meta_name cs)" "i < length cs"
  shows "find (\<lambda>c. meta_name c = meta_name (cs ! i)) cs = Some (cs ! i)"
  using assms
proof (induction cs arbitrary: i)
  case (Cons c cs)
  show ?case
  proof (cases i)
    case (Suc j)
    then have "meta_name (cs ! j) \<in> set (map meta_name cs)" using Cons.prems by simp
    then have "meta_name c \<noteq> meta_name (cs ! j)" using Cons.prems by auto
    then show ?thesis using Cons Suc by simp
  qed simp
qed simp

lemma min_max_exact: "vs \<noteq> [] \<Longrightarrow> min_max vs = Some (Min (set vs), Max (set vs))"
  by (cases vs) (simp_all add: min_max_def flip: Min.set_eq_fold Max.set_eq_fold)

text \<open>The cells of a table, one row each.\<close>

definition table_cells :: "'f ZarrStoreMeta \<Rightarrow> nat list set" where
  "table_cells m = listset (map (\<lambda>c. {0..<axis_len c}) (coords m))"

text \<open>Where the statistics of a coordinate come from: its values, as the local discovery reads them.\<close>

definition coord_extremes :: "('f :: linorder) F64 \<Rightarrow> 'f coord_reader \<Rightarrow> 'f ZarrArrayMeta \<Rightarrow> 'f ScalarValue \<Rightarrow> 'f ScalarValue \<Rightarrow> bool" where
  "coord_extremes fl rd c lo hi \<longleftrightarrow>
     (\<exists>vs. vs \<noteq> [] \<and> data_type c = ''float64'' \<and> read_floats rd (meta_name c) (data_type c) = Some vs \<and>
       lo = SFloat64 (Some (Min (set vs))) \<and> hi = SFloat64 (Some (Max (set vs)))) \<or>
     (\<exists>vs. vs \<noteq> [] \<and> data_type c = ''int64'' \<and> read_ints rd (meta_name c) (data_type c) = Some vs \<and>
       (\<forall>v \<in> set vs. i64_range v \<and> f_trunc fl (f_of_int fl v) = v) \<and>
       lo = SInt64 (Some (Min (set vs))) \<and> hi = SInt64 (Some (Max (set vs))))"

lemma coord_statistics_exact:
  assumes "coord_extremes fl rd c lo hi" "cf_time_attrs c = None"
  shows "\<exists>mn mx kt vt. coord_min_max (set_min_max fl rd c) = Some (mn, mx) \<and> coord_type c = Dictionary kt vt \<and>
    scalar_values_from_f64 fl mn mx vt = (lo, hi)"
  using assms(1) unfolding coord_extremes_def
proof (elim disjE exE conjE)
  fix vs assume v: "vs \<noteq> []" "data_type c = ''float64''" "read_floats rd (meta_name c) (data_type c) = Some vs"
      "lo = SFloat64 (Some (Min (set vs)))" "hi = SFloat64 (Some (Max (set vs)))"
  have "coord_min_max (set_min_max fl rd c) = Some (Min (set vs), Max (set vs))"
    using v(2,3) min_max_exact [OF v(1)] by (simp add: set_min_max_def compute_coord_min_max_def)
  moreover have "\<exists>kt. coord_type c = Dictionary kt Float64"
    using v(2) assms(2) by (simp add: coord_type_def zarr_dtype_to_arrow_dictionary_def zarr_dtype_to_arrow_def Let_def)
  ultimately show ?thesis using v(4,5) by (fastforce simp: scalar_values_from_f64_def scalar_from_f64_def)
next
  fix vs assume v: "vs \<noteq> []" "data_type c = ''int64''" "read_ints rd (meta_name c) (data_type c) = Some vs"
      "\<forall>v \<in> set vs. i64_range v \<and> f_trunc fl (f_of_int fl v) = v"
      "lo = SInt64 (Some (Min (set vs)))" "hi = SInt64 (Some (Max (set vs)))"
  have "coord_min_max (set_min_max fl rd c) = Some (f_of_int fl (Min (set vs)), f_of_int fl (Max (set vs)))"
    using v(2,3) min_max_exact [OF v(1)] by (simp add: set_min_max_def compute_coord_min_max_def)
  moreover have "\<exists>kt. coord_type c = Dictionary kt Int64"
    using v(2) assms(2) by (simp add: coord_type_def zarr_dtype_to_arrow_dictionary_def zarr_dtype_to_arrow_def Let_def)
  moreover have "Min (set vs) \<in> set vs" "Max (set vs) \<in> set vs" using v(1) by simp_all
  then have "i64_range (Min (set vs)) \<and> f_trunc fl (f_of_int fl (Min (set vs))) = Min (set vs)"
    "i64_range (Max (set vs)) \<and> f_trunc fl (f_of_int fl (Max (set vs))) = Max (set vs)" using v(4) by blast+
  then have "scalar_values_from_f64 fl (f_of_int fl (Min (set vs))) (f_of_int fl (Max (set vs))) Int64 = (lo, hi)"
    by (simp add: scalar_values_from_f64_def scalar_from_f64_def saturate_def i64_range_def v(5,6))
  ultimately show ?thesis by blast
qed


definition demo_named :: "string \<Rightarrow> nat list \<Rightarrow> string \<Rightarrow> rat ZarrArrayMeta" where
  "demo_named n sh ty = \<lparr>meta_name = n, data_type = ty, shape = sh, chunks = None, coord_min_max = None, cf_time_attrs = None,
     dimensions = None\<rparr>"

definition demo_levels :: "rat ZarrArrayMeta list" where
  "demo_levels = [demo_named ''lev'' [3] ''int64'', demo_named ''x'' [2] ''float64'', demo_named ''t'' [3, 2] ''float64'']"

definition demo_level_reader :: "rat coord_reader" where
  "demo_level_reader = \<lparr>read_floats = (\<lambda>n ty. Some [0, 1]), read_ints = (\<lambda>n ty. Some [1000, 850, 500])\<rparr>"

definition demo_level_meta :: "rat ZarrStoreMeta" where
  "demo_level_meta = separate_and_sort_arrays exact_f64 demo_level_reader demo_levels"

lemma demo_level_coords:
  "map meta_name (coords demo_level_meta) = [''lev'', ''x'']" "map axis_len (coords demo_level_meta) = [3, 2]"
proof -
  have "map meta_name (infer_coord_order_from_data_vars (filter is_coordinate demo_levels)
      (sort_by_name (filter (\<lambda>a. \<not> is_coordinate a) demo_levels))) = [''lev'', ''x'']"
    "map axis_len (infer_coord_order_from_data_vars (filter is_coordinate demo_levels)
      (sort_by_name (filter (\<lambda>a. \<not> is_coordinate a) demo_levels))) = [3, 2]"
    by code_simp+
  then show "map meta_name (coords demo_level_meta) = [''lev'', ''x'']" "map axis_len (coords demo_level_meta) = [3, 2]"
    by (simp_all add: demo_level_meta_def separate_local(1,2) comp_def)
qed

definition demo_level_table :: "rat ZarrTable" where
  "demo_level_table = with_metadata (table_columns (build_schema_from_store_meta demo_level_meta)) ''store'' demo_level_meta"


end
