(* ===== verification/Planned_Query.thy ===== *)
theory Planned_Query
  imports Zarr_Table
begin

text \<open>
  A query from its planning on the head to its workers (\<open>src/datasource/zarr.rs\<close>, \<open>src/reader/zarr_reader.rs\<close>): the filters
  extracted from the WHERE clause, the outer selection resolved on the head, the boxes of the plan and the
  selections every worker derives from its box.  The lemmas show that every row of the query is read by
  exactly one worker.
\<close>

section \<open>The selections of a worker\<close>

text \<open>
  The part of \<open>read_zarr\<close> up to the selections: the sizes, the values and the selections; the inner option is
  \<open>None\<close> when a filter matches nothing.
\<close>

definition worker_selections ::
    "'f::{linorder,zero} F64 \<Rightarrow> (int \<Rightarrow> DateTime option) \<Rightarrow> (string \<Rightarrow> string \<Rightarrow> int option) \<Rightarrow> ('f, 'v) zarr_store \<Rightarrow>
     'f ZarrStoreMeta \<Rightarrow> 'f CoordFilters option \<Rightarrow> CoordSelection option \<Rightarrow> (nat \<times> CoordSelection) list \<Rightarrow>
     (nat list \<times> 'f CoordValues list \<times> CoordSelection list option) option read_result" where
  "worker_selections fl decode chrono st meta fs selection ex =
     (let names = map meta_name (coords meta);
          outer_idx = (if selection = None then None else identify_outer_coord meta)
      in case collect_results (map (read_coord fl chrono st outer_idx selection) (enumerate 0 (coords meta))) of
           Inl e \<Rightarrow> Inl e
         | Inr cs \<Rightarrow>
             Inr (map_option (\<lambda>ranges. (map fst cs, map snd cs, apply_partition_selection ranges selection ex meta (map fst cs)))
               (case fs of
                  None \<Rightarrow> Some None
                | Some fs \<Rightarrow> map_option Some (calculate_coord_ranges fl decode
                    (filters_without_outer fs outer_idx names) names (map coord_values_to_ref (map snd cs))))))"

text \<open>It is what the scan reads with.\<close>

lemma read_zarr_selections:
  "read_zarr fl decode chrono env enforce st (Inr meta) schema projection limit fs selection ex batch_size budget =
    (case worker_selections fl decode chrono st meta fs selection ex of
       Inl e \<Rightarrow> Inl e
     | Inr None \<Rightarrow> create_empty_result_stream schema projection
     | Inr (Some (sizes, vals, ranges)) \<Rightarrow>
         (case extract_filtered_coords fl vals
            (make_extract_selections ranges (if selection = None then None else identify_outer_coord meta)
              (case (if selection = None then None else identify_outer_coord meta, selection) of
                 (Some _, Some sel) \<Rightarrow> Some (snd (snd (plan_outer_coord_read sel))) | _ \<Rightarrow> None)) of
            None \<Rightarrow> Inl Panic
          | Some values \<Rightarrow>
              let pix = (case projection of Some ixs \<Rightarrow> ixs | None \<Rightarrow> [0..<length schema]) in
              if \<not> list_all (\<lambda>i. i < length schema) pix then Inl Panic
              else scan_batches fl env enforce st meta schema pix limit batch_size budget sizes ranges values))"
  by (simp add: read_zarr_def worker_selections_def Let_def split: sum.split option.split)

section \<open>What a table holds\<close>

text \<open>The positions of its axes in the order of the coordinates: the outer axis is found by its length, the others by name.\<close>

definition planned_axes :: "'f ZarrStoreMeta \<Rightarrow> nat \<Rightarrow> bool" where
  "planned_axes meta oi \<longleftrightarrow>
     list_all is_coordinate (coords meta) \<and> distinct (map meta_name (coords meta)) \<and> identify_outer_coord meta = Some oi \<and>
     (case first_opt (data_vars meta) of None \<Rightarrow> False | Some dv \<Rightarrow>
        (case dimensions dv of None \<Rightarrow> True | Some ds \<Rightarrow> distinct ds) \<and>
        list_all (\<lambda>axis. case coord_index_for_axis dv axis meta of
           None \<Rightarrow> True | Some ci \<Rightarrow> ci \<noteq> oi \<and> axis_len (coords meta ! ci) = shape dv ! axis) [1..<length (shape dv)])"

definition holds_coords ::
    "(string \<Rightarrow> string \<Rightarrow> int option) \<Rightarrow> (rat, 'v) zarr_store \<Rightarrow> rat ZarrStoreMeta \<Rightarrow> rat CoordValues list \<Rightarrow> bool" where
  "holds_coords chrono st meta vals \<longleftrightarrow>
     list_all2 (\<lambda>c v. open_shape st (meta_name c) = Inr (shape c) \<and> ref_len (coord_values_to_ref v) = axis_len c \<and>
       map_result (\<lambda>raw. apply_cf_time_conversion exact_f64 chrono raw (cf_time_attrs c))
         (read_coord_values (coord_elements st) (meta_name c) (full_ranges (shape c)) (data_type c)) = Inr v) (coords meta) vals"

text \<open>The worker can read its slice of the outer coordinate.\<close>

definition slice_readable :: "(rat, 'v) zarr_store \<Rightarrow> rat ZarrStoreMeta \<Rightarrow> nat \<Rightarrow> PartitionSpec \<Rightarrow> bool" where
  "slice_readable st meta oi b \<longleftrightarrow>
     (case plan_outer_coord_read (outer b) of (rs, re, es) \<Rightarrow>
        (\<exists>raw. read_coord_values (coord_elements st) (meta_name (coords meta ! oi)) [(rs, re)] (data_type (coords meta ! oi)) = Inr raw))"

section \<open>Exactly one worker reads a row\<close>

lemma card_cells_spans: "\<forall>s \<in> set sels. sel_wf s \<Longrightarrow> card (cells sels) = spans sels"
  by (simp add: card_cells spans_def)

lemma card_cells_le: "card (cells sels) \<le> spans sels"
proof -
  have "card (cells sels) = prod_list (map (\<lambda>s. card (set (positions s))) sels)"
    by (subst card_listset) (auto simp: comp_def)
  also have "\<dots> \<le> spans sels"
    unfolding spans_def by (induction sels) (auto intro!: mult_le_mono card_length)
  finally show ?thesis .
qed

text \<open>Finite sets whose sizes add up to at most that of their union are disjoint.\<close>

lemma card_Union_list: "card (\<Union> (set Xs)) \<le> sum_list (map card Xs)"
  by (induction Xs) (auto intro: order_trans [OF card_Un_le])

lemma unique_member:
  assumes "\<And>X. X \<in> set Xs \<Longrightarrow> finite X" "sum_list (map card Xs) \<le> card (\<Union> (set Xs))" "x \<in> \<Union> (set Xs)"
  shows "\<exists>!k. k < length Xs \<and> x \<in> Xs ! k"
  using assms
proof (induction Xs)
  case (Cons X Xs)
  let ?U = "\<Union> (set Xs)"
  have fin: "finite X" "finite ?U" using Cons.prems(1) by auto
  have sum: "card X + sum_list (map card Xs) \<le> card (X \<union> ?U)" using Cons.prems(2) by simp
  have un: "card X + card ?U = card (X \<union> ?U) + card (X \<inter> ?U)" by (rule card_Un_Int [OF fin])
  have "card (X \<inter> ?U) = 0" and le: "sum_list (map card Xs) \<le> card ?U" using sum un card_Union_list [of Xs] by linarith+
  then have dis: "X \<inter> ?U = {}" using fin by simp
  show ?case
  proof (cases "x \<in> X")
    case True
    then have "x \<notin> Xs ! k" if "k < length Xs" for k using dis that by (metis IntI UnionI emptyE nth_mem)
    then show ?thesis using True by (intro ex1I [of _ 0]) (auto simp: less_Suc_eq_0_disj nth_Cons split: nat.splits)
  next
    case False
    then have "x \<in> ?U" using Cons.prems(3) by auto
    then obtain k where k: "k < length Xs" "x \<in> Xs ! k" "\<And>j. j < length Xs \<Longrightarrow> x \<in> Xs ! j \<Longrightarrow> j = k"
      using Cons.IH [OF _ le] Cons.prems(1) by auto
    show ?thesis
    proof (rule ex1I [of _ "Suc k"])
      fix j assume "j < length (X # Xs) \<and> x \<in> (X # Xs) ! j"
      then show "j = Suc k" using False k(3) by (cases j) auto
    qed (use k(1,2) in simp)
  qed
next
  case Nil
  from Nil.prems(3) show ?case by simp
qed

lemma covered_once:
  assumes "(\<Sum>b \<leftarrow> specs. spans (sel b)) = card (\<Union>b \<in> set specs. cells (sel b))" "idx \<in> (\<Union>b \<in> set specs. cells (sel b))"
  shows "\<exists>!k. k < length specs \<and> idx \<in> cells (sel (specs ! k))"
proof -
  define Xs where "Xs = map (\<lambda>b. cells (sel b)) specs"
  have "sum_list (map card Xs) \<le> (\<Sum>b \<leftarrow> specs. spans (sel b))"
    unfolding Xs_def by (simp add: comp_def) (rule sum_list_mono, rule card_cells_le)
  also have "\<dots> = card (\<Union> (set Xs))" using assms(1) by (simp add: Xs_def)
  finally have "\<exists>!k. k < length Xs \<and> idx \<in> Xs ! k"
    using assms(2) by (intro unique_member) (auto simp: Xs_def intro!: finite_listset)
  then show ?thesis by (simp add: Xs_def cong: conj_cong)
qed

text \<open>What the plan of a local table hands to its node.\<close>

lemma table_scan_local:
  assumes "table_scan conv is_virtualizarr from_cached from_path target t projection es limit = Some z"
    "zt_store_meta t = Some meta" "zt_cached_remote t = None" "\<not> is_remote_url (zt_path t)"
  shows "coord_filters z = table_filters conv t es"
    "partitions z = plan_scan_partitions limit (is_virtualizarr (zt_path t)) (Some meta) target (table_filters conv t es)
      (from_path meta (table_filters conv t es))"
  using assms by (auto simp: table_scan_def resolve_outer_def ZarrExec_new_def with_partitions_def
      with_store_kind_def with_store_meta_def Let_def bind_eq_Some_conv)

lemma outer_coord_length:
  assumes "identify_outer_coord meta = Some oi"
  shows "\<exists>n. outer_axis_len meta = Some n \<and> axis_len (coords meta ! oi) = n \<and> oi < length (coords meta)"
proof -
  obtain n where n: "outer_axis_len meta = Some n" "position (\<lambda>c. first_opt (shape c) = Some n) (coords meta) = Some oi"
    using assms by (auto simp: identify_outer_coord_def bind_eq_Some_conv)
  then have "first_opt (shape (coords meta ! oi)) = Some n" "oi < length (coords meta)" using position_Some by blast+
  then show ?thesis using n(1) by (cases "shape (coords meta ! oi)") (auto simp: first_opt_def axis_len_def)
qed

lemma filters_get_without_outer:
  assumes "distinct names" "j < length names" "oi < length names"
  shows "filters_get (filters_without_outer fs (Some oi) names) (names ! j) = (if j = oi then None else filters_get fs (names ! j))"
proof -
  have f: "map_of (filter (\<lambda>(c, ks). c \<noteq> x) fs) y = (if y = x then None else map_of fs y)" for x y
    by (induction fs) auto
  have "names ! j = names ! oi \<longleftrightarrow> j = oi" using assms by (simp add: nth_eq_iff_index_eq)
  then show ?thesis by (auto simp: filters_get_def filters_without_outer_def f)
qed

text \<open>The selections of a query on the whole cube: all of the outer axis, and what the filters select of the others.\<close>

definition query_selections ::
    "(int \<Rightarrow> DateTime option) \<Rightarrow> rat CoordFilters \<Rightarrow> string list \<Rightarrow> rat CoordValuesRef list \<Rightarrow> CoordSelection list" where
  "query_selections decode fs names refs =
     map (\<lambda>j. the (resolve_coord_selection exact_f64 decode (filters_get fs (names ! j)) (refs ! j))) [0..<length names]"

lemma resolved_position:
  assumes "coord_ok exact_f64 fs name v" "coord_matches exact_f64 decode fs name v i" "i < ref_len v"
  shows "\<exists>s. resolve_coord_selection exact_f64 decode (filters_get fs name) v = Some s \<and> sel_wf s \<and> i \<in> set (positions s)"
  using resolve_named_exact [OF assms(1), of decode] assms(2,3) by (auto simp: selects_def split: option.splits)

lemma worker_reads:
  assumes st: "holds_coords chrono st meta vals" and oi: "identify_outer_coord meta = Some oi" and b: "slice_readable st meta oi b"
    and co: "list_all is_coordinate (coords meta)"
  shows "\<exists>cs. collect_results (map (read_coord exact_f64 chrono st (Some oi) (Some (outer b))) (enumerate 0 (coords meta))) = Inr cs \<and>
    map fst cs = map axis_len (coords meta) \<and> length cs = length (coords meta) \<and>
    (\<forall>j < length cs. j \<noteq> oi \<longrightarrow> snd (cs ! j) = vals ! j)"
proof -
  let ?r = "read_coord exact_f64 chrono st (Some oi) (Some (outer b))"
  have one: "\<exists>v. ?r (j, coords meta ! j) = Inr (axis_len (coords meta ! j), v) \<and> (j \<noteq> oi \<longrightarrow> v = vals ! j)"
    if j: "j < length (coords meta)" for j
  proof -
    let ?c = "coords meta ! j"
    have h: "open_shape st (meta_name ?c) = Inr (shape ?c)"
      "map_result (\<lambda>raw. apply_cf_time_conversion exact_f64 chrono raw (cf_time_attrs ?c))
         (read_coord_values (coord_elements st) (meta_name ?c) (full_ranges (shape ?c)) (data_type ?c)) = Inr (vals ! j)"
      using st j by (simp_all add: holds_coords_def list_all2_conv_all_nth)
    have "is_coordinate ?c" using co j by (simp add: list_all_length)
    then obtain n where n: "shape ?c = [n]" "axis_len ?c = n"
      by (cases "shape ?c") (auto simp: is_coordinate_def axis_len_def)
    show ?thesis
    proof (cases "j = oi")
      case True
      obtain rs re es where p: "plan_outer_coord_read (outer b) = (rs, re, es)" by (rule prod_cases3)
      then obtain raw where "read_coord_values (coord_elements st) (meta_name ?c) [(rs, re)] (data_type ?c) = Inr raw"
        using b True by (auto simp: slice_readable_def)
      then show ?thesis using h(1) n True p by (simp add: read_coord_def Let_def map_result_def)
    next
      case False
      obtain raw where raw: "read_coord_values (coord_elements st) (meta_name ?c) (full_ranges (shape ?c)) (data_type ?c) = Inr raw"
        "apply_cf_time_conversion exact_f64 chrono raw (cf_time_attrs ?c) = vals ! j"
        using h(2) by (cases "read_coord_values (coord_elements st) (meta_name ?c) (full_ranges (shape ?c)) (data_type ?c)") (auto simp: map_result_def)
      then show ?thesis using h(1) n False by (simp add: read_coord_def Let_def map_result_def)
    qed
  qed
  define cs where "cs = map (\<lambda>j. projr (?r (j, coords meta ! j))) [0..<length (coords meta)]"
  have cs: "?r (j, coords meta ! j) = Inr (cs ! j) \<and> fst (cs ! j) = axis_len (coords meta ! j) \<and> (j \<noteq> oi \<longrightarrow> snd (cs ! j) = vals ! j)"
    if "j < length (coords meta)" for j
    using one [OF that] that by (auto simp: cs_def)
  have l: "length cs = length (coords meta)" by (simp add: cs_def)
  have "map ?r (enumerate 0 (coords meta)) = map Inr cs"
    by (rule nth_equalityI) (simp_all add: nth_enumerate_eq cs l)
  moreover have "map fst cs = map axis_len (coords meta)" by (rule nth_equalityI) (simp_all add: cs l)
  moreover have "snd (cs ! j) = vals ! j" if "j < length cs" "j \<noteq> oi" for j
    using cs [of j] that l by simp
  ultimately show ?thesis by (intro exI [of _ cs]) (simp add: collect_results_Inr l)
qed

lemma outer_by_length:
  assumes "list_all is_coordinate (coords meta)"
  shows "Option.bind (outer_axis_len meta) (\<lambda>n. position (\<lambda>s. s = n) (map axis_len (coords meta))) = identify_outer_coord meta"
proof -
  have "position (\<lambda>s. s = n) (map axis_len cs) = position (\<lambda>c. first_opt (shape c) = Some n) cs" if "list_all is_coordinate cs"
    for n and cs :: "'a ZarrArrayMeta list"
    using that
  proof (induction cs)
    case (Cons c cs)
    then have "first_opt (shape c) = Some (axis_len c)"
      by (cases "shape c") (simp_all add: is_coordinate_def first_opt_def axis_len_def)
    then show ?case using Cons by simp
  qed simp
  then show ?thesis using assms by (simp add: identify_outer_coord_def)
qed

lemma resolve_none [simp]: "resolve_coord_selection fl decode None v = Some (SelRange 0 (ref_len v))"
  by (simp add: resolve_coord_selection_def)

text \<open>Every worker that can read its slice derives its box from the same selections.\<close>

lemma worker_box:
  fixes meta :: "rat ZarrStoreMeta"
  defines "names \<equiv> map meta_name (coords meta)" and "sizes \<equiv> map axis_len (coords meta)"
  assumes st: "holds_coords chrono st meta vals" and ax: "planned_axes meta oi" and b: "slice_readable st meta oi b"
    and refs: "refs = map coord_values_to_ref vals" and f: "f = (case fs of None \<Rightarrow> [] | Some f \<Rightarrow> f)"
    and res: "\<And>j. j < length names \<Longrightarrow> resolve_coord_selection exact_f64 decode (filters_get f (names ! j)) (refs ! j) \<noteq> None"
  shows "\<exists>values. worker_selections exact_f64 decode chrono st meta fs (Some (outer b)) (extra b) =
    Inr (Some (sizes, values, Some (box_sels (query_selections decode (filters_without_outer f (Some oi) names) names refs) oi b)))"
proof -
  let ?F = "filters_without_outer f (Some oi) names"
  let ?S = "query_selections decode ?F names refs"
  have co: "list_all is_coordinate (coords meta)" and dn: "distinct names" and oi: "identify_outer_coord meta = Some oi"
    using ax by (simp_all add: planned_axes_def names_def)
  have oil: "oi < length names"
    using oi position_Some by (auto simp: identify_outer_coord_def names_def bind_eq_Some_conv)
  obtain cs where cs: "collect_results (map (read_coord exact_f64 chrono st (Some oi) (Some (outer b))) (enumerate 0 (coords meta))) = Inr cs"
      "map fst cs = sizes" "length cs = length names" "\<forall>j < length cs. j \<noteq> oi \<longrightarrow> snd (cs ! j) = vals ! j"
    using worker_reads [OF st oi b co] by (auto simp: names_def sizes_def)
  have lv: "length vals = length names" using st by (simp add: holds_coords_def names_def list_all2_lengthD)
  define wrefs where "wrefs = map coord_values_to_ref (map snd cs)"
  have w: "wrefs ! j = refs ! j" if "j < length names" "j \<noteq> oi" for j
    using cs(3,4) lv that by (simp add: wrefs_def refs)
  have get: "filters_get ?F (names ! j) = (if j = oi then None else filters_get f (names ! j))" if "j < length names" for j
    using filters_get_without_outer [OF dn that oil] .
  define ss where "ss = (query_selections decode ?F names refs)[oi := SelRange 0 (ref_len (wrefs ! oi))]"
  have ss: "calculate_coord_ranges exact_f64 decode ?F names wrefs = Some ss"
  proof -
    have "map (\<lambda>(i, name). resolve_coord_selection exact_f64 decode (filters_get ?F name) (wrefs ! i)) (enumerate 0 names) = map Some ss"
    proof (rule nth_equalityI)
      show "length (map (\<lambda>(i, name). resolve_coord_selection exact_f64 decode (filters_get ?F name) (wrefs ! i)) (enumerate 0 names)) =
          length (map Some ss)" by (simp add: ss_def query_selections_def)
      fix j assume "j < length (map (\<lambda>(i, name). resolve_coord_selection exact_f64 decode (filters_get ?F name) (wrefs ! i)) (enumerate 0 names))"
      then have j: "j < length names" by simp
      show "map (\<lambda>(i, name). resolve_coord_selection exact_f64 decode (filters_get ?F name) (wrefs ! i)) (enumerate 0 names) ! j = map Some ss ! j"
      proof (cases "j = oi")
        case True
        then show ?thesis using j get [OF j] by (simp add: ss_def query_selections_def nth_enumerate_eq)
      next
        case False
        then show ?thesis using j get [OF j] res [OF j] w [OF j] by (simp add: ss_def query_selections_def nth_enumerate_eq)
      qed
    qed
    then show ?thesis by (simp add: calculate_coord_ranges_def collect_options_eq_Some)
  qed
  have box: "box_sels ss oi b = box_sels ?S oi b" by (simp add: ss_def box_sels_def)
  have full: "box_sels (full_selections sizes) oi b = box_sels ?S oi b" if "fs = None"
  proof -
    have "ref_len (refs ! j) = axis_len (coords meta ! j)" if "j < length names" for j
      using st that lv by (simp add: holds_coords_def list_all2_conv_all_nth refs names_def)
    then have "?S = full_selections sizes"
      using that get f by (intro nth_equalityI) (auto simp: query_selections_def full_selections_def sizes_def names_def filters_get_def)
    then show ?thesis by simp
  qed
  note ap = apply_partition_selection_box [OF outer_by_length [OF co, unfolded oi]]
  show ?thesis
  proof (cases fs)
    case None
    then show ?thesis
      using cs(1,2) oi full ap [of None b] by (auto simp: worker_selections_def Let_def sizes_def)
  next
    case (Some g)
    then show ?thesis
      using cs(1,2) oi box ap [of "Some ss" b] ss f by (auto simp: worker_selections_def Let_def sizes_def wrefs_def names_def)
  qed
qed

text \<open>The head resolves the outer filter on the values the store holds.\<close>

lemma outer_resolved:
  fixes meta :: "rat ZarrStoreMeta"
  defines "names \<equiv> map meta_name (coords meta)"
  assumes st: "holds_coords chrono st meta vals" and oi: "identify_outer_coord meta = Some oi" and n: "axis_len (coords meta ! oi) = n"
    and oil: "oi < length names" and f: "f = (case fs of None \<Rightarrow> [] | Some f \<Rightarrow> f)"
    and ok: "coord_ok exact_f64 f (names ! oi) (coord_values_to_ref (vals ! oi))"
    and m: "coord_matches exact_f64 decode f (names ! oi) (coord_values_to_ref (vals ! oi)) i" and i: "i < n"
    and r: "r = resolve_outer_selection exact_f64 decode chrono (coord_elements st) meta fs"
  shows "i \<in> set (positions (scan_outer r n)) \<and> sel_wf (scan_outer r n) \<and> (case r of Inr (Resolved s) \<Rightarrow> sel_wf s | _ \<Rightarrow> True)"
proof -
  let ?c = "coords meta ! oi" and ?v = "coord_values_to_ref (vals ! oi)"
  have h: "ref_len ?v = n"
    "map_result (\<lambda>raw. apply_cf_time_conversion exact_f64 chrono raw (cf_time_attrs ?c))
       (read_coord_values (coord_elements st) (meta_name ?c) (full_ranges (shape ?c)) (data_type ?c)) = Inr (vals ! oi)"
    using st oil n by (simp_all add: holds_coords_def list_all2_conv_all_nth names_def)
  have g: "Option.bind fs (\<lambda>fs. filters_get fs (meta_name ?c)) = filters_get f (names ! oi)"
    using f oil by (auto simp: names_def filters_get_def split: option.split)
  show ?thesis
  proof (cases "filters_get f (names ! oi)")
    case None
    then have "r = Inr Unfiltered" using oi g by (simp add: r resolve_outer_selection_def Let_def)
    moreover have "n < index_bound" using ok h(1) by (simp add: coord_ok_def)
    ultimately show ?thesis using i by (simp add: scan_outer_def)
  next
    case (Some kinds)
    obtain s where s: "resolve_coord_selection exact_f64 decode (filters_get f (names ! oi)) ?v = Some s" "sel_wf s" "i \<in> set (positions s)"
      using resolved_position [OF ok m] i h(1) by auto
    obtain raw where "read_coord_values (coord_elements st) (meta_name ?c) (full_ranges (shape ?c)) (data_type ?c) = Inr raw"
      "apply_cf_time_conversion exact_f64 chrono raw (cf_time_attrs ?c) = vals ! oi"
      using h(2) by (cases "read_coord_values (coord_elements st) (meta_name ?c) (full_ranges (shape ?c)) (data_type ?c)")
        (auto simp: map_result_def)
    then have "r = Inr (Resolved s)" using oi g Some s(1) by (simp add: r resolve_outer_selection_def Let_def)
    then show ?thesis using s by (simp add: scan_outer_def)
  qed
qed

lemma planned_splittable:
  fixes meta :: "rat ZarrStoreMeta"
  defines "names \<equiv> map meta_name (coords meta)"
  assumes st: "holds_coords chrono st meta vals" and ax: "planned_axes meta oi" and dv: "first_opt (data_vars meta) = Some dv"
    and oil: "oi < length names" and f: "f = (case fs of None \<Rightarrow> [] | Some f \<Rightarrow> f)"
  shows "splittable meta dv fs
    (query_selections decode (filters_without_outer f (Some oi) names) names (map coord_values_to_ref vals)) oi"
proof -
  let ?S = "query_selections decode (filters_without_outer f (Some oi) names) names (map coord_values_to_ref vals)"
  have dn: "distinct names" using ax by (simp add: planned_axes_def names_def)
  have lv: "length vals = length names" using st by (simp add: holds_coords_def names_def list_all2_lengthD)
  have "(case coord_index_for_axis dv axis meta of None \<Rightarrow> True | Some ci \<Rightarrow> ci \<noteq> oi \<and> ci < length ?S \<and>
      (Option.bind fs (\<lambda>fs. filters_get fs (meta_name (coords meta ! ci))) = None \<longrightarrow> positions (?S ! ci) = [0..<shape dv ! axis]))"
    if axis: "axis \<in> set [1..<length (shape dv)]" for axis
  proof (cases "coord_index_for_axis dv axis meta")
    case (Some ci)
    have "case coord_index_for_axis dv axis meta of
        None \<Rightarrow> True | Some ci \<Rightarrow> ci \<noteq> oi \<and> axis_len (coords meta ! ci) = shape dv ! axis"
      using ax dv axis unfolding planned_axes_def list_all_iff by simp
    then have c: "ci \<noteq> oi" "axis_len (coords meta ! ci) = shape dv ! axis" using Some by simp_all
    have cl: "ci < length names"
      using Some position_Some by (auto simp: coord_index_for_axis_def names_def bind_eq_Some_conv split: if_splits)
    have "positions (?S ! ci) = [0..<shape dv ! axis]" if "Option.bind fs (\<lambda>fs. filters_get fs (meta_name (coords meta ! ci))) = None"
    proof -
      have "filters_get f (names ! ci) = None" using that f cl by (auto simp: names_def filters_get_def split: option.splits)
      then have "filters_get (filters_without_outer f (Some oi) names) (names ! ci) = None"
        using filters_get_without_outer [OF dn cl oil, of f] c(1) by simp
      moreover have "ref_len (coord_values_to_ref (vals ! ci)) = axis_len (coords meta ! ci)"
        using st cl by (simp add: holds_coords_def list_all2_conv_all_nth names_def)
      ultimately show ?thesis using cl lv c(2) by (simp add: query_selections_def)
    qed
    then show ?thesis using Some c(1) cl by (simp add: query_selections_def)
  qed simp
  moreover have "case dimensions dv of None \<Rightarrow> True | Some ds \<Rightarrow> distinct ds" using ax dv by (simp add: planned_axes_def)
  ultimately show ?thesis using oil unfolding splittable_def list_all_iff by (simp add: query_selections_def)
qed

section \<open>Properties\<close>


section \<open>A concrete query\<close>

definition demo_grid :: "rat ZarrStoreMeta" where
  "demo_grid = \<lparr>
     coords = map (\<lambda>(c, n). \<lparr>meta_name = c, data_type = ''float64'', shape = [n], chunks = Some [n], coord_min_max = None,
       cf_time_attrs = None, dimensions = Some [c]\<rparr>) [(''lat'', 4), (''x'', 2)],
     data_vars = [\<lparr>meta_name = ''t'', data_type = ''float64'', shape = [4, 2], chunks = Some [2, 2], coord_min_max = None,
       cf_time_attrs = None, dimensions = Some [''lat'', ''x'']\<rparr>], total_rows = 8\<rparr>"

definition grid_values :: "string \<Rightarrow> rat list" where
  "grid_values name = (if name = ''lat'' then [8, 4, 3, 1] else [0, 1])"

definition demo_disk :: "(rat, nat list) zarr_store" where
  "demo_disk = \<lparr>open_shape = (\<lambda>name. Inr (if name = ''lat'' then [4] else if name = ''x'' then [2] else [4, 2])),
     elements = (\<lambda>dt. demo_retrieve),
     coord_elements = \<lparr>retrieve_float = (\<lambda>name rs. Inr (case rs of [(s, e)] \<Rightarrow> take (e - s) (drop s (grid_values name)) | _ \<Rightarrow> [])),
       retrieve_int = (\<lambda>name rs. Inr [])\<rparr>\<rparr>"

definition demo_query :: "rat ZarrExec" where
  "demo_query =
     \<lparr>ze_schema = [(''lat'', Dictionary Int16 Float64), (''x'', Dictionary Int16 Float64), (''t'', Float64)], ze_path = ''grid'',
      ze_projection = None, ze_limit = None,
      ze_properties = ([(''lat'', Dictionary Int16 Float64), (''x'', Dictionary Int16 Float64), (''t'', Float64)], 2),
      cached_remote = None, coord_filters = Some [(''lat'', [Range (Some (SInt64 (Some 3))) (Some (SInt64 (Some 9))) True False])],
      cached_virtualizarr = None, partitions = [from_outer (SelRange 0 2), from_outer (SelRange 2 3)],
      ze_stream_budget_bytes = None, store_meta = Some demo_grid, store_kind = ZarrKind\<rparr>"

abbreviation demo_parts :: "rat CoordFilters" where
  "demo_parts \<equiv> [(''lat'', [Range (Some (SInt64 (Some 3))) (Some (SInt64 (Some 9))) True False])]"

lemma demo_filters: "parse_coord_filters (\<lambda>v t. Some v) demo_where [''lat'', ''x''] = demo_parts"
  by (simp add: demo_where_def parse_coord_filters_def extract_low_def extract_high_def
      extract_column_literal_comparison_def column_and_literal_def update_bounds_def pb_default_def into_filters_def ex_bool_eq)

lemma demo_grid_coords:
  "map meta_name (coords demo_grid) = [''lat'', ''x'']" "map axis_len (coords demo_grid) = [4, 2]" "length (coords demo_grid) = 2"
  by (simp_all add: demo_grid_def axis_len_def)

lemma demo_outer:
  "resolve_outer_selection exact_f64 (\<lambda>_. None) (\<lambda>_ _. None) (coord_elements demo_disk) demo_grid (Some demo_parts) =
    Inr (Resolved (SelRange 0 3))"
  by (simp add: resolve_outer_selection_def identify_outer_coord_def outer_axis_len_def demo_grid_def first_opt_def filters_get_def
      read_coord_values_def demo_disk_def full_ranges_def map_result_def grid_values_def apply_cf_time_conversion_def
      resolve_coord_selection_def is_descending_def descending_range_def find_first_leq_descending_def find_first_lt_descending_def
      find_descending_bound_def exact_f64_def descending_partition_point.simps partition_point_def bisect.simps Let_def
      sel_is_empty_def u64_def)

lemma demo_planned:
  "plan_scan_partitions None False (Some demo_grid) 2 fs (Inr (Resolved (SelRange 0 3))) =
    [from_outer (SelRange 0 2), from_outer (SelRange 2 3)]"
  by code_simp

definition demo_grid_table :: "rat ZarrTable" where
  "demo_grid_table = with_metadata [(''lat'', Dictionary Int16 Float64), (''x'', Dictionary Int16 Float64), (''t'', Float64)] ''grid'' demo_grid"

lemma demo_scan:
  "table_scan (\<lambda>v t. Some v) (\<lambda>_. False) from_cached
    (resolve_outer_selection exact_f64 (\<lambda>_. None) (\<lambda>_ _. None) (coord_elements demo_disk)) 2 demo_grid_table None demo_where None =
    Some demo_query"
proof -
  have f: "table_filters (\<lambda>v t. Some v) demo_grid_table demo_where = Some demo_parts"
    by (simp add: table_filters_def demo_grid_table_def with_metadata_def demo_grid_coords demo_filters filters_is_empty_def)
  show ?thesis unfolding table_scan_def f
    by (simp add: demo_grid_table_def with_metadata_def resolve_outer_def is_remote_url_def starts_with_def demo_outer demo_planned Let_def)
      (simp add: ZarrExec_new_def with_partitions_def with_store_kind_def with_store_meta_def build_properties_def
        build_exec_projected_schema_def demo_query_def)
qed

lemma demo_axes: "planned_axes demo_grid 0" "holds_coords (\<lambda>_ _. None) demo_disk demo_grid [Float64Values [8, 4, 3, 1], Float64Values [0, 1]]"
  by (simp_all add: planned_axes_def demo_grid_def is_coordinate_def identify_outer_coord_def outer_axis_len_def first_opt_def
      coord_index_for_axis_def axis_len_def holds_coords_def demo_disk_def read_coord_values_def full_ranges_def map_result_def
      grid_values_def apply_cf_time_conversion_def)

lemma demo_where_holds:
  assumes "e \<in> set demo_where"
  shows "holds (scan_sql (\<lambda>_. None)) (\<lambda>v t. Some v) (\<lambda>n. SFloat64 (Some (if n = ''lat'' then 4 else 1))) e \<and>
    canonical (scan_sql (\<lambda>_. None)) (\<lambda>v t. Some v) (\<lambda>n. SFloat64 (Some (if n = ''lat'' then 4 else 1))) e"
  using assms by (auto simp: demo_where_def rel_holds_def sql_rel_def exact_sql_def exact_f64_def operand_canonical_def cast_keeps_def)


end
